(* ===== verification/Prelude.thy ===== *)
theory Prelude
  imports Main "HOL-Library.Word" "HOL-Library.State_Monad" "HOL-Library.Signed_Division"
begin

unbundle bit_operations_syntax

text \<open>
  Shared vocabulary of the development.

  \<^item> The fixed-width integers of the C sources (\<open>uint8_t\<close> .. \<open>uint64_t\<close>) as words, C's
    \<open>int\<close> as \<^typ>\<open>int\<close> with the conversion \<open>to_int32\<close> written out where a value may not fit.
  \<^item> Every function of the driver that touches a device is a computation of the library's
    state monad; \<open>seq_chk\<close> is the idiom \<open>rc = f(); if (rc < 0) return rc;\<close> that the tuner
    drivers repeat after almost every statement.
  \<^item> A small Hoare layer over that monad: \<open>always\<close> (an invariant every run keeps, whatever
    the result code), \<open>on_success\<close> (an invariant kept by every run that returns a
    non-negative code) and \<open>succeeds\<close> (every run from the invariant returns a non-negative
    code and keeps it); \<open>hoare\<close> is the triple of a precondition, a run and what holds after
    it when it returns a non-negative code. Their rules are collected in \<open>always_rules\<close>, \<open>success_rules\<close> and
    \<open>total_rules\<close>, so that such a fact about a driver function follows from its shape.
\<close>

named_theorems always_rules \<open>rules that prove an invariant of every run\<close>
named_theorems total_rules \<open>rules that prove that a run succeeds\<close>
named_theorems success_rules \<open>rules that prove an invariant of every successful run\<close>

section \<open>Types\<close>

type_synonym u8 = "8 word"
type_synonym u16 = "16 word"
type_synonym u32 = "32 word"
type_synonym u64 = "64 word"

abbreviation (input) EINVAL :: int where "EINVAL \<equiv> 22"
abbreviation (input) ENOMEM :: int where "ENOMEM \<equiv> 12"

definition to_int32 :: "int \<Rightarrow> int" where
  "to_int32 x = signed_take_bit 31 x"

lemma to_int32_id: "- (2 ^ 31) \<le> x \<Longrightarrow> x < 2 ^ 31 \<Longrightarrow> to_int32 x = x"
  by (simp add: to_int32_def signed_take_bit_int_eq_self)

section \<open>Buffers\<close>

text \<open>
  \<open>overlay buf bs\<close> is the buffer after its first \<open>length bs\<close> bytes were overwritten;
  \<open>store_at\<close> is \<open>memcpy(&buf[i], bs, length bs)\<close>.
\<close>

definition overlay :: "'a list \<Rightarrow> 'a list \<Rightarrow> 'a list" where
  "overlay buf bs = bs @ drop (length bs) buf"

definition store_at :: "nat \<Rightarrow> 'a list \<Rightarrow> 'a list \<Rightarrow> 'a list" where
  "store_at i bs xs = take i xs @ bs @ drop (i + length bs) xs"

lemma length_overlay [simp]:
  "length bs \<le> length buf \<Longrightarrow> length (overlay buf bs) = length buf"
  by (simp add: overlay_def)

lemma length_store_at [simp]:
  "i + length bs \<le> length xs \<Longrightarrow> length (store_at i bs xs) = length xs"
  by (simp add: store_at_def)

lemma nth_store_at:
  assumes "i + length bs \<le> length xs" and "j < length xs"
  shows "store_at i bs xs ! j =
    (if i \<le> j \<and> j < i + length bs then bs ! (j - i) else xs ! j)"
  using assms by (auto simp: store_at_def nth_append min_def not_less)

section \<open>Monadic idioms\<close>

type_synonym ('s, 'a) prog = "('s, 'a) state"

definition gets :: "('s \<Rightarrow> 'a) \<Rightarrow> ('s, 'a) prog" where
  "gets f = State (\<lambda>s. (f s, s))"

definition modify :: "('s \<Rightarrow> 's) \<Rightarrow> ('s, unit) prog" where
  "modify f = State (\<lambda>s. ((), f s))"

abbreviation ret :: "'a \<Rightarrow> ('s, 'a) prog" where
  "ret \<equiv> State_Monad.return"

primrec seq_chk :: "('s, int) prog list \<Rightarrow> ('s, int) prog" where
  "seq_chk [] = ret 0"
| "seq_chk (m # ms) = do { rc \<leftarrow> m; if rc < 0 \<or> ms = [] then ret rc else seq_chk ms }"

definition chk :: "('s, int) prog \<Rightarrow> ('s, int) prog \<Rightarrow> ('s, int) prog" where
  "chk m k = do { rc \<leftarrow> m; if rc < 0 then ret rc else k }"

definition chk_val :: "('s, int \<times> 'a) prog \<Rightarrow> ('a \<Rightarrow> ('s, int) prog) \<Rightarrow> ('s, int) prog" where
  "chk_val m k = do { (rc, v) \<leftarrow> m; if rc < 0 then ret rc else k v }"

primrec seq_ign :: "('s, 'a) prog list \<Rightarrow> ('s, unit) prog" where
  "seq_ign [] = ret ()"
| "seq_ign (m # ms) = do { _ \<leftarrow> m; seq_ign ms }"

primrec seq_or :: "('s, int) prog list \<Rightarrow> int \<Rightarrow> ('s, int) prog" where
  "seq_or [] r = ret r"
| "seq_or (m # ms) r = do { r' \<leftarrow> m; seq_or ms (r OR r') }"

lemma run_gets [simp]: "run_state (gets f) s = (f s, s)"
  by (simp add: gets_def)

lemma run_modify [simp]: "run_state (modify f) s = ((), f s)"
  by (simp add: modify_def)

section \<open>Invariants of computations\<close>

definition always :: "('s \<Rightarrow> bool) \<Rightarrow> ('s, 'a) prog \<Rightarrow> bool" where
  "always I m \<longleftrightarrow> (\<forall>s. I s \<longrightarrow> I (snd (run_state m s)))"

definition on_success :: "('s \<Rightarrow> bool) \<Rightarrow> ('s, int) prog \<Rightarrow> bool" where
  "on_success I m \<longleftrightarrow>
    (\<forall>s. I s \<longrightarrow> 0 \<le> fst (run_state m s) \<longrightarrow> I (snd (run_state m s)))"

lemma alwaysD: "always I m \<Longrightarrow> I s \<Longrightarrow> run_state m s = (r, s') \<Longrightarrow> I s'"
  unfolding always_def by (metis snd_conv)

lemma on_successD: "on_success I m \<Longrightarrow> I s \<Longrightarrow> run_state m s = (r, s') \<Longrightarrow> 0 \<le> r \<Longrightarrow> I s'"
  unfolding on_success_def by (metis fst_conv snd_conv)

lemma always_ret [always_rules]: "always I (ret x)"
  by (simp add: always_def)

lemma always_gets [always_rules]: "always I (gets f)"
  by (simp add: always_def)

lemma always_gets_bind:
  "(\<And>s. I s \<Longrightarrow> always I (k (f s))) \<Longrightarrow> always I (State_Monad.bind (gets f) k)"
  by (simp add: always_def)

lemma always_modify: "(\<And>s. I s \<Longrightarrow> I (f s)) \<Longrightarrow> always I (modify f)"
  by (simp add: always_def)

lemma always_bind [always_rules]:
  "always I m \<Longrightarrow> (\<And>x. always I (k x)) \<Longrightarrow> always I (State_Monad.bind m k)"
  by (auto simp: always_def split: prod.splits)

lemma always_if [always_rules]:
  "(b \<Longrightarrow> always I m) \<Longrightarrow> (\<not> b \<Longrightarrow> always I n) \<Longrightarrow> always I (if b then m else n)"
  by simp

lemma always_let [always_rules]: "(\<And>x. always I (k x)) \<Longrightarrow> always I (let x = t in k x)"
  by simp

lemma always_case_prod [always_rules]:
  "(\<And>x y. always I (k x y)) \<Longrightarrow> always I (case p of (x, y) \<Rightarrow> k x y)"
  by (cases p) simp

lemma always_case_option [always_rules]:
  "(p = None \<Longrightarrow> always I m) \<Longrightarrow> (\<And>x. p = Some x \<Longrightarrow> always I (k x)) \<Longrightarrow>
    always I (case p of None \<Rightarrow> m | Some x \<Rightarrow> k x)"
  by (cases p) simp_all

lemma always_chk [always_rules]: "always I m \<Longrightarrow> always I k \<Longrightarrow> always I (chk m k)"
  unfolding chk_def by (intro always_rules)

lemma always_chk_val [always_rules]:
  "always I m \<Longrightarrow> (\<And>v. always I (k v)) \<Longrightarrow> always I (chk_val m k)"
  unfolding chk_val_def by (intro always_rules)

lemma always_seq_chk_Nil [always_rules]: "always I (seq_chk [])"
  by (auto intro!: always_rules)

lemma always_seq_chk_Cons [always_rules]:
  "always I m \<Longrightarrow> always I (seq_chk ms) \<Longrightarrow> always I (seq_chk (m # ms))"
  by (auto intro!: always_rules)

lemma always_seq_chk: "(\<And>m. m \<in> set ms \<Longrightarrow> always I m) \<Longrightarrow> always I (seq_chk ms)"
  by (induction ms) (auto intro!: always_rules simp del: bind_assoc)

lemma always_seq_ign: "(\<And>m. m \<in> set ms \<Longrightarrow> always I m) \<Longrightarrow> always I (seq_ign ms)"
  by (induction ms) (auto intro!: always_rules simp del: bind_assoc)

lemma always_seq_or: "(\<And>m. m \<in> set ms \<Longrightarrow> always I m) \<Longrightarrow> always I (seq_or ms r)"
  by (induction ms arbitrary: r) (auto intro!: always_rules simp del: bind_assoc)

lemma on_success_always: "always I m \<Longrightarrow> on_success I m"
  by (simp add: always_def on_success_def)

lemma always_conj: "always I m \<Longrightarrow> always J m \<Longrightarrow> always (\<lambda>s. I s \<and> J s) m"
  by (simp add: always_def)

lemma on_success_fail: "r < 0 \<Longrightarrow> on_success I (ret r)"
  by (simp add: on_success_def)

lemma on_success_ret [success_rules]: "on_success I (ret r)"
  by (simp add: on_success_def)

lemma on_success_bind [success_rules]:
  "always I m \<Longrightarrow> (\<And>x. on_success I (k x)) \<Longrightarrow> on_success I (State_Monad.bind m k)"
  by (auto simp: always_def on_success_def split: prod.splits)

lemma on_success_if [success_rules]:
  "(b \<Longrightarrow> on_success I m) \<Longrightarrow> (\<not> b \<Longrightarrow> on_success I n) \<Longrightarrow>
    on_success I (if b then m else n)"
  by simp

lemma on_success_neg [success_rules]: "on_success I (State_Monad.bind m (\<lambda>_. ret (- 1)))"
  by (auto simp: on_success_def split: prod.splits)

lemma on_success_let [success_rules]:
  "(\<And>x. on_success I (k x)) \<Longrightarrow> on_success I (let x = t in k x)"
  by simp

lemma on_success_case_prod [success_rules]:
  "(\<And>x y. on_success I (k x y)) \<Longrightarrow> on_success I (case p of (x, y) \<Rightarrow> k x y)"
  by (cases p) simp

lemma on_success_chk [success_rules]:
  "on_success I m \<Longrightarrow> on_success I k \<Longrightarrow> on_success I (chk m k)"
  by (auto simp: on_success_def chk_def split: prod.splits)

definition on_success_val :: "('s \<Rightarrow> bool) \<Rightarrow> ('s, int \<times> 'a) prog \<Rightarrow> bool" where
  "on_success_val I m \<longleftrightarrow>
    (\<forall>s. I s \<longrightarrow> 0 \<le> fst (fst (run_state m s)) \<longrightarrow> I (snd (run_state m s)))"

lemma on_success_val_always: "always I m \<Longrightarrow> on_success_val I m"
  by (simp add: always_def on_success_val_def)

lemma on_success_chk_val [success_rules]:
  "on_success_val I m \<Longrightarrow> (\<And>v. on_success I (k v)) \<Longrightarrow> on_success I (chk_val m k)"
  by (auto simp: on_success_def on_success_val_def chk_val_def split: prod.splits)

lemma on_success_then_modify [success_rules]:
  "on_success I m \<Longrightarrow> always I (modify f) \<Longrightarrow>
    on_success I (State_Monad.bind m (\<lambda>rc. State_Monad.bind (modify f) (\<lambda>_. ret rc)))"
  by (auto simp: on_success_def always_def split: prod.splits)

lemma on_success_gets_bind:
  "(\<And>s. I s \<Longrightarrow> on_success I (k (f s))) \<Longrightarrow> on_success I (State_Monad.bind (gets f) k)"
  by (simp add: on_success_def)

lemma on_success_gets [success_rules]: "on_success I (gets f)"
  by (simp add: on_success_def)

lemma on_success_case_option [success_rules]:
  "(p = None \<Longrightarrow> on_success I m) \<Longrightarrow> (\<And>x. p = Some x \<Longrightarrow> on_success I (k x)) \<Longrightarrow>
    on_success I (case p of None \<Rightarrow> m | Some x \<Rightarrow> k x)"
  by (cases p) simp_all

lemma on_success_seq_chk_Nil [success_rules]: "on_success I (seq_chk [])"
  by (simp add: on_success_def)

lemma on_success_seq_chk_Cons [success_rules]:
  "on_success I m \<Longrightarrow> on_success I (seq_chk ms) \<Longrightarrow> on_success I (seq_chk (m # ms))"
proof -
  assume "on_success I m" and "on_success I (seq_chk ms)"
  moreover have "seq_chk (m # ms) = (if ms = [] then m else chk m (seq_chk ms))"
    by (auto simp: chk_def intro!: state_ext split: prod.splits)
  ultimately show ?thesis by (auto intro: success_rules)
qed

lemma on_success_seq_chk:
  "(\<And>m. m \<in> set ms \<Longrightarrow> on_success I m) \<Longrightarrow> on_success I (seq_chk ms)"
  by (induction ms) (auto intro!: success_rules simp del: seq_chk.simps)

declare seq_chk.simps [simp del]

section \<open>Pre- and postconditions of successful runs\<close>

definition hoare :: "('s \<Rightarrow> bool) \<Rightarrow> ('s, int) prog \<Rightarrow> ('s \<Rightarrow> bool) \<Rightarrow> bool" where
  "hoare P m Q \<longleftrightarrow> (\<forall>s. P s \<longrightarrow> 0 \<le> fst (run_state m s) \<longrightarrow> Q (snd (run_state m s)))"

lemma hoareI: "on_success P m \<Longrightarrow> (\<And>s. P s \<Longrightarrow> Q s) \<Longrightarrow> hoare P m Q"
  by (simp add: hoare_def on_success_def)

lemma hoare_chk: "hoare P m Q \<Longrightarrow> hoare Q k R \<Longrightarrow> hoare P (chk m k) R"
  by (auto simp: hoare_def chk_def split: prod.splits)

lemma stable_chk: "on_success P m \<Longrightarrow> hoare P k R \<Longrightarrow> hoare P (chk m k) R"
  by (auto simp: hoare_def on_success_def chk_def split: prod.splits)

lemma hoare_raise: "r < 0 \<Longrightarrow> hoare P (State_Monad.bind m (\<lambda>_. ret r)) Q"
  by (auto simp: hoare_def split: prod.splits)

lemma hoare_chk_val: "on_success_val P m \<Longrightarrow> (\<And>v. hoare P (k v) R) \<Longrightarrow> hoare P (chk_val m k) R"
  by (auto simp: hoare_def on_success_val_def chk_val_def split: prod.splits)

lemma hoare_gets_bind: "(\<And>s. P s \<Longrightarrow> hoare P (k (f s)) Q) \<Longrightarrow> hoare P (State_Monad.bind (gets f) k) Q"
  by (simp add: hoare_def)

lemma hoare_if: "(b \<Longrightarrow> hoare P m Q) \<Longrightarrow> (\<not> b \<Longrightarrow> hoare P n Q) \<Longrightarrow> hoare P (if b then m else n) Q"
  by simp

lemma hoare_fail: "r < 0 \<Longrightarrow> hoare P (ret r) Q"
  by (simp add: hoare_def)

lemma hoare_seq_chk1: "hoare P m Q \<Longrightarrow> hoare P (seq_chk [m]) Q"
  by (auto simp: hoare_def seq_chk.simps split: prod.splits)

lemma hoare_seq_chk: "ms \<noteq> [] \<Longrightarrow> hoare P m Q \<Longrightarrow> hoare Q (seq_chk ms) R \<Longrightarrow> hoare P (seq_chk (m # ms)) R"
  by (auto simp: hoare_def seq_chk.simps split: prod.splits)

lemma hoare_pre: "hoare P m Q \<Longrightarrow> (\<And>s. R s \<Longrightarrow> P s) \<Longrightarrow> hoare R m Q"
  by (simp add: hoare_def)

section \<open>Computations that succeed\<close>

definition succeeds :: "('s \<Rightarrow> bool) \<Rightarrow> ('s, int) prog \<Rightarrow> bool" where
  "succeeds I m \<longleftrightarrow> (\<forall>s. I s \<longrightarrow> 0 \<le> fst (run_state m s) \<and> I (snd (run_state m s)))"

definition succeeds_val :: "('s \<Rightarrow> bool) \<Rightarrow> ('s, int \<times> 'a) prog \<Rightarrow> bool" where
  "succeeds_val I m \<longleftrightarrow> (\<forall>s. I s \<longrightarrow> 0 \<le> fst (fst (run_state m s)) \<and> I (snd (run_state m s)))"

lemma succeedsD: "succeeds I m \<Longrightarrow> I s \<Longrightarrow> run_state m s = (r, s') \<Longrightarrow> 0 \<le> r \<and> I s'"
  unfolding succeeds_def by (metis fst_conv snd_conv)

lemma succeeds_fst: "succeeds I m \<Longrightarrow> I s \<Longrightarrow> 0 \<le> fst (run_state m s)"
  by (simp add: succeeds_def)

lemma succeeds_ret [total_rules]: "0 \<le> r \<Longrightarrow> succeeds I (ret r)"
  by (simp add: succeeds_def)

lemma succeeds_gets [total_rules]: "(\<And>s. I s \<Longrightarrow> 0 \<le> f s) \<Longrightarrow> succeeds I (gets f)"
  by (simp add: succeeds_def)

lemma succeeds_gets_bind [total_rules]:
  "(\<And>s. I s \<Longrightarrow> succeeds I (k (f s))) \<Longrightarrow> succeeds I (State_Monad.bind (gets f) k)"
  by (simp add: succeeds_def)

lemma succeeds_modify_bind [total_rules]:
  "always I (modify f) \<Longrightarrow> succeeds I k \<Longrightarrow> succeeds I (State_Monad.bind (modify f) (\<lambda>_. k))"
  by (simp add: succeeds_def always_def)

lemma succeeds_bind_always:
  "always I m \<Longrightarrow> (\<And>x. succeeds I (k x)) \<Longrightarrow> succeeds I (State_Monad.bind m k)"
  by (auto simp: succeeds_def always_def split: prod.splits)

lemma succeeds_let [total_rules]: "(\<And>x. succeeds I (k x)) \<Longrightarrow> succeeds I (let x = t in k x)"
  by simp

lemma succeeds_pre: "(\<And>s. I s \<Longrightarrow> succeeds I m) \<Longrightarrow> succeeds I m"
  by (auto simp: succeeds_def)

lemma succeeds_always: "succeeds I m \<Longrightarrow> always I m"
  by (simp add: succeeds_def always_def)

lemma succeeds_then_modify [total_rules]:
  "succeeds I m \<Longrightarrow> always I (modify f) \<Longrightarrow>
    succeeds I (State_Monad.bind m (\<lambda>rc. State_Monad.bind (modify f) (\<lambda>_. ret rc)))"
  by (auto simp: succeeds_def always_def split: prod.splits)

lemma succeeds_if [total_rules]:
  "(b \<Longrightarrow> succeeds I m) \<Longrightarrow> (\<not> b \<Longrightarrow> succeeds I n) \<Longrightarrow> succeeds I (if b then m else n)"
  by simp

lemma succeeds_chk [total_rules]: "succeeds I m \<Longrightarrow> succeeds I k \<Longrightarrow> succeeds I (chk m k)"
  by (auto simp: succeeds_def chk_def split: prod.splits)

lemma succeeds_chk_val [total_rules]:
  "succeeds_val I m \<Longrightarrow> (\<And>v. succeeds I (k v)) \<Longrightarrow> succeeds I (chk_val m k)"
  by (auto simp: succeeds_def succeeds_val_def chk_val_def split: prod.splits)

lemma succeeds_case_option [total_rules]:
  "(p = None \<Longrightarrow> succeeds I m) \<Longrightarrow> (\<And>x. p = Some x \<Longrightarrow> succeeds I (k x)) \<Longrightarrow>
    succeeds I (case p of None \<Rightarrow> m | Some x \<Rightarrow> k x)"
  by (cases p) simp_all

lemma succeeds_case_prod [total_rules]:
  "(\<And>x y. p = (x, y) \<Longrightarrow> succeeds I (k x y)) \<Longrightarrow> succeeds I (case p of (x, y) \<Rightarrow> k x y)"
  by (cases p) simp

lemma succeeds_seq_chk_Nil [total_rules]: "succeeds I (seq_chk [])"
  by (simp add: succeeds_def seq_chk.simps)

lemma succeeds_seq_chk_Cons [total_rules]:
  "succeeds I m \<Longrightarrow> succeeds I (seq_chk ms) \<Longrightarrow> succeeds I (seq_chk (m # ms))"
  by (auto simp: succeeds_def seq_chk.simps split: prod.splits)

section \<open>Computations with a known result\<close>

text \<open>
  \<open>yields P m x Q\<close>: from every state with \<open>P\<close> the computation returns \<open>x\<close> and leaves a state with
  \<open>Q\<close>. Used where a device is known to answer, so that a driver function is a function of the
  registers.
\<close>

definition yields :: "('s \<Rightarrow> bool) \<Rightarrow> ('s, 'a) prog \<Rightarrow> 'a \<Rightarrow> ('s \<Rightarrow> bool) \<Rightarrow> bool" where
  "yields P m x Q \<longleftrightarrow> (\<forall>s. P s \<longrightarrow> fst (run_state m s) = x \<and> Q (snd (run_state m s)))"

lemma yieldsD: "yields P m x Q \<Longrightarrow> P s \<Longrightarrow> fst (run_state m s) = x \<and> Q (snd (run_state m s))"
  by (simp add: yields_def)

lemma yieldsI: "(\<And>s. P s \<Longrightarrow> \<exists>s'. run_state m s = (x, s') \<and> Q s') \<Longrightarrow> yields P m x Q"
  unfolding yields_def by fastforce

lemma yields_bind: "yields P m x Q \<Longrightarrow> yields Q (k x) y R \<Longrightarrow> yields P (State_Monad.bind m k) y R"
  by (auto simp: yields_def split: prod.splits)

lemma yields_ret: "yields P (ret x) x P"
  by (simp add: yields_def)

lemma yields_gets: "(\<And>s. P s \<Longrightarrow> f s = x) \<Longrightarrow> yields P (gets f) x P"
  by (simp add: yields_def)

lemma yields_modify: "(\<And>s. P s \<Longrightarrow> Q (f s)) \<Longrightarrow> yields P (modify f) () Q"
  by (simp add: yields_def)

lemma yields_post: "yields P m x Q \<Longrightarrow> (\<And>s. Q s \<Longrightarrow> R s) \<Longrightarrow> yields P m x R"
  by (simp add: yields_def)

lemma yields_seq_ign_Nil: "yields P (seq_ign []) () P"
  by (simp add: yields_def)

lemma yields_seq_ign_Cons: "yields P m x Q \<Longrightarrow> yields Q (seq_ign ms) () R \<Longrightarrow> yields P (seq_ign (m # ms)) () R"
  by (auto simp: yields_def split: prod.splits)

lemma yields_ex: "(\<And>g. yields (P g) m x Q) \<Longrightarrow> yields (\<lambda>s. \<exists>g. P g s) m x Q"
  by (auto simp: yields_def)

lemma yields_exI: "yields P m x (Q g) \<Longrightarrow> yields P m x (\<lambda>s. \<exists>g. Q g s)"
  by (auto simp: yields_def)

lemma yields_if: "(b \<Longrightarrow> yields P m x Q) \<Longrightarrow> (\<not> b \<Longrightarrow> yields P n x Q) \<Longrightarrow> yields P (if b then m else n) x Q"
  by simp

lemma yields_case: "yields P m x Q \<Longrightarrow> P s \<Longrightarrow> case run_state m s of (r, s') \<Rightarrow> r = x \<and> Q s'"
  by (auto simp: yields_def split: prod.splits)

end
