(* ===== verification/Usb.thy ===== *)
theory Usb
  imports Prelude
begin

text \<open>
  Register and I2C access of the RTL2832U over USB control transfers (src/src/librtlsdr.c,
  lines 407-613).

  libusb and the dongle behind it are not part of the repository. They are the parameter
  \<open>'h usb_ops\<close>: what a control OUT and a control IN transfer do to an unknown device state
  \<open>'h\<close>, and what an uninitialised byte of the C stack happens to hold. Every definition takes
  it as its first argument, and nothing is assumed about it here; where a property needs a
  device that answers, \<open>usb_ok\<close> states it: a transfer that is carried out returns the
  number of bytes it moved (the documented result of \<open>libusb_control_transfer\<close>).
\<close>

record 'h usb_ops =
  ctrl_out :: "'h \<Rightarrow> u16 \<Rightarrow> u16 \<Rightarrow> u8 list \<Rightarrow> int \<times> 'h"
  ctrl_in :: "'h \<Rightarrow> u16 \<Rightarrow> u16 \<Rightarrow> nat \<Rightarrow> int \<times> u8 list \<times> 'h"
  indet :: "'h \<Rightarrow> nat \<Rightarrow> u8"

definition usb_ok :: "'h usb_ops \<Rightarrow> bool" where
  "usb_ok U \<longleftrightarrow>
    (\<forall>h a i d. fst (ctrl_out U h a i d) = int (length d)) \<and>
    (\<forall>h a i n. fst (ctrl_in U h a i n) = int n \<and>
       length (fst (snd (ctrl_in U h a i n))) = n)"

section \<open>Blocks and registers\<close>

abbreviation (input) DEMODB :: u8 where "DEMODB \<equiv> 0"
abbreviation (input) USBB :: u8 where "USBB \<equiv> 1"
abbreviation (input) SYSB :: u8 where "SYSB \<equiv> 2"
abbreviation (input) IICB :: u8 where "IICB \<equiv> 6"

abbreviation (input) USB_SYSCTL :: u16 where "USB_SYSCTL \<equiv> 0x2000"
abbreviation (input) USB_EPA_CTL :: u16 where "USB_EPA_CTL \<equiv> 0x2148"
abbreviation (input) USB_EPA_MAXPKT :: u16 where "USB_EPA_MAXPKT \<equiv> 0x2158"
abbreviation (input) DEMOD_CTL :: u16 where "DEMOD_CTL \<equiv> 0x3000"
abbreviation (input) GPO :: u16 where "GPO \<equiv> 0x3001"
abbreviation (input) GPOE :: u16 where "GPOE \<equiv> 0x3003"
abbreviation (input) GPD :: u16 where "GPD \<equiv> 0x3004"
abbreviation (input) DEMOD_CTL_1 :: u16 where "DEMOD_CTL_1 \<equiv> 0x300b"

section \<open>Raw transfers\<close>

definition control_out :: "'h usb_ops \<Rightarrow> u16 \<Rightarrow> u16 \<Rightarrow> u8 list \<Rightarrow> ('h, int) prog" where
  "control_out U addr index data = State (\<lambda>h. ctrl_out U h addr index data)"

definition control_in ::
  "'h usb_ops \<Rightarrow> u16 \<Rightarrow> u16 \<Rightarrow> u8 list \<Rightarrow> nat \<Rightarrow> ('h, int \<times> u8 list) prog" where
  "control_in U addr index buf len =
     State (\<lambda>h. case ctrl_in U h addr index len of
       (r, bs, h') \<Rightarrow> ((r, overlay buf (take len bs)), h'))"

definition rtlsdr_read_array ::
  "'h usb_ops \<Rightarrow> u8 \<Rightarrow> u16 \<Rightarrow> u8 list \<Rightarrow> u8 \<Rightarrow> ('h, int \<times> u8 list) prog" where
  "rtlsdr_read_array U block addr array len =
     (let index = push_bit 8 (ucast block) in control_in U addr index array (unat len))"

definition rtlsdr_write_array ::
  "'h usb_ops \<Rightarrow> u8 \<Rightarrow> u16 \<Rightarrow> u8 list \<Rightarrow> u8 \<Rightarrow> ('h, int) prog" where
  "rtlsdr_write_array U block addr array len =
     (let index = push_bit 8 (ucast block) OR 0x10
      in control_out U addr index (take (unat len) array))"

definition rtlsdr_i2c_write_reg ::
  "'h usb_ops \<Rightarrow> u8 \<Rightarrow> u8 \<Rightarrow> u8 \<Rightarrow> ('h, int) prog" where
  "rtlsdr_i2c_write_reg U i2c_addr reg val =
     rtlsdr_write_array U IICB (ucast i2c_addr) [reg, val] 2"

definition rtlsdr_i2c_read_reg :: "'h usb_ops \<Rightarrow> u8 \<Rightarrow> u8 \<Rightarrow> ('h, u8) prog" where
  "rtlsdr_i2c_read_reg U i2c_addr reg = do {
     _ \<leftarrow> rtlsdr_write_array U IICB (ucast i2c_addr) [reg] 1;
     (_, data) \<leftarrow> rtlsdr_read_array U IICB (ucast i2c_addr) [0] 1;
     ret (data ! 0) }"

text \<open>
  \<open>rtlsdr_i2c_write\<close> takes an \<open>int\<close> length and passes it on as a \<open>uint8_t\<close>. The driver
  never calls it with a null device pointer, which the model does not have.
\<close>

definition rtlsdr_i2c_write_fn ::
  "'h usb_ops \<Rightarrow> u8 \<Rightarrow> u8 list \<Rightarrow> int \<Rightarrow> ('h, int) prog" where
  "rtlsdr_i2c_write_fn U i2c_addr buffer len =
     rtlsdr_write_array U IICB (ucast i2c_addr) buffer (word_of_int len)"

definition rtlsdr_i2c_read_fn ::
  "'h usb_ops \<Rightarrow> u8 \<Rightarrow> u8 list \<Rightarrow> int \<Rightarrow> ('h, int \<times> u8 list) prog" where
  "rtlsdr_i2c_read_fn U i2c_addr buffer len =
     rtlsdr_read_array U IICB (ucast i2c_addr) buffer (word_of_int len)"

section \<open>Registers\<close>

definition uninit2 :: "'h usb_ops \<Rightarrow> ('h, u8 list) prog" where
  "uninit2 U = gets (\<lambda>h. [indet U h 0, indet U h 1])"

definition rtlsdr_read_reg :: "'h usb_ops \<Rightarrow> u8 \<Rightarrow> u16 \<Rightarrow> u8 \<Rightarrow> ('h, u16) prog" where
  "rtlsdr_read_reg U block addr len = do {
     buf \<leftarrow> uninit2 U;
     (r, data) \<leftarrow> control_in U addr (push_bit 8 (ucast block)) buf (unat len);
     ret (push_bit 8 (ucast (data ! 1)) OR ucast (data ! 0)) }"

definition reg_bytes :: "u16 \<Rightarrow> u8 \<Rightarrow> u8 list" where
  "reg_bytes val len =
     take (unat len) [if len = 1 then ucast (val AND 0xff) else ucast (drop_bit 8 val),
                      ucast (val AND 0xff)]"

definition rtlsdr_write_reg ::
  "'h usb_ops \<Rightarrow> u8 \<Rightarrow> u16 \<Rightarrow> u16 \<Rightarrow> u8 \<Rightarrow> ('h, int) prog" where
  "rtlsdr_write_reg U block addr val len =
     control_out U addr (push_bit 8 (ucast block) OR 0x10) (reg_bytes val len)"

definition rtlsdr_demod_read_reg :: "'h usb_ops \<Rightarrow> u8 \<Rightarrow> u16 \<Rightarrow> u8 \<Rightarrow> ('h, u16) prog" where
  "rtlsdr_demod_read_reg U page addr len = do {
     buf \<leftarrow> uninit2 U;
     (r, data) \<leftarrow> control_in U (push_bit 8 addr OR 0x20) (ucast page) buf (unat len);
     ret (push_bit 8 (ucast (data ! 1)) OR ucast (data ! 0)) }"

definition rtlsdr_demod_write_reg ::
  "'h usb_ops \<Rightarrow> u8 \<Rightarrow> u16 \<Rightarrow> u16 \<Rightarrow> u8 \<Rightarrow> ('h, int) prog" where
  "rtlsdr_demod_write_reg U page addr val len = do {
     r \<leftarrow> control_out U (push_bit 8 addr OR 0x20) (0x10 OR ucast page) (reg_bytes val len);
     _ \<leftarrow> rtlsdr_demod_read_reg U 0x0a 0x01 1;
     ret (if r = uint len then 0 else -1) }"

section \<open>GPIO and the I2C repeater\<close>

definition rtlsdr_set_gpio_bit :: "'h usb_ops \<Rightarrow> u8 \<Rightarrow> bool \<Rightarrow> ('h, unit) prog" where
  "rtlsdr_set_gpio_bit U gpio val = do {
     let g = (push_bit (unat gpio) 1 :: u8);
     r \<leftarrow> rtlsdr_read_reg U SYSB GPO 1;
     _ \<leftarrow> rtlsdr_write_reg U SYSB GPO (if val then r OR ucast g else r AND NOT (ucast g)) 1;
     ret () }"

definition rtlsdr_set_gpio_output :: "'h usb_ops \<Rightarrow> u8 \<Rightarrow> ('h, unit) prog" where
  "rtlsdr_set_gpio_output U gpio = do {
     let g = (push_bit (unat gpio) 1 :: u8);
     r \<leftarrow> rtlsdr_read_reg U SYSB GPD 1;
     _ \<leftarrow> rtlsdr_write_reg U SYSB GPD (r AND NOT (ucast g)) 1;
     r \<leftarrow> rtlsdr_read_reg U SYSB GPOE 1;
     _ \<leftarrow> rtlsdr_write_reg U SYSB GPOE (r OR ucast g) 1;
     ret () }"

definition rtlsdr_set_i2c_repeater :: "'h usb_ops \<Rightarrow> bool \<Rightarrow> ('h, unit) prog" where
  "rtlsdr_set_i2c_repeater U on = do {
     _ \<leftarrow> rtlsdr_demod_write_reg U 1 0x01 (if on then 0x18 else 0x10) 1;
     ret () }"

end
