(* ===== verification/Tuner_r82xx.thy ===== *)
theory Tuner_r82xx
  imports Usb
begin

text \<open>
  The Rafael Micro R820T/R828D driver (src/src/tuner_r82xx.c, src/include/tuner_r82xx.h).

  The state \<open>'h r82xx\<close> is \<open>struct r82xx_priv\<close> with its configuration and the device behind
  the bus. Frequencies are naturals with the \<open>uint32_t\<close>/\<open>uint64_t\<close> wrap-around written
  out, register contents are bytes. The field \<open>r_fault\<close> is not in the C code: the model
  sets it where the C code would have undefined behaviour (a division by zero, a
  \<open>memcpy\<close> of negative length, an index outside a table), and the safety properties say
  that it is never set.
\<close>

section \<open>Data\<close>

datatype r82xx_chip = CHIP_R820T | CHIP_R620D | CHIP_R828D | CHIP_R828 | CHIP_R828S | CHIP_R820C

datatype r82xx_xtal_cap_value =
  XTAL_LOW_CAP_30P | XTAL_LOW_CAP_20P | XTAL_LOW_CAP_10P | XTAL_LOW_CAP_0P | XTAL_HIGH_CAP_0P

datatype r82xx_delivery_system = SYS_UNDEFINED | SYS_DVBT | SYS_DVBT2 | SYS_ISDBT

abbreviation (input) TUNER_ANALOG_TV :: int where "TUNER_ANALOG_TV \<equiv> 2"
abbreviation (input) TUNER_DIGITAL_TV :: int where "TUNER_DIGITAL_TV \<equiv> 3"

abbreviation (input) NUM_REGS :: nat where "NUM_REGS \<equiv> 30"
abbreviation (input) REG_SHADOW_START :: nat where "REG_SHADOW_START \<equiv> 5"

record r82xx_config =
  i2c_addr :: u8
  xtal :: nat
  rafael_chip :: r82xx_chip
  max_i2c_msg_len :: nat
  use_predetect :: bool

record 'h r82xx =
  r_hw :: 'h
  r_cfg :: r82xx_config
  r_regs :: "u8 list"
  r_buf :: "u8 list"
  r_xtal_cap_sel :: r82xx_xtal_cap_value
  r_int_freq :: nat
  r_fil_cal_code :: u8
  r_input :: u8
  r_has_lock :: bool
  r_init_done :: bool
  r_delsys :: r82xx_delivery_system
  r_type :: int
  r_bw :: nat
  r_manufact :: string
  r_product :: string
  r_fault :: bool

definition r82xx_init_array :: "u8 list" where
  "r82xx_init_array =
     [0x83, 0x32, 0x75,
      0xc0, 0x40, 0xd6, 0x6c,
      0xf5, 0x63, 0x75, 0x68,
      0x6c, 0x83, 0x80, 0x00,
      0x0f, 0x00, 0xc0, 0x30,
      0x48, 0xcc, 0x60, 0x00,
      0x54, 0xae, 0x4a, 0xc0] @ [0, 0, 0]"

record r82xx_freq_range =
  fr_freq :: nat
  fr_open_d :: u8
  fr_rf_mux_ploy :: u8
  fr_tf_c :: u8
  fr_xtal_cap20p :: u8
  fr_xtal_cap10p :: u8
  fr_xtal_cap0p :: u8

definition freq_ranges :: "r82xx_freq_range list" where
  "freq_ranges = map (\<lambda>(f, o_d, mux, tf, c20, c10, c0).
      \<lparr>fr_freq = f, fr_open_d = o_d, fr_rf_mux_ploy = mux, fr_tf_c = tf,
       fr_xtal_cap20p = c20, fr_xtal_cap10p = c10, fr_xtal_cap0p = c0\<rparr>)
    [(0,   0x08, 0x02, 0xdf, 0x02, 0x01, 0x00),
     (50,  0x08, 0x02, 0xbe, 0x02, 0x01, 0x00),
     (55,  0x08, 0x02, 0x8b, 0x02, 0x01, 0x00),
     (60,  0x08, 0x02, 0x7b, 0x02, 0x01, 0x00),
     (65,  0x08, 0x02, 0x69, 0x02, 0x01, 0x00),
     (70,  0x08, 0x02, 0x58, 0x02, 0x01, 0x00),
     (75,  0x00, 0x02, 0x44, 0x02, 0x01, 0x00),
     (80,  0x00, 0x02, 0x44, 0x02, 0x01, 0x00),
     (90,  0x00, 0x02, 0x34, 0x01, 0x01, 0x00),
     (100, 0x00, 0x02, 0x34, 0x01, 0x01, 0x00),
     (110, 0x00, 0x02, 0x24, 0x01, 0x01, 0x00),
     (120, 0x00, 0x02, 0x24, 0x01, 0x01, 0x00),
     (140, 0x00, 0x02, 0x14, 0x01, 0x01, 0x00),
     (180, 0x00, 0x02, 0x13, 0x00, 0x00, 0x00),
     (220, 0x00, 0x02, 0x13, 0x00, 0x00, 0x00),
     (250, 0x00, 0x02, 0x11, 0x00, 0x00, 0x00),
     (280, 0x00, 0x02, 0x00, 0x00, 0x00, 0x00),
     (310, 0x00, 0x41, 0x00, 0x00, 0x00, 0x00),
     (450, 0x00, 0x41, 0x00, 0x00, 0x00, 0x00),
     (588, 0x00, 0x40, 0x00, 0x00, 0x00, 0x00),
     (650, 0x00, 0x40, 0x00, 0x00, 0x00, 0x00)]"

definition r82xx_xtal_capacitor :: "(u8 \<times> r82xx_xtal_cap_value) list" where
  "r82xx_xtal_capacitor =
     [(0x0b, XTAL_LOW_CAP_30P), (0x02, XTAL_LOW_CAP_20P), (0x01, XTAL_LOW_CAP_10P),
      (0x00, XTAL_LOW_CAP_0P), (0x10, XTAL_HIGH_CAP_0P)]"

section \<open>Shadow registers and I2C access\<close>

definition r_io :: "('h, 'a) prog \<Rightarrow> ('h r82xx, 'a) prog" where
  "r_io m = State (\<lambda>s. case run_state m (r_hw s) of (x, h) \<Rightarrow> (x, s\<lparr>r_hw := h\<rparr>))"

definition r_raise_fault :: "('h r82xx, unit) prog" where
  "r_raise_fault = modify (\<lambda>s. s\<lparr>r_fault := True\<rparr>)"

text \<open>\<open>None\<close>: the length passed to \<open>memcpy\<close> is negative.\<close>

definition shadow_store :: "u8 \<Rightarrow> u8 list \<Rightarrow> u8 list \<Rightarrow> u8 list option" where
  "shadow_store reg val regs =
     (let r = uint reg - int REG_SHADOW_START;
          len = (if r < 0 then int (length val) + r else int (length val));
          r = (if r < 0 then 0 else r)
      in if len \<le> 0 then Some regs
         else let len = (if len > int NUM_REGS - r then int NUM_REGS - r else len)
              in if len < 0 then None
                 else Some (store_at (nat r) (take (nat len) val) regs))"

definition store_shadow :: "u8 \<Rightarrow> u8 list \<Rightarrow> ('h r82xx, unit) prog" where
  "store_shadow reg val = modify (\<lambda>s. case shadow_store reg val (r_regs s) of
       None \<Rightarrow> s\<lparr>r_fault := True\<rparr> | Some rs \<Rightarrow> s\<lparr>r_regs := rs\<rparr>)"

text \<open>
  The pieces \<open>r82xx_write\<close> cuts a block into: at most \<open>c\<close> bytes each, the register number
  advanced by what was sent. \<open>None\<close>: with \<open>c = 0\<close> the C loop makes no progress.
\<close>

function chunks :: "nat \<Rightarrow> u8 \<Rightarrow> u8 list \<Rightarrow> (u8 \<times> u8 list) list option" where
  "chunks c reg val =
     (if length val \<le> c then Some [(reg, val)]
      else if c = 0 then None
      else map_option (Cons (reg, take c val))
             (chunks c (reg + of_nat c) (drop c val)))"
  by pat_completeness auto
termination
  by (relation "measure (\<lambda>(c, reg, val). length val)") auto

declare chunks.simps [simp del]

definition send_chunk :: "'h usb_ops \<Rightarrow> u8 \<times> u8 list \<Rightarrow> ('h r82xx, int) prog" where
  "send_chunk U ch = do {
     let size = int (length (snd ch));
     _ \<leftarrow> modify (\<lambda>s. s\<lparr>r_buf := store_at 0 (fst ch # snd ch) (r_buf s)\<rparr>);
     addr \<leftarrow> gets (\<lambda>s. i2c_addr (r_cfg s));
     buf \<leftarrow> gets r_buf;
     rc \<leftarrow> r_io (rtlsdr_i2c_write_fn U addr buf (size + 1));
     ret (if rc \<noteq> size + 1 then (if rc < 0 then rc else -1) else 0) }"

definition r82xx_write :: "'h usb_ops \<Rightarrow> u8 \<Rightarrow> u8 list \<Rightarrow> ('h r82xx, int) prog" where
  "r82xx_write U reg val = do {
     _ \<leftarrow> store_shadow reg val;
     m \<leftarrow> gets (\<lambda>s. max_i2c_msg_len (r_cfg s));
     case chunks ((m + 2 ^ 32 - 1) mod 2 ^ 32) reg val of
       None \<Rightarrow> do { _ \<leftarrow> r_raise_fault; ret (-1) }
     | Some cs \<Rightarrow> seq_chk (map (send_chunk U) cs) }"

definition r82xx_write_reg :: "'h usb_ops \<Rightarrow> u8 \<Rightarrow> u8 \<Rightarrow> ('h r82xx, int) prog" where
  "r82xx_write_reg U reg val = r82xx_write U reg [val]"

definition r82xx_read_cache_reg :: "u8 list \<Rightarrow> u8 \<Rightarrow> int" where
  "r82xx_read_cache_reg regs reg =
     (let r = uint reg - int REG_SHADOW_START
      in if 0 \<le> r \<and> r < int NUM_REGS then uint (regs ! nat r) else -1)"

definition r82xx_write_reg_mask ::
  "'h usb_ops \<Rightarrow> u8 \<Rightarrow> u8 \<Rightarrow> u8 \<Rightarrow> ('h r82xx, int) prog" where
  "r82xx_write_reg_mask U reg val bit_mask = do {
     rc \<leftarrow> gets (\<lambda>s. r82xx_read_cache_reg (r_regs s) reg);
     if rc < 0 then ret rc
     else r82xx_write U reg [(word_of_int rc AND NOT bit_mask) OR (val AND bit_mask)] }"

definition r82xx_bitrev :: "u8 \<Rightarrow> u8" where
  "r82xx_bitrev byte =
     (let lut = [0x0, 0x8, 0x4, 0xc, 0x2, 0xa, 0x6, 0xe,
                 0x1, 0x9, 0x5, 0xd, 0x3, 0xb, 0x7, 0xf] :: u8 list
      in push_bit 4 (lut ! unat (byte AND 0xf)) OR (lut ! unat (drop_bit 4 byte)))"

definition r82xx_read :: "'h usb_ops \<Rightarrow> u8 \<Rightarrow> nat \<Rightarrow> ('h r82xx, int \<times> u8 list) prog" where
  "r82xx_read U reg len = do {
     _ \<leftarrow> modify (\<lambda>s. s\<lparr>r_buf := store_at 0 [reg] (r_buf s)\<rparr>);
     addr \<leftarrow> gets (\<lambda>s. i2c_addr (r_cfg s));
     buf \<leftarrow> gets r_buf;
     rc \<leftarrow> r_io (rtlsdr_i2c_write_fn U addr buf 1);
     if rc \<noteq> 1 then ret (if rc < 0 then rc else -1, [])
     else do {
       (rc, p) \<leftarrow> r_io (rtlsdr_i2c_read_fn U addr (drop 1 buf) (int len));
       _ \<leftarrow> modify (\<lambda>s. s\<lparr>r_buf := store_at 1 p (r_buf s)\<rparr>);
       if rc \<noteq> int len then ret (if rc < 0 then rc else -1, [])
       else ret (0, map r82xx_bitrev (take len p)) } }"

section \<open>Tuning logic\<close>

function find_range :: "nat \<Rightarrow> nat \<Rightarrow> nat" where
  "find_range freq i =
     (if i < length freq_ranges - 1 \<and> \<not> freq < fr_freq (freq_ranges ! (i + 1))
      then find_range freq (i + 1) else i)"
  by pat_completeness auto
termination
  by (relation "measure (\<lambda>(freq, i). length freq_ranges - i)") auto

declare find_range.simps [simp del]

fun mux_xtal_cap :: "r82xx_xtal_cap_value \<Rightarrow> r82xx_freq_range \<Rightarrow> u8" where
  "mux_xtal_cap XTAL_LOW_CAP_30P r = fr_xtal_cap20p r OR 0x08"
| "mux_xtal_cap XTAL_LOW_CAP_20P r = fr_xtal_cap20p r OR 0x08"
| "mux_xtal_cap XTAL_LOW_CAP_10P r = fr_xtal_cap10p r OR 0x08"
| "mux_xtal_cap XTAL_HIGH_CAP_0P r = fr_xtal_cap0p r OR 0x00"
| "mux_xtal_cap XTAL_LOW_CAP_0P r = fr_xtal_cap0p r OR 0x08"

definition r82xx_set_mux :: "'h usb_ops \<Rightarrow> nat \<Rightarrow> ('h r82xx, int) prog" where
  "r82xx_set_mux U freq = do {
     let range = freq_ranges ! find_range (freq div 1000000) 0;
     cap \<leftarrow> gets r_xtal_cap_sel;
     seq_chk
       [r82xx_write_reg_mask U 0x17 (fr_open_d range) 0x08,
        r82xx_write_reg_mask U 0x1a (fr_rf_mux_ploy range) 0xc3,
        r82xx_write_reg U 0x1b (fr_tf_c range),
        r82xx_write_reg_mask U 0x10 (mux_xtal_cap cap range) 0x0b,
        r82xx_write_reg_mask U 0x08 0x00 0x3f,
        r82xx_write_reg_mask U 0x09 0x00 0x3f] }"

subsection \<open>The PLL\<close>

abbreviation (input) vco_min :: nat where "vco_min \<equiv> 1770000"
abbreviation (input) vco_max :: nat where "vco_max \<equiv> vco_min * 2"

fun div_num_of :: "nat \<Rightarrow> nat" where
  "div_num_of div_buf = (if div_buf > 2 then Suc (div_num_of (div_buf div 2)) else 0)"

declare div_num_of.simps [simp del]

text \<open>The search for the mixer divider; the result is \<open>(mix_div, div_num)\<close>.\<close>

function calc_divider :: "nat \<Rightarrow> nat \<Rightarrow> nat \<times> nat" where
  "calc_divider freq_khz mix_div =
     (if 0 < mix_div \<and> mix_div \<le> 64
      then if vco_min \<le> freq_khz * mix_div mod 2 ^ 32 \<and> freq_khz * mix_div mod 2 ^ 32 < vco_max
           then (mix_div, div_num_of mix_div)
           else calc_divider freq_khz (mix_div * 2 mod 256)
      else (mix_div, 0))"
  by pat_completeness auto
termination
  by (relation "measure (\<lambda>(f, m). if m \<le> 64 then 65 - m else 0)") auto

declare calc_divider.simps [simp del]

text \<open>
  The sigma-delta divider: \<open>n_sdm\<close> is doubled in 16 bits until the remainder is used up.
  \<open>None\<close> is the division by \<open>n_sdm = 0\<close>, which 15 doublings of the initial 2 lead to, so
  the fuel 16 of \<open>r82xx_pll_params\<close> is never used up before the loop is over.
\<close>

fun sdm_loop :: "nat \<Rightarrow> nat \<Rightarrow> nat \<Rightarrow> nat \<Rightarrow> nat \<Rightarrow> nat option" where
  "sdm_loop 0 pll_ref_khz n_sdm vco_fra sdm = None"
| "sdm_loop (Suc fuel) pll_ref_khz n_sdm vco_fra sdm =
     (if \<not> vco_fra > 1 then Some sdm
      else if n_sdm = 0 then None
      else let q = (2 * pll_ref_khz mod 2 ^ 32) div n_sdm in
        if vco_fra > q
        then let sdm = (sdm + 32768 div (n_sdm div 2)) mod 2 ^ 16; vco_fra = vco_fra - q in
             if n_sdm \<ge> 0x8000 then Some sdm
             else sdm_loop fuel pll_ref_khz (n_sdm * 2 mod 2 ^ 16) vco_fra sdm
        else sdm_loop fuel pll_ref_khz (n_sdm * 2 mod 2 ^ 16) vco_fra sdm)"

record pll_vals =
  pv_nint :: nat
  pv_vco_fra :: nat
  pv_ni :: u8
  pv_si :: u8

definition r82xx_pll_int :: "nat \<Rightarrow> nat \<Rightarrow> nat \<Rightarrow> pll_vals" where
  "r82xx_pll_int freq pll_ref mix_div =
     (let ref2 = 2 * pll_ref mod 2 ^ 32;
          vco_freq = freq * mix_div mod 2 ^ 64;
          nint = (vco_freq div ref2) mod 256;
          vco_fra = ((vco_freq + 2 ^ 64 - ref2 * nint mod 2 ^ 32) mod 2 ^ 64) div 1000 mod 2 ^ 32;
          ni = word_of_int ((int nint - 13) sdiv 4);
          si = word_of_int (int nint - 4 * uint ni - 13)
      in \<lparr>pv_nint = nint, pv_vco_fra = vco_fra, pv_ni = ni, pv_si = si\<rparr>)"

definition pll_lock :: "'h usb_ops \<Rightarrow> (u8 list \<Rightarrow> ('h r82xx, int) prog) \<Rightarrow> ('h r82xx, int) prog"
  where
  "pll_lock U k =
     chk_val (r82xx_read U 0x00 3) (\<lambda>data.
       if data ! 2 AND 0x40 \<noteq> 0 then k data
       else chk (r82xx_write_reg_mask U 0x12 0x06 0xff)
              (chk_val (r82xx_read U 0x00 3) k))"

definition r82xx_set_pll :: "'h usb_ops \<Rightarrow> nat \<Rightarrow> ('h r82xx, int) prog" where
  "r82xx_set_pll U freq = do {
     let freq_khz = ((freq + 500) mod 2 ^ 32) div 1000;
     pll_ref \<leftarrow> gets (\<lambda>s. xtal (r_cfg s));
     let pll_ref_khz = ((pll_ref + 500) mod 2 ^ 32) div 1000;
     chk (seq_chk
       [r82xx_write_reg_mask U 0x10 0x00 0x10,
        r82xx_write_reg_mask U 0x1a 0x00 0x0c,
        r82xx_write_reg_mask U 0x12 0x06 0xff]) (do {
     let (mix_div, div_num) = calc_divider freq_khz 2;
     chk_val (r82xx_read U 0x00 5) (\<lambda>data. do {
     chip \<leftarrow> gets (\<lambda>s. rafael_chip (r_cfg s));
     let vco_power_ref = (if chip = CHIP_R828D then 1 else 2 :: nat);
     let vco_fine_tune = unat (drop_bit 4 (data ! 4 AND 0x30));
     let div_num = (if vco_fine_tune > vco_power_ref then of_nat div_num - 1
                    else if vco_fine_tune < vco_power_ref then of_nat div_num + 1
                    else of_nat div_num :: u8);
     chk (r82xx_write_reg_mask U 0x10 (push_bit 5 div_num) 0xe0) (
       if 2 * pll_ref mod 2 ^ 32 = 0 then do { _ \<leftarrow> r_raise_fault; ret (-1) }
       else do {
         let v = r82xx_pll_int freq pll_ref mix_div;
         if pv_nint v > 128 div vco_power_ref - 1 then ret (-1)
         else chk (seq_chk
           [r82xx_write_reg U 0x14 (pv_ni v + push_bit 6 (pv_si v)),
            r82xx_write_reg_mask U 0x12 (if pv_vco_fra v = 0 then 0x08 else 0x00) 0x08])
         (case sdm_loop 16 pll_ref_khz 2 (pv_vco_fra v) 0 of
            None \<Rightarrow> do { _ \<leftarrow> r_raise_fault; ret (-1) }
          | Some sdm \<Rightarrow> chk (seq_chk
             [r82xx_write_reg U 0x16 (of_nat (sdm div 2 ^ 8)),
              r82xx_write_reg U 0x15 (of_nat (sdm mod 2 ^ 8))])
             (pll_lock U (\<lambda>data.
               if data ! 2 AND 0x40 = 0 then do {
                 _ \<leftarrow> modify (\<lambda>s. s\<lparr>r_has_lock := False\<rparr>);
                 ret 0 }
               else do {
                 _ \<leftarrow> modify (\<lambda>s. s\<lparr>r_has_lock := True\<rparr>);
                 r82xx_write_reg_mask U 0x1a 0x08 0x08 }))) }) }) }) }"

text \<open>\<open>if (rc < 0 || !priv->has_lock) return rc;\<close> after a call of \<open>r82xx_set_pll\<close>.\<close>

definition chk_lock :: "('h r82xx, int) prog \<Rightarrow> ('h r82xx, int) prog \<Rightarrow> ('h r82xx, int) prog" where
  "chk_lock m k = do {
     rc \<leftarrow> m;
     lock \<leftarrow> gets r_has_lock;
     if rc < 0 \<or> \<not> lock then ret rc else k }"

subsection \<open>Delivery system and standard\<close>

record sysfreq_vals =
  sf_mixer_top :: u8
  sf_lna_top :: u8
  sf_cp_cur :: u8
  sf_lna_vth_l :: u8
  sf_mixer_vth_l :: u8
  sf_air_cable1_in :: u8
  sf_cable2_in :: u8
  sf_pre_dect :: u8
  sf_lna_discharge :: u8
  sf_filter_cur :: u8

definition sysfreq_vals :: "nat \<Rightarrow> r82xx_delivery_system \<Rightarrow> sysfreq_vals" where
  "sysfreq_vals freq delsys =
     (let base = \<lparr>sf_mixer_top = 0x24, sf_lna_top = 0xe5, sf_cp_cur = 0x38, sf_lna_vth_l = 0x53,
                  sf_mixer_vth_l = 0x75, sf_air_cable1_in = 0x00, sf_cable2_in = 0x00,
                  sf_pre_dect = 0x40, sf_lna_discharge = 14, sf_filter_cur = 0x40\<rparr>
      in case delsys of
           SYS_DVBT \<Rightarrow>
             if freq = 506000000 \<or> freq = 666000000 \<or> freq = 818000000
             then base\<lparr>sf_mixer_top := 0x14, sf_cp_cur := 0x28\<rparr> else base
         | SYS_DVBT2 \<Rightarrow> base
         | SYS_ISDBT \<Rightarrow> base\<lparr>sf_lna_vth_l := 0x75\<rparr>
         | SYS_UNDEFINED \<Rightarrow> base)"

text \<open>
  \<open>div_buf_cur\<close> is not among the values: the code overwrites it with \<open>0xa0\<close> before its
  only use.
\<close>

definition r82xx_sysfreq_sel ::
  "'h usb_ops \<Rightarrow> nat \<Rightarrow> int \<Rightarrow> r82xx_delivery_system \<Rightarrow> ('h r82xx, int) prog" where
  "r82xx_sysfreq_sel U freq type delsys = do {
     let v = sysfreq_vals freq delsys;
     predetect \<leftarrow> gets (\<lambda>s. use_predetect (r_cfg s));
     chk (if predetect then r82xx_write_reg_mask U 0x06 (sf_pre_dect v) 0x40 else ret 0)
     (chk (seq_chk
       [r82xx_write_reg_mask U 0x1d (sf_lna_top v) 0xc7,
        r82xx_write_reg_mask U 0x1c (sf_mixer_top v) 0xf8,
        r82xx_write_reg U 0x0d (sf_lna_vth_l v),
        r82xx_write_reg U 0x0e (sf_mixer_vth_l v)]) (do {
     _ \<leftarrow> modify (\<lambda>s. s\<lparr>r_input := sf_air_cable1_in v\<rparr>);
     chk (seq_chk
       [r82xx_write_reg_mask U 0x05 (sf_air_cable1_in v) 0x60,
        r82xx_write_reg_mask U 0x06 (sf_cable2_in v) 0x08,
        r82xx_write_reg_mask U 0x11 (sf_cp_cur v) 0x38,
        r82xx_write_reg_mask U 0x17 0xa0 0x30,
        r82xx_write_reg_mask U 0x0a (sf_filter_cur v) 0x60])
     (chk
       (if type \<noteq> TUNER_ANALOG_TV then seq_chk
         [r82xx_write_reg_mask U 0x1d 0 0x38,
          r82xx_write_reg_mask U 0x1c 0 0x04,
          r82xx_write_reg_mask U 0x06 0 0x40,
          r82xx_write_reg_mask U 0x1a 0x30 0x30,
          r82xx_write_reg_mask U 0x1d 0x18 0x38,
          r82xx_write_reg_mask U 0x1c (sf_mixer_top v) 0x04,
          r82xx_write_reg_mask U 0x1e (sf_lna_discharge v) 0x1f,
          r82xx_write_reg_mask U 0x1a 0x20 0x30]
        else seq_chk
         [r82xx_write_reg_mask U 0x06 0 0x40,
          r82xx_write_reg_mask U 0x1d (sf_lna_top v) 0x38,
          r82xx_write_reg_mask U 0x1c (sf_mixer_top v) 0x04,
          r82xx_write_reg_mask U 0x1e (sf_lna_discharge v) 0x1f,
          r82xx_write_reg_mask U 0x1a 0x00 0x30,
          r82xx_write_reg_mask U 0x10 0x00 0x04])
     (ret 0)) })) }"

text \<open>
  The calibration loop of \<open>r82xx_set_tv_standard\<close>: \<open>n\<close> is the number of rounds left and
  \<open>k\<close> the code after the loop, where \<open>break\<close> goes. A PLL that does not lock ends the
  whole function with the result code of \<open>r82xx_set_pll\<close>, which is then 0.
\<close>

primrec tv_calibrate ::
  "'h usb_ops \<Rightarrow> nat \<Rightarrow> ('h r82xx, int) prog \<Rightarrow> ('h r82xx, int) prog" where
  "tv_calibrate U 0 k = k"
| "tv_calibrate U (Suc n) k =
     chk (seq_chk
       [r82xx_write_reg_mask U 0x0b 0x6b 0x60,
        r82xx_write_reg_mask U 0x0f 0x04 0x04,
        r82xx_write_reg_mask U 0x10 0x00 0x03])
     (chk_lock (r82xx_set_pll U (56000 * 1000))
     (chk (seq_chk
       [r82xx_write_reg_mask U 0x0b 0x10 0x10,
        r82xx_write_reg_mask U 0x0b 0x00 0x10,
        r82xx_write_reg_mask U 0x0f 0x00 0x04])
     (chk_val (r82xx_read U 0x00 5) (\<lambda>data. do {
     let code = data ! 4 AND 0x0f;
     _ \<leftarrow> modify (\<lambda>s. s\<lparr>r_fil_cal_code := code\<rparr>);
     if code \<noteq> 0 \<and> code \<noteq> 0x0f then k else tv_calibrate U n k }))))"

definition r82xx_set_tv_standard ::
  "'h usb_ops \<Rightarrow> nat \<Rightarrow> int \<Rightarrow> r82xx_delivery_system \<Rightarrow> ('h r82xx, int) prog" where
  "r82xx_set_tv_standard U bw type delsys = do {
     _ \<leftarrow> modify (\<lambda>s. s\<lparr>r_regs := r82xx_init_array\<rparr>);
     chk (seq_chk
       [r82xx_write_reg_mask U 0x0c 0x00 0x0f,
        r82xx_write_reg_mask U 0x13 49 0x3f])
     (chk (if type \<noteq> TUNER_ANALOG_TV then r82xx_write_reg_mask U 0x1d 0x00 0x38 else ret 0) (do {
     _ \<leftarrow> modify (\<lambda>s. s\<lparr>r_int_freq := 3570 * 1000\<rparr>);
     tv_calibrate U 2 (do {
     _ \<leftarrow> modify (\<lambda>s. if r_fil_cal_code s = 0x0f then s\<lparr>r_fil_cal_code := 0\<rparr> else s);
     code \<leftarrow> gets r_fil_cal_code;
     chk (seq_chk
       [r82xx_write_reg_mask U 0x0a (0x10 OR code) 0x1f,
        r82xx_write_reg_mask U 0x0b 0x6b 0xef,
        r82xx_write_reg_mask U 0x07 0x00 0x80,
        r82xx_write_reg_mask U 0x06 0x10 0x30,
        r82xx_write_reg_mask U 0x1e 0x60 0x60,
        r82xx_write_reg_mask U 0x05 0x01 0x80,
        r82xx_write_reg_mask U 0x1f 0x00 0x80,
        r82xx_write_reg_mask U 0x0f 0x00 0x80,
        r82xx_write_reg_mask U 0x19 0x60 0x60]) (do {
     _ \<leftarrow> modify (\<lambda>s. s\<lparr>r_delsys := delsys, r_type := type, r_bw := bw\<rparr>);
     ret 0 }) }) })) }"

subsection \<open>Gain and bandwidth\<close>

definition r82xx_read_gain :: "'h usb_ops \<Rightarrow> ('h r82xx, int) prog" where
  "r82xx_read_gain U = chk_val (r82xx_read U 0x00 4) (\<lambda>data.
     ret (int (unat (data ! 3 AND 0x0f) * 2) + uint (drop_bit 4 (data ! 3 AND 0xf0))))"

definition r82xx_lna_gain_steps :: "int list" where
  "r82xx_lna_gain_steps = [0, 9, 13, 40, 38, 13, 31, 22, 26, 31, 26, 14, 19, 5, 35, 13]"

definition r82xx_mixer_gain_steps :: "int list" where
  "r82xx_mixer_gain_steps = [0, 5, 10, 10, 19, 9, 10, 25, 17, 10, 8, 16, 13, 6, 3, -8]"

text \<open>\<open>(total_gain, lna_index, mix_index)\<close> when the loop of \<open>r82xx_set_gain\<close> is left.\<close>

primrec gain_loop :: "nat \<Rightarrow> int \<Rightarrow> int \<Rightarrow> nat \<Rightarrow> nat \<Rightarrow> int \<times> nat \<times> nat" where
  "gain_loop 0 gain total_gain lna_index mix_index = (total_gain, lna_index, mix_index)"
| "gain_loop (Suc n) gain total_gain lna_index mix_index =
     (if total_gain \<ge> gain then (total_gain, lna_index, mix_index)
      else let lna_index = lna_index + 1; total_gain = total_gain + r82xx_lna_gain_steps ! lna_index in
        if total_gain \<ge> gain then (total_gain, lna_index, mix_index)
        else let mix_index = mix_index + 1
             in gain_loop n gain (total_gain + r82xx_mixer_gain_steps ! mix_index)
                  lna_index mix_index)"

definition r82xx_set_gain :: "'h usb_ops \<Rightarrow> bool \<Rightarrow> int \<Rightarrow> ('h r82xx, int) prog" where
  "r82xx_set_gain U set_manual_gain gain =
     (if set_manual_gain then
        chk (seq_chk
          [r82xx_write_reg_mask U 0x05 0x10 0x10,
           r82xx_write_reg_mask U 0x07 0 0x10])
        (chk_val (r82xx_read U 0x00 4) (\<lambda>data.
        chk (r82xx_write_reg_mask U 0x0c 0x08 0x9f)
        (case gain_loop 15 gain 0 0 0 of (total_gain, lna_index, mix_index) \<Rightarrow>
          chk (seq_chk
            [r82xx_write_reg_mask U 0x05 (of_nat lna_index) 0x0f,
             r82xx_write_reg_mask U 0x07 (of_nat mix_index) 0x0f])
          (ret 0))))
      else
        chk (seq_chk
          [r82xx_write_reg_mask U 0x05 0 0x10,
           r82xx_write_reg_mask U 0x07 0x10 0x10,
           r82xx_write_reg_mask U 0x0c 0x0b 0x9f])
        (ret 0))"

definition r82xx_if_low_pass_bw_table :: "int list" where
  "r82xx_if_low_pass_bw_table =
     [1700000, 1600000, 1550000, 1450000, 1200000, 900000, 700000, 550000, 450000, 350000]"

abbreviation (input) FILT_HP_BW1 :: int where "FILT_HP_BW1 \<equiv> 350000"
abbreviation (input) FILT_HP_BW2 :: int where "FILT_HP_BW2 \<equiv> 380000"

primrec low_pass_index :: "int \<Rightarrow> int list \<Rightarrow> nat" where
  "low_pass_index bw [] = 0"
| "low_pass_index bw (t # ts) = (if bw > t then 0 else Suc (low_pass_index bw ts))"

text \<open>
  The register values and the intermediate frequency \<open>r82xx_set_bandwidth\<close> chooses:
  \<open>(reg_0a, reg_0b, int_freq)\<close>. \<open>None\<close>: the loop over the low-pass table stops at its first
  entry, so that \<open>--i\<close> wraps around and the table is read out of range.
\<close>

definition bandwidth_vals :: "int \<Rightarrow> (u8 \<times> u8 \<times> int) option" where
  "bandwidth_vals bw =
     (let t0 = r82xx_if_low_pass_bw_table ! 0 in
      if bw > 7000000 then Some (0x10, 0x0b, 4570000)
      else if bw > 6000000 then Some (0x10, 0x2a, 4570000)
      else if bw > t0 + FILT_HP_BW1 + FILT_HP_BW2 then Some (0x10, 0x6b, 3570000)
      else
        let (bw, int_freq, real_bw, reg_0b) =
              (if bw > t0 + FILT_HP_BW1
               then (bw - FILT_HP_BW2, 2300000 + FILT_HP_BW2, FILT_HP_BW2, 0x80)
               else (bw, 2300000, 0, 0x80 OR 0x20 :: u8));
            (bw, int_freq, real_bw, reg_0b) =
              (if bw > t0
               then (bw - FILT_HP_BW1, int_freq + FILT_HP_BW1, real_bw + FILT_HP_BW1, reg_0b)
               else (bw, int_freq, real_bw, reg_0b OR 0x40));
            i = low_pass_index bw r82xx_if_low_pass_bw_table
        in if i = 0 then None
           else let i = i - 1;
                    real_bw = real_bw + r82xx_if_low_pass_bw_table ! i
                in Some (0x00, reg_0b OR (15 - of_nat i), int_freq - real_bw sdiv 2))"

definition r82xx_set_bandwidth :: "'h usb_ops \<Rightarrow> int \<Rightarrow> ('h r82xx, int) prog" where
  "r82xx_set_bandwidth U bw =
     (case bandwidth_vals bw of
        None \<Rightarrow> do { _ \<leftarrow> r_raise_fault; ret (-1) }
      | Some (reg_0a, reg_0b, int_freq) \<Rightarrow> do {
          _ \<leftarrow> modify (\<lambda>s. s\<lparr>r_int_freq := nat int_freq\<rparr>);
          chk (seq_chk
            [r82xx_write_reg_mask U 0x0a reg_0a 0x10,
             r82xx_write_reg_mask U 0x0b reg_0b 0xef])
          (gets (\<lambda>s. int (r_int_freq s))) })"

definition r82xx_toggle_test :: "'h usb_ops \<Rightarrow> bool \<Rightarrow> ('h r82xx, int) prog" where
  "r82xx_toggle_test U toggle = r82xx_write_reg_mask U 0x17 (if toggle then 0x08 else 0x00) 0x08"

subsection \<open>Tuning, standby, initialisation\<close>

abbreviation (input) BAND_HF :: u8 where "BAND_HF \<equiv> 1"
abbreviation (input) BAND_VHF :: u8 where "BAND_VHF \<equiv> 2"
abbreviation (input) BAND_UHF :: u8 where "BAND_UHF \<equiv> 3"

definition rtlsdr_check_dongle_model :: "string \<Rightarrow> string \<Rightarrow> string \<Rightarrow> string \<Rightarrow> bool" where
  "rtlsdr_check_dongle_model manufact product manufact_check product_check \<longleftrightarrow>
     manufact = manufact_check \<and> product = product_check"

definition is_blog_v4 :: "string \<Rightarrow> string \<Rightarrow> bool" where
  "is_blog_v4 manufact product =
     rtlsdr_check_dongle_model manufact product ''RTLSDRBlog'' ''Blog V4''"

definition v4_upconvert :: "bool \<Rightarrow> nat \<Rightarrow> nat" where
  "v4_upconvert v4 freq = (if v4 then (if freq < 28800000 then freq + 28800000 else freq) else freq)"

definition v4_open_d :: "nat \<Rightarrow> u8" where
  "v4_open_d freq =
     (if freq \<le> 2200000 \<or> (freq \<ge> 85000000 \<and> freq \<le> 112000000) \<or>
         (freq \<ge> 172000000 \<and> freq \<le> 242000000) then 0x00 else 0x08)"

definition v4_band :: "nat \<Rightarrow> u8" where
  "v4_band freq = (if freq \<le> 28800000 then BAND_HF
     else if freq > 28800000 \<and> freq < 250000000 then BAND_VHF else BAND_UHF)"

definition r82xx_set_freq :: "'h usb_ops \<Rightarrow> nat \<Rightarrow> ('h r82xx, int) prog" where
  "r82xx_set_freq U freq = do {
     v4 \<leftarrow> gets (\<lambda>s. is_blog_v4 (r_manufact s) (r_product s));
     int_freq \<leftarrow> gets r_int_freq;
     let lo_freq = (v4_upconvert v4 freq + int_freq) mod 2 ^ 32;
     chk (r82xx_set_mux U lo_freq)
     (chk_lock (r82xx_set_pll U lo_freq)
     (if v4 then
        chk (r82xx_write_reg_mask U 0x17 (v4_open_d freq) 0x08) (do {
        let band = v4_band freq;
        inp \<leftarrow> gets r_input;
        if band \<noteq> inp then do {
          _ \<leftarrow> modify (\<lambda>s. s\<lparr>r_input := band\<rparr>);
          seq_chk
            [r82xx_write_reg_mask U 0x06 (if band = BAND_HF then 0x08 else 0x00) 0x08,
             r82xx_write_reg_mask U 0x05 (if band = BAND_VHF then 0x40 else 0x00) 0x40,
             r82xx_write_reg_mask U 0x05 (if band = BAND_UHF then 0x00 else 0x20) 0x20] }
        else ret 0 })
      else do {
        let air_cable1_in = (if freq > 345000000 then 0x00 else 0x60);
        chip \<leftarrow> gets (\<lambda>s. rafael_chip (r_cfg s));
        inp \<leftarrow> gets r_input;
        if chip = CHIP_R828D \<and> air_cable1_in \<noteq> inp then do {
          _ \<leftarrow> modify (\<lambda>s. s\<lparr>r_input := air_cable1_in\<rparr>);
          r82xx_write_reg_mask U 0x05 air_cable1_in 0x60 }
        else ret 0 })) }"

definition r82xx_standby :: "'h usb_ops \<Rightarrow> ('h r82xx, int) prog" where
  "r82xx_standby U = do {
     done \<leftarrow> gets r_init_done;
     if \<not> done then ret 0
     else chk (seq_chk
       [r82xx_write_reg U 0x06 0xb1,
        r82xx_write_reg U 0x05 0xa0,
        r82xx_write_reg U 0x07 0x3a,
        r82xx_write_reg U 0x08 0x40,
        r82xx_write_reg U 0x09 0xc0,
        r82xx_write_reg U 0x0a 0x36,
        r82xx_write_reg U 0x0c 0x35,
        r82xx_write_reg U 0x0f 0x68,
        r82xx_write_reg U 0x11 0x03,
        r82xx_write_reg U 0x17 0xf4]) (do {
     rc \<leftarrow> r82xx_write_reg U 0x19 0x0c;
     _ \<leftarrow> modify (\<lambda>s. s\<lparr>r_type := -1\<rparr>);
     ret rc }) }"

text \<open>The result of \<open>r82xx_xtal_check\<close> is the table's second column, as the enum's number.\<close>

primrec cap_code :: "r82xx_xtal_cap_value \<Rightarrow> int" where
  "cap_code XTAL_LOW_CAP_30P = 0"
| "cap_code XTAL_LOW_CAP_20P = 1"
| "cap_code XTAL_LOW_CAP_10P = 2"
| "cap_code XTAL_LOW_CAP_0P = 3"
| "cap_code XTAL_HIGH_CAP_0P = 4"

primrec xtal_try ::
  "'h usb_ops \<Rightarrow> (u8 \<times> r82xx_xtal_cap_value) list \<Rightarrow> ('h r82xx, int) prog" where
  "xtal_try U [] = ret (-1)"
| "xtal_try U (c # cs) =
     chk (r82xx_write_reg_mask U 0x10 (fst c) 0x1b)
     (chk_val (r82xx_read U 0x00 3) (\<lambda>data.
       if data ! 2 AND 0x40 = 0 then xtal_try U cs
       else do {
         let val = data ! 2 AND 0x3f;
         x \<leftarrow> gets (\<lambda>s. xtal (r_cfg s));
         if x = 16000000 \<and> (val > 29 \<or> val < 23) then ret (cap_code (snd c))
         else if val \<noteq> 0x3f then ret (cap_code (snd c))
         else xtal_try U cs }))"

definition r82xx_xtal_check :: "'h usb_ops \<Rightarrow> ('h r82xx, int) prog" where
  "r82xx_xtal_check U = do {
     _ \<leftarrow> modify (\<lambda>s. s\<lparr>r_regs := r82xx_init_array\<rparr>);
     chk (seq_chk
       [r82xx_write_reg_mask U 0x10 0x0b 0x0b,
        r82xx_write_reg_mask U 0x1a 0x00 0x0c,
        r82xx_write_reg_mask U 0x13 0x7f 0x7f,
        r82xx_write_reg_mask U 0x13 0x00 0x40])
     (xtal_try U r82xx_xtal_capacitor) }"

definition r82xx_init :: "'h usb_ops \<Rightarrow> ('h r82xx, int) prog" where
  "r82xx_init U = do {
     _ \<leftarrow> modify (\<lambda>s. s\<lparr>r_xtal_cap_sel := XTAL_HIGH_CAP_0P\<rparr>);
     _ \<leftarrow> r82xx_write U 0x05 r82xx_init_array;
     chk (r82xx_set_tv_standard U 3 TUNER_DIGITAL_TV SYS_UNDEFINED) (do {
     rc \<leftarrow> r82xx_sysfreq_sel U 0 TUNER_DIGITAL_TV SYS_DVBT;
     _ \<leftarrow> modify (\<lambda>s. s\<lparr>r_init_done := True\<rparr>);
     ret rc }) }"

section \<open>No undefined behaviour\<close>

text \<open>
  The state is well formed: the shadow registers and the message buffer have their declared
  sizes, the message limit is the 8 bytes \<open>r820t_init\<close> sets, the reference clock is not zero
  and its value in kHz fits in 15 bits, and no undefined behaviour has occurred.
\<close>

definition r_inv :: "'h r82xx \<Rightarrow> bool" where
  "r_inv s \<longleftrightarrow> length (r_regs s) = NUM_REGS \<and> length (r_buf s) = NUM_REGS + 1 \<and>
     max_i2c_msg_len (r_cfg s) = 8 \<and> 0 < xtal (r_cfg s) \<and> xtal (r_cfg s) < 32767500 \<and> \<not> r_fault s"

lemma chunks_small: "length val \<le> c \<Longrightarrow> chunks c reg val = Some [(reg, val)]"
  by (simp add: chunks.simps)

lemma chunks_Some: "0 < c \<Longrightarrow> \<exists>cs. chunks c reg val = Some cs"
  by (induction c reg val rule: chunks.induct) (auto simp: chunks.simps)

lemma chunks_le: "chunks c reg val = Some cs \<Longrightarrow> ch \<in> set cs \<Longrightarrow> length (snd ch) \<le> c"
proof (induction c reg val arbitrary: cs rule: chunks.induct)
  case (1 c reg val)
  then show ?case
    by (subst (asm) (2) chunks.simps) (auto split: if_splits)
qed

lemma always_r_io: "(\<And>h s. I s \<Longrightarrow> I (s\<lparr>r_hw := h\<rparr>)) \<Longrightarrow> always I (r_io m)"
  by (auto simp: always_def r_io_def split: prod.splits)

lemma r_inv_io [always_rules]: "always r_inv (r_io m)"
  by (rule always_r_io) (simp add: r_inv_def)

lemma r_inv_send_chunk: "length (snd ch) \<le> 7 \<Longrightarrow> always r_inv (send_chunk U ch)"
  unfolding send_chunk_def Let_def
  by (intro always_rules always_modify) (simp add: r_inv_def)

lemma shadow_store_Some:
  assumes "length regs = NUM_REGS" and "uint reg + int (length val) \<le> 35" and "5 \<le> uint reg"
  shows "shadow_store reg val regs = Some (store_at (nat (uint reg - 5)) val regs)"
  using assms by (auto simp: shadow_store_def Let_def store_at_def)


lemma r_inv_store_shadow:
  "5 \<le> uint reg \<Longrightarrow> uint reg + int (length val) \<le> 35 \<Longrightarrow> always r_inv (store_shadow reg val)"
  unfolding store_shadow_def
  by (rule always_modify) (auto simp: r_inv_def shadow_store_Some)


lemma r_inv_write:
  assumes "5 \<le> uint reg" and "uint reg + int (length val) \<le> 35"
  shows "always r_inv (r82xx_write U reg val)"
proof -
  obtain cs where cs: "chunks 7 reg val = Some cs" using chunks_Some [of 7] by auto
  have "always r_inv (seq_chk (map (send_chunk U) cs))"
    by (rule always_seq_chk) (auto intro!: r_inv_send_chunk dest: chunks_le [OF cs])
  moreover have "chunks ((max_i2c_msg_len (r_cfg s) + 2 ^ 32 - 1) mod 2 ^ 32) reg val = Some cs"
    if "r_inv s" for s :: "'a r82xx"
    using that cs by (simp add: r_inv_def)
  ultimately show ?thesis
    unfolding r82xx_write_def
    by (intro always_bind r_inv_store_shadow assms always_gets_bind) simp
qed

lemma r_inv_write_reg [always_rules]:
  "5 \<le> uint reg \<Longrightarrow> uint reg < 35 \<Longrightarrow> always r_inv (r82xx_write_reg U reg val)"
  unfolding r82xx_write_reg_def by (rule r_inv_write) auto

lemma r_inv_write_reg_mask [always_rules]: "always r_inv (r82xx_write_reg_mask U reg val m)"
  unfolding r82xx_write_reg_mask_def
proof (intro always_gets_bind always_if always_ret)
  fix s :: "'a r82xx"
  assume "\<not> r82xx_read_cache_reg (r_regs s) reg < 0"
  then have "5 \<le> uint reg" "uint reg < 35"
    by (auto simp: r82xx_read_cache_reg_def Let_def split: if_splits)
  then show "always r_inv (r82xx_write U reg [word_of_int (r82xx_read_cache_reg (r_regs s) reg) AND NOT m OR val AND m])"
    by (intro r_inv_write) auto
qed


lemma i2c_read_length:
  "len \<le> length buf \<Longrightarrow> len < 256 \<Longrightarrow>
    run_state (rtlsdr_i2c_read_fn U a buf (int len)) h = ((rc, p), h') \<Longrightarrow> length p = length buf"
  by (auto simp: rtlsdr_i2c_read_fn_def rtlsdr_read_array_def control_in_def unat_of_nat
      split: prod.splits)

lemma r_inv_read [always_rules]: "len \<le> 30 \<Longrightarrow> always r_inv (r82xx_read U reg len)"
  unfolding r82xx_read_def always_def
  by (auto simp: r_io_def r_inv_def split: prod.splits dest!: i2c_read_length [rotated 2])

lemma pow2_double_16: "k < 15 \<Longrightarrow> 2 ^ k * 2 mod 2 ^ 16 = (2 ^ Suc k :: nat)"
proof -
  assume "k < 15"
  then have "(2::nat) ^ Suc k < 2 ^ 16" by (intro power_strict_increasing) auto
  then show ?thesis by simp
qed

lemma sdm_loop_returns:
  assumes "ref < 32768"
  shows "1 \<le> k \<Longrightarrow> k \<le> 15 \<Longrightarrow> 16 - k \<le> fuel \<Longrightarrow> \<exists>x. sdm_loop fuel ref (2 ^ k) fra sdm = Some x"
proof (induction fuel arbitrary: k fra sdm)
  case 0
  then show ?case by simp
next
  case (Suc fuel)
  show ?case
  proof (cases "k = 15")
    case True
    have "2 * ref mod 2 ^ 32 div 32768 \<le> 1"
      using assms by (simp add: less_Suc_eq_le [symmetric] less_mult_imp_div_less)
    then show ?thesis using True by (simp add: Let_def)
  next
    case False
    with Suc.prems have k: "k < 15" by simp
    have IH: "\<exists>x. sdm_loop fuel ref (2 ^ k * 2 mod 2 ^ 16) fra sdm = Some x" for fra sdm
      using Suc.IH [of "Suc k"] Suc.prems k by (simp only: pow2_double_16 [OF k])
    have "\<not> (2::nat) ^ k \<ge> 0x8000" using k power_strict_increasing [of k 15 "2::nat"] by simp
    then show ?thesis using IH by (simp add: Let_def)
  qed
qed

lemma r_inv_modify:
  "always r_inv (modify (\<lambda>s. s\<lparr>r_has_lock := b\<rparr>))"
  "always r_inv (modify (\<lambda>s. s\<lparr>r_input := i\<rparr>))"
  "always r_inv (modify (\<lambda>s. s\<lparr>r_fil_cal_code := c\<rparr>))"
  "always r_inv (modify (\<lambda>s. s\<lparr>r_int_freq := f\<rparr>))"
  "always r_inv (modify (\<lambda>s. s\<lparr>r_type := t\<rparr>))"
  "always r_inv (modify (\<lambda>s. s\<lparr>r_init_done := b\<rparr>))"
  "always r_inv (modify (\<lambda>s. s\<lparr>r_xtal_cap_sel := x\<rparr>))"
  "always r_inv (modify (\<lambda>s. s\<lparr>r_delsys := d, r_type := t, r_bw := w\<rparr>))"
  "always r_inv (modify (\<lambda>s. if r_fil_cal_code s = c then s\<lparr>r_fil_cal_code := c'\<rparr> else s))"
  "always r_inv (modify (\<lambda>s. s\<lparr>r_regs := r82xx_init_array\<rparr>))"
  by (auto intro!: always_modify simp: r_inv_def r82xx_init_array_def)

declare r_inv_modify [always_rules]


lemma r_inv_pll_lock [always_rules]: "(\<And>d. always r_inv (k d)) \<Longrightarrow> always r_inv (pll_lock U k)"
  unfolding pll_lock_def by (intro always_rules) auto


lemma pll_ref_ok:
  assumes "r_inv s"
  shows "2 * xtal (r_cfg s) mod 4294967296 \<noteq> 0"
    and "sdm_loop 16 ((xtal (r_cfg s) + 500) mod 4294967296 div 1000) 2 fra 0 \<noteq> None"
proof -
  show "2 * xtal (r_cfg s) mod 4294967296 \<noteq> 0"
    using assms by (simp add: r_inv_def)
  have "(xtal (r_cfg s) + 500) mod 4294967296 div 1000 < 32768"
    using assms by (simp add: r_inv_def less_mult_imp_div_less)
  from sdm_loop_returns [OF this, of 1 16 fra 0]
  show "sdm_loop 16 ((xtal (r_cfg s) + 500) mod 4294967296 div 1000) 2 fra 0 \<noteq> None"
    by auto
qed

lemma r_inv_set_pll [always_rules]: "always r_inv (r82xx_set_pll U freq)"
  unfolding r82xx_set_pll_def Let_def
  by (rule always_gets_bind, intro always_rules) (simp_all add: pll_ref_ok)

lemma r_inv_chk_lock [always_rules]: "always r_inv m \<Longrightarrow> always r_inv k \<Longrightarrow> always r_inv (chk_lock m k)"
  unfolding chk_lock_def by (intro always_rules)

lemma r_inv_set_mux [always_rules]: "always r_inv (r82xx_set_mux U freq)"
  unfolding r82xx_set_mux_def by (intro always_rules) simp_all

lemma r_inv_sysfreq_sel [always_rules]: "always r_inv (r82xx_sysfreq_sel U freq type delsys)"
  unfolding r82xx_sysfreq_sel_def by (intro always_rules) simp_all

lemma r_inv_tv_calibrate [always_rules]: "always r_inv k \<Longrightarrow> always r_inv (tv_calibrate U n k)"
  by (induction n) (simp_all, intro always_rules, simp_all)

lemma r_inv_set_tv_standard [always_rules]: "always r_inv (r82xx_set_tv_standard U bw type delsys)"
  unfolding r82xx_set_tv_standard_def by (intro always_rules)

lemma r_inv_set_gain [always_rules]: "always r_inv (r82xx_set_gain U manual gain)"
  unfolding r82xx_set_gain_def by (intro always_rules) simp_all

lemma bandwidth_vals_Some: "\<exists>v. bandwidth_vals bw = Some v"
  by (auto simp: bandwidth_vals_def r82xx_if_low_pass_bw_table_def Let_def)

lemma r_inv_set_bandwidth [always_rules]: "always r_inv (r82xx_set_bandwidth U bw)"
  unfolding r82xx_set_bandwidth_def using bandwidth_vals_Some [of bw]
  by (elim exE) (auto intro!: always_rules)

lemma r_inv_set_freq [always_rules]: "always r_inv (r82xx_set_freq U freq)"
  unfolding r82xx_set_freq_def by (intro always_rules)

lemma r_inv_standby [always_rules]: "always r_inv (r82xx_standby U)"
  unfolding r82xx_standby_def by (intro always_rules) simp_all

lemma r_inv_xtal_try [always_rules]: "always r_inv (xtal_try U cs)"
  by (induction cs) (auto intro!: always_rules)

lemma r_inv_xtal_check [always_rules]: "always r_inv (r82xx_xtal_check U)"
  unfolding r82xx_xtal_check_def by (intro always_rules)

lemma r_inv_init [always_rules]: "always r_inv (r82xx_init U)"
  unfolding r82xx_init_def by (intro always_rules r_inv_write) (simp_all add: r82xx_init_array_def)

lemma r_inv_toggle_test [always_rules]: "always r_inv (r82xx_toggle_test U t)"
  unfolding r82xx_toggle_test_def by (intro always_rules)

lemma r_inv_read_gain [always_rules]: "always r_inv (r82xx_read_gain U)"
  unfolding r82xx_read_gain_def by (intro always_rules) simp_all

end
