(* ===== verification/R82xx_Regs.thy ===== *)
theory R82xx_Regs
  imports Tuner_r82xx
begin

unbundle bit_operations_syntax

text \<open>
  The shadow registers of the R820T/R828D driver against the registers of the chip.

  The chip is an observation \<open>chip\<close> of the device state: what its 256 registers hold.
  \<open>chip_bus\<close> states what the data sheet promises of an I2C transfer: a completed write stores
  the bytes in consecutive registers, a read changes nothing. \<open>coherent\<close> says that the shadow
  copy equals the registers. The locale \<open>r82xx_regs\<close> is the interface between the register
  layer and the tuning layer: a predicate that the register accesses keep is kept by
  every tuning operation. It is instantiated with well-formedness (\<open>r_safe\<close>) and with coherence
  (\<open>coherent_regs\<close>).
\<close>

section \<open>Block writes\<close>

fun write_block :: "u8 \<Rightarrow> u8 list \<Rightarrow> (u8 \<Rightarrow> u8) \<Rightarrow> (u8 \<Rightarrow> u8)" where
  "write_block reg [] f = f"
| "write_block reg (b # bs) f = write_block (reg + 1) bs (f(reg := b))"

definition chip_bus :: "'h usb_ops \<Rightarrow> u8 \<Rightarrow> ('h \<Rightarrow> u8 \<Rightarrow> u8) \<Rightarrow> bool" where
  "chip_bus U a chip \<longleftrightarrow>
     (\<forall>h reg bs h'. ctrl_out U h (ucast a) 0x610 (reg # bs) = (int (length bs) + 1, h') \<longrightarrow>
        chip h' = write_block reg bs (chip h)) \<and>
     (\<forall>h n r bs h'. ctrl_in U h (ucast a) 0x600 n = (r, bs, h') \<longrightarrow> chip h' = chip h)"

lemma write_block_append:
  "write_block reg (xs @ ys) f = write_block (reg + of_nat (length xs)) ys (write_block reg xs f)"
  by (induction xs arbitrary: reg f) (auto simp: add.assoc)

lemma chunks_write_block:
  "chunks c reg val = Some cs \<Longrightarrow> fold (\<lambda>(r, bs). write_block r bs) cs f = write_block reg val f"
proof (induction c reg val arbitrary: cs f rule: chunks.induct)
  case (1 c reg val)
  show ?case
  proof (cases "length val \<le> c")
    case True
    with 1 show ?thesis by (auto simp: chunks.simps [of c reg val])
  next
    case False
    with "1.prems" obtain cs' where c: "c \<noteq> 0" and cs': "chunks c (reg + of_nat c) (drop c val) = Some cs'"
      and cs: "cs = (reg, take c val) # cs'"
      by (subst (asm) chunks.simps) (auto split: if_splits)
    have "write_block reg (take c val @ drop c val) f = 
      write_block (reg + of_nat c) (drop c val) (write_block reg (take c val) f)"
      using False by (simp only: write_block_append) simp
    then show ?thesis using "1.IH" [OF False c cs'] cs by simp
  qed
qed

lemma unat_Suc: "unat (reg :: u8) + 1 < 256 \<Longrightarrow> unat (reg + 1) = unat reg + 1"
  by (simp add: unat_word_ariths)

lemma write_block_apply:
  "unat reg + length bs \<le> 256 \<Longrightarrow>
   write_block reg bs f r =
     (if unat reg \<le> unat r \<and> unat r < unat reg + length bs then bs ! (unat r - unat reg) else f r)"
proof (induction bs arbitrary: reg f)
  case Nil
  then show ?case by auto
next
  case (Cons b bs)
  show ?case
  proof (cases "bs = []")
    case True
    then show ?thesis by (auto simp: less_Suc_eq_le word_unat_eq_iff)
  next
    case False
    then have "unat reg + 1 < 256" using Cons.prems by (cases bs) auto
    then have n: "unat (reg + 1) = unat reg + 1" by (rule unat_Suc)
    have "write_block (reg + 1) bs (f(reg := b)) r = (if unat (reg + 1) \<le> unat r \<and> unat r < unat (reg + 1) + length bs
       then bs ! (unat r - unat (reg + 1)) else (f(reg := b)) r)"
      by (rule Cons.IH) (use Cons.prems n in simp)
    then show ?thesis
      using n by (auto simp: nth_Cons' word_unat_eq_iff)
  qed
qed

definition coherent :: "('h \<Rightarrow> u8 \<Rightarrow> u8) \<Rightarrow> u8 \<Rightarrow> 'h r82xx \<Rightarrow> bool" where
  "coherent chip a s \<longleftrightarrow> r_inv s \<and> i2c_addr (r_cfg s) = a \<and>
     (\<forall>i < NUM_REGS. chip (r_hw s) (of_nat (i + REG_SHADOW_START)) = r_regs s ! i)"

lemma chk_lock_success [success_rules]:
  "on_success I m \<Longrightarrow> on_success I k \<Longrightarrow> on_success I (chk_lock m k)"
  by (auto simp: chk_lock_def on_success_def split: prod.splits) 

lemma i2c_write_run:
  "length bs < 255 \<Longrightarrow> buf = reg # bs @ rest \<Longrightarrow>
   run_state (rtlsdr_i2c_write_fn U a buf (int (length bs) + 1)) h = ctrl_out U h (ucast a) 0x610 (reg # bs)"
proof -
  assume l: "length bs < 255" and b: "buf = reg # bs @ rest"
  have "unat (word_of_int (int (length bs) + 1) :: u8) = length bs + 1"
  proof -
    have "(word_of_int (int (length bs) + 1) :: u8) = of_nat (length bs + 1)" by simp
    then show ?thesis using l by (simp only: unat_of_nat) simp
  qed
  then show ?thesis
    using b by (simp add: rtlsdr_i2c_write_fn_def rtlsdr_write_array_def control_out_def Let_def)
qed

lemma send_chunk_chip:
  assumes "chip_bus U a chip" and "r_inv s" and "i2c_addr (r_cfg s) = a" and "length (snd ch) \<le> 7"
    and run: "run_state (send_chunk U ch) s = (rc, s')" and "0 \<le> rc"
  shows "chip (r_hw s') = write_block (fst ch) (snd ch) (chip (r_hw s)) \<and> r_regs s' = r_regs s
    \<and> r_cfg s' = r_cfg s \<and> r_inv s'"
proof -
  have "r_inv s'" using r_inv_send_chunk assms by (meson alwaysD)
  obtain rest where buf: "store_at 0 (fst ch # snd ch) (r_buf s) = fst ch # snd ch @ rest"
    by (simp add: store_at_def)
  obtain r h where io: "ctrl_out U (r_hw s) (ucast a) 0x610 (fst ch # snd ch) = (r, h)" by force
  have l: "length (snd ch) < 255" using assms by simp
  from run io have "rc = (if r \<noteq> int (length (snd ch)) + 1 then (if r < 0 then r else -1) else 0)"
    and s': "r_hw s' = h \<and> r_regs s' = r_regs s \<and> r_cfg s' = r_cfg s"
    using assms(3) by (auto simp: send_chunk_def r_io_def Let_def i2c_write_run [OF l buf] split: prod.splits)
  with \<open>0 \<le> rc\<close> have "r = int (length (snd ch)) + 1" by (auto split: if_splits)
  with io assms(1) have "chip h = write_block (fst ch) (snd ch) (chip (r_hw s))"
    by (auto simp: chip_bus_def)
  with s' \<open>r_inv s'\<close> show ?thesis by simp
qed

lemma send_chunks_chip:
  assumes "chip_bus U a chip"
  shows "r_inv s \<Longrightarrow> i2c_addr (r_cfg s) = a \<Longrightarrow> (\<forall>ch \<in> set cs. length (snd ch) \<le> 7) \<Longrightarrow>
    run_state (seq_chk (map (send_chunk U) cs)) s = (rc, s') \<Longrightarrow> 0 \<le> rc \<Longrightarrow>
    chip (r_hw s') = fold (\<lambda>(r, bs). write_block r bs) cs (chip (r_hw s)) \<and> r_regs s' = r_regs s
      \<and> r_cfg s' = r_cfg s \<and> r_inv s'"
proof (induction cs arbitrary: s)
  case Nil
  then show ?case by (simp add: seq_chk.simps)
next
  case (Cons ch cs)
  obtain r1 s1 where 1: "run_state (send_chunk U ch) s = (r1, s1)" by force
  show ?case
  proof (cases "r1 < 0")
    case True
    then show ?thesis using Cons.prems 1 by (simp add: seq_chk.simps)
  next
    case False
    note step = send_chunk_chip [OF assms Cons.prems(1,2) _ 1]
    show ?thesis
    proof (cases "cs = []")
      case True
      then show ?thesis using step Cons.prems 1 False by (auto simp: seq_chk.simps split: prod.splits)
    next
      case ne: False
      then have "run_state (seq_chk (map (send_chunk U) cs)) s1 = (rc, s')"
        using Cons.prems(4) 1 False by (simp add: seq_chk.simps)
      with Cons.IH [of s1] step Cons.prems False show ?thesis by (auto split: prod.splits)
    qed
  qed
qed

lemma r82xx_write_effect:
  assumes "chip_bus U a chip" and "5 \<le> uint reg" and "uint reg + int (length val) \<le> 35"
    and inv: "r_inv s" and a: "i2c_addr (r_cfg s) = a"
    and r: "run_state (r82xx_write U reg val) s = (rc, s')" and nn: "0 \<le> rc"
  shows "chip (r_hw s') = write_block reg val (chip (r_hw s)) \<and>
    r_regs s' = store_at (nat (uint reg - 5)) val (r_regs s) \<and> r_cfg s' = r_cfg s \<and> r_inv s'"
proof -
  let ?s1 = "s\<lparr>r_regs := store_at (nat (uint reg - 5)) val (r_regs s)\<rparr>"
  obtain cs where cs: "chunks 7 reg val = Some cs" using chunks_Some [of 7] by auto
  have "run_state (r82xx_write U reg val) s = run_state (seq_chk (map (send_chunk U) cs)) ?s1"
    using inv cs assms by (simp add: r82xx_write_def store_shadow_def r_inv_def shadow_store_Some)
  moreover have inv1: "r_inv ?s1" using inv assms by (simp add: r_inv_def)
  ultimately show ?thesis
    using send_chunks_chip [OF assms(1) inv1, of cs rc s'] nn r a chunks_le [OF cs]
      chunks_write_block [OF cs] by auto
qed

lemma write_shadow_agree:
  assumes "5 \<le> uint reg" and "uint reg + int (length val) \<le> 35"
    and "length regs = 30" and "i < 30"
    and "i < unat reg - 5 \<or> unat reg - 5 + length val \<le> i \<Longrightarrow> f (of_nat (i + 5)) = regs ! i"
  shows "write_block reg val f (of_nat (i + 5)) = store_at (nat (uint reg - 5)) val regs ! i"
proof -
  have u: "unat (of_nat (i + 5) :: u8) = i + 5" using assms(4) by (simp only: unat_of_nat) simp
  have "unat reg = nat (uint reg)" by simp
  then have r: "unat reg = nat (uint reg - 5) + 5" using assms(1) by arith
  have l: "nat (uint reg - 5) + length val \<le> 30" using assms(1,2) by arith
  have "unat reg + length val \<le> 256" using r l by simp
  then show ?thesis
    using assms(3-5) l r
    by (auto simp: write_block_apply u nth_store_at simp del: of_nat_add)
qed

lemma coherent_write:
  assumes "chip_bus U a chip" and "5 \<le> uint reg" and "uint reg + int (length val) \<le> 35"
  shows "on_success (coherent chip a) (r82xx_write U reg val)"
  unfolding on_success_def
proof (intro allI impI)
  fix s
  assume coh: "coherent chip a s" and nn: "0 \<le> fst (run_state (r82xx_write U reg val) s)"
  then have inv: "r_inv s" and a: "i2c_addr (r_cfg s) = a" by (auto simp: coherent_def)
  obtain rc s' where r: "run_state (r82xx_write U reg val) s = (rc, s')" by force
  note eff = r82xx_write_effect [OF assms inv a r]
  show "coherent chip a (snd (run_state (r82xx_write U reg val) s))"
    using eff nn r a coh inv write_shadow_agree [OF assms(2,3)]
    by (auto simp: coherent_def r_inv_def)
qed

lemma coherent_write_reg:
  "chip_bus U a chip \<Longrightarrow> 5 \<le> uint reg \<Longrightarrow> uint reg < 35 \<Longrightarrow> 
    on_success (coherent chip a) (r82xx_write_reg U reg val)"
  unfolding r82xx_write_reg_def by (rule coherent_write) auto

lemma coherent_write_reg_mask:
  assumes "chip_bus U a chip"
  shows "on_success (coherent chip a) (r82xx_write_reg_mask U reg val m)"
  unfolding r82xx_write_reg_mask_def
proof (intro on_success_gets_bind on_success_if on_success_ret)
  fix s :: "'a r82xx"
  assume "\<not> r82xx_read_cache_reg (r_regs s) reg < 0"
  then have "5 \<le> uint reg" "uint reg < 35"
    by (auto simp: r82xx_read_cache_reg_def Let_def split: if_splits)
  then show "on_success (coherent chip a) (r82xx_write U reg [word_of_int (r82xx_read_cache_reg (r_regs s) reg) AND NOT m OR val AND m])"
    by (intro coherent_write assms) auto
qed

lemma r82xx_read_effect:
  assumes "chip_bus U a chip" and a: "i2c_addr (r_cfg s) = a"
    and r: "run_state (r82xx_read U reg len) s = ((rc, d), s')" and nn: "0 \<le> rc"
  shows "chip (r_hw s') = chip (r_hw s) \<and> r_regs s' = r_regs s \<and> r_cfg s' = r_cfg s"
proof -
  obtain rest where buf: "store_at 0 [reg] (r_buf s) = reg # [] @ rest" by (simp add: store_at_def)
  have w: "run_state (rtlsdr_i2c_write_fn U a (store_at 0 [reg] (r_buf s)) 1) h =
      ctrl_out U h (ucast a) 0x610 [reg]" for h
    using i2c_write_run [OF _ buf] by simp
  obtain rc1 h1 where 1: "ctrl_out U (r_hw s) (ucast a) 0x610 [reg] = (rc1, h1)" by force
  obtain rc2 bs h2 where 2: "ctrl_in U h1 (ucast a) 0x600 (unat (word_of_nat len :: u8)) = (rc2, bs, h2)"
    by (metis surj_pair)
  have "rc1 = 1" using r nn a 1 by (auto simp: r82xx_read_def r_io_def w split: if_splits)
  then have c: "chip h1 = chip (r_hw s)" "chip h2 = chip h1"
    using assms(1) 1 2 unfolding chip_bus_def by (fastforce dest: spec [where x = "[]"])+
  moreover have "r_hw s' = h2 \<and> r_regs s' = r_regs s \<and> r_cfg s' = r_cfg s"
    using r a 1 2 \<open>rc1 = 1\<close>
    by (auto simp: r82xx_read_def r_io_def w rtlsdr_i2c_read_fn_def rtlsdr_read_array_def
        control_in_def Let_def split: if_splits)
  ultimately show ?thesis by simp
qed

lemma coherent_read:
  assumes "chip_bus U a chip" and "len \<le> 30"
  shows "on_success_val (coherent chip a) (r82xx_read U reg len)"
  unfolding on_success_val_def
proof (intro allI impI)
  fix s
  assume coh: "coherent chip a s" and nn: "0 \<le> fst (fst (run_state (r82xx_read U reg len) s))"
  then have inv: "r_inv s" and a: "i2c_addr (r_cfg s) = a" by (auto simp: coherent_def)
  obtain rc d s' where r: "run_state (r82xx_read U reg len) s = ((rc, d), s')" by (metis surj_pair)
  have inv': "r_inv s'" using r_inv_read assms(2) inv r by (meson alwaysD)
  then show "coherent chip a (snd (run_state (r82xx_read U reg len) s))"
    using coh nn r82xx_read_effect [OF assms(1) a r] by (simp add: r coherent_def)
qed

lemma coherent_upd:
  "coherent chip a s \<Longrightarrow> r_hw s' = r_hw s \<Longrightarrow> r_cfg s' = r_cfg s \<Longrightarrow> r_regs s' = r_regs s \<Longrightarrow>
    r_buf s' = r_buf s \<Longrightarrow> r_fault s' = r_fault s \<Longrightarrow> coherent chip a s'"
  by (simp add: coherent_def r_inv_def)

locale r82xx_regs =
  fixes U :: "'h usb_ops" and I :: "'h r82xx \<Rightarrow> bool"
  assumes inv: "I s \<Longrightarrow> r_inv s"
    and write_reg:
      "5 \<le> uint reg \<Longrightarrow> uint reg < 35 \<Longrightarrow> on_success I (r82xx_write_reg U reg val)"
    and write_reg_mask: "on_success I (r82xx_write_reg_mask U reg val m)"
    and read: "len \<le> NUM_REGS \<Longrightarrow> on_success_val I (r82xx_read U reg len)"
    and upd: "I s \<Longrightarrow> r_hw s' = r_hw s \<Longrightarrow> r_cfg s' = r_cfg s \<Longrightarrow> r_regs s' = r_regs s \<Longrightarrow>
      r_buf s' = r_buf s \<Longrightarrow> r_fault s' = r_fault s \<Longrightarrow> I s'"
begin

lemma modify_rest:
  "(\<And>s. r_hw (f s) = r_hw s \<and> r_cfg (f s) = r_cfg s \<and> r_regs (f s) = r_regs s \<and>
      r_buf (f s) = r_buf s \<and> r_fault (f s) = r_fault s) \<Longrightarrow> always I (modify f)"
  by (rule always_modify) (blast intro: upd)

lemmas steps = success_rules always_gets write_reg write_reg_mask read modify_rest

lemma set_mux: "on_success I (r82xx_set_mux U freq)"
  unfolding r82xx_set_mux_def by (intro steps) simp_all

lemma set_pll: "on_success I (r82xx_set_pll U freq)"
  unfolding r82xx_set_pll_def pll_lock_def Let_def
  by (rule on_success_gets_bind, intro steps) (simp_all add: pll_ref_ok inv)

lemma sysfreq_sel: "on_success I (r82xx_sysfreq_sel U freq type delsys)"
  unfolding r82xx_sysfreq_sel_def by (intro steps) simp_all

lemma set_gain: "on_success I (r82xx_set_gain U manual gain)"
  unfolding r82xx_set_gain_def by (intro steps) simp_all

lemma set_bandwidth: "on_success I (r82xx_set_bandwidth U bw)"
  unfolding r82xx_set_bandwidth_def using bandwidth_vals_Some [of bw]
  by (elim exE) (simp, intro steps, simp_all)

lemma set_freq: "on_success I (r82xx_set_freq U freq)"
  unfolding r82xx_set_freq_def by (intro steps set_mux set_pll) simp_all

lemma standby: "on_success I (r82xx_standby U)"
  unfolding r82xx_standby_def by (intro steps) simp_all

lemma toggle_test: "on_success I (r82xx_toggle_test U t)"
  unfolding r82xx_toggle_test_def by (rule write_reg_mask)

lemma tv_calibrate: "on_success I k \<Longrightarrow> on_success I (tv_calibrate U n k)"
  by (induction n) (simp_all, intro steps set_pll, simp_all)

lemma modify_id_then:
  "on_success I K \<Longrightarrow> f s = s \<Longrightarrow> I s \<Longrightarrow>
    run_state (State_Monad.bind (modify f) (\<lambda>_. K)) s = (rc, s') \<Longrightarrow> 0 \<le> rc \<Longrightarrow> I s'"
  by (auto dest: on_successD)

lemma tv_standard:
  assumes "I s" and "r_regs s = r82xx_init_array"
    and run: "run_state (r82xx_set_tv_standard U bw type delsys) s = (rc, s')" and "0 \<le> rc"
  shows "I s'"
proof (rule modify_id_then [OF _ _ \<open>I s\<close> run [unfolded r82xx_set_tv_standard_def] \<open>0 \<le> rc\<close>])
  show "s\<lparr>r_regs := r82xx_init_array\<rparr> = s" using assms(2) by (metis r82xx.surjective r82xx.update_convs(3))
qed (intro steps tv_calibrate; simp)

end

lemma coherent_regs: "chip_bus U a chip \<Longrightarrow> r82xx_regs U (coherent chip a)"
  by unfold_locales
    (blast intro: coherent_write_reg coherent_write_reg_mask coherent_read coherent_upd
      dest: coherent_def [THEN iffD1])+

interpretation r_safe: r82xx_regs U r_inv for U :: "'h usb_ops"
  by unfold_locales
    (auto intro!: on_success_always on_success_val_always always_rules simp: r_inv_def [where 'h = 'h])

lemma send_chunk_ok:
  assumes "usb_ok U" and l: "length (snd ch) < 255"
  shows "fst (run_state (send_chunk U ch) s) = 0"
proof -
  obtain rest where buf: "store_at 0 (fst ch # snd ch) (r_buf s) = fst ch # snd ch @ rest"
    by (simp add: store_at_def)
  obtain r h where io: "ctrl_out U (r_hw s) (ucast (i2c_addr (r_cfg s))) 0x610 (fst ch # snd ch) = (r, h)"
    by force
  then have "r = int (length (snd ch)) + 1"
    using assms(1) unfolding usb_ok_def by (metis fst_conv length_Cons of_nat_Suc add.commute)
  then show ?thesis
    using io by (simp add: send_chunk_def r_io_def Let_def i2c_write_run [OF l buf])
qed

lemma seq_chk_ok:
  "(\<And>m s. m \<in> set ms \<Longrightarrow> fst (run_state m s) = 0) \<Longrightarrow> fst (run_state (seq_chk ms) s) = 0"
proof (induction ms arbitrary: s)
  case Nil
  then show ?case by (simp add: seq_chk.simps)
next
  case (Cons m ms)
  obtain r s' where r: "run_state m s = (r, s')" by force
  have "r = 0" using Cons.prems [of m s] r by simp
  then show ?case using Cons r by (simp add: seq_chk.simps)
qed

lemma r82xx_write_ok:
  assumes "usb_ok U" and "r_inv s"
  shows "fst (run_state (r82xx_write U reg val) s) = 0"
proof -
  obtain cs where cs: "chunks 7 reg val = Some cs" using chunks_Some [of 7] by auto
  have m: "max_i2c_msg_len (r_cfg s') = 8" if "run_state (store_shadow reg val) s = (x, s')" for x s'
    using that assms(2) by (auto simp: store_shadow_def r_inv_def split: option.splits)
  have "fst (run_state (seq_chk (map (send_chunk U) cs)) s') = 0" for s'
    by (rule seq_chk_ok) (auto intro!: send_chunk_ok assms dest: chunks_le [OF cs])
  then show ?thesis
    using cs m by (auto simp: r82xx_write_def split: prod.splits)
qed

lemma init_block_coherent:
  assumes bus: "chip_bus U a chip" and ok: "usb_ok U" and inv: "r_inv s" and a: "i2c_addr (r_cfg s) = a"
    and run: "run_state (r82xx_write U 0x05 r82xx_init_array) s = (rc, s')"
  shows "coherent chip a s' \<and> r_regs s' = r82xx_init_array"
proof -
  have len: "length r82xx_init_array = 30" and "length (r_regs s) = 30" and "rc = 0"
    using inv r82xx_write_ok [OF ok inv, of 5 r82xx_init_array] run
    by (simp_all add: r82xx_init_array_def r_inv_def)
  then show ?thesis
    using r82xx_write_effect [OF bus _ _ inv a run] a write_shadow_agree [of 5 r82xx_init_array "r_regs s"]
    by (auto simp: coherent_def store_at_def)
qed

lemma init_tail_coherent:
  "chip_bus U a chip \<Longrightarrow> on_success (coherent chip a) (do {
     rc \<leftarrow> r82xx_sysfreq_sel U 0 TUNER_DIGITAL_TV SYS_DVBT;
     _ \<leftarrow> modify (\<lambda>s. s\<lparr>r_init_done := True\<rparr>);
     ret rc })"
  by (intro success_rules r82xx_regs.sysfreq_sel [OF coherent_regs]
      r82xx_regs.modify_rest [OF coherent_regs]) simp_all

lemma r82xx_init_coherent:
  assumes bus: "chip_bus U a chip" and ok: "usb_ok U" and inv: "r_inv s" and a: "i2c_addr (r_cfg s) = a"
    and run: "run_state (r82xx_init U) s = (rc, s')" and nn: "0 \<le> rc"
  shows "coherent chip a s'"
proof -
  let ?s0 = "s\<lparr>r_xtal_cap_sel := XTAL_HIGH_CAP_0P\<rparr>"
  let ?tv = "r82xx_set_tv_standard U 3 TUNER_DIGITAL_TV SYS_UNDEFINED"
  have inv0: "r_inv ?s0" and a0: "i2c_addr (r_cfg ?s0) = a" using inv a by (auto simp: r_inv_def)
  obtain r1 s1 where 1: "run_state (r82xx_write U 5 r82xx_init_array) ?s0 = (r1, s1)" by force
  obtain r2 s2 where 2: "run_state ?tv s1 = (r2, s2)" by force
  let ?K = "do { rc \<leftarrow> r82xx_sysfreq_sel U 0 TUNER_DIGITAL_TV SYS_DVBT;
     _ \<leftarrow> modify (\<lambda>s. s\<lparr>r_init_done := True\<rparr>); ret rc }"
  have K: "on_success (coherent chip a) ?K" by (rule init_tail_coherent [OF bus])
  have runK: "run_state (r82xx_init U) s = (if r2 < 0 then (r2, s2) else run_state ?K s2)"
    by (simp add: r82xx_init_def chk_def 1 2)
  have "coherent chip a s2" if "0 \<le> r2"
    using r82xx_regs.tv_standard [OF coherent_regs [OF bus] _ _ 2 that]
      init_block_coherent [OF bus ok inv0 a0 1] by simp
  moreover have "0 \<le> r2 \<and> run_state ?K s2 = (rc, s')"
    using runK run nn by (metis fst_conv not_less)
  ultimately show ?thesis using on_successD [OF K] nn by blast
qed

section \<open>What the chip's registers hold\<close>

text \<open>
  \<open>holds chip a K\<close>: the shadow agrees with the chip, and the register fields listed in \<open>K\<close>
  (register, mask, value) have the values listed.
\<close>

lemma mask_write_effect:
  assumes "chip_bus U a chip" and "coherent chip a s"
    and "5 \<le> uint reg" and "uint reg < 35"
    and "run_state (r82xx_write_reg_mask U reg val m) s = (rc, s')" and "0 \<le> rc"
  shows "chip (r_hw s') = (chip (r_hw s))(reg := (chip (r_hw s) reg AND NOT m) OR (val AND m))"
proof -
  have inv: "r_inv s" and a: "i2c_addr (r_cfg s) = a"
    and regs: "\<forall>i<30. chip (r_hw s) (word_of_nat (i + 5)) = r_regs s ! i"
    using assms(2) by (auto simp: coherent_def)
  let ?i = "nat (uint reg - 5)"
  have "?i < 30" using assms(3,4) by simp
  moreover have "(word_of_nat (?i + 5) :: u8) = reg"
  proof -
    have "?i + 5 = unat reg" using assms(3) by (simp flip: nat_uint_eq) 
    then show ?thesis by simp
  qed
  ultimately have cache: "r82xx_read_cache_reg (r_regs s) reg = uint (chip (r_hw s) reg)"
    using regs assms(3,4) by (auto simp: r82xx_read_cache_reg_def)
  then have "run_state (r82xx_write U reg [(chip (r_hw s) reg AND NOT m) OR (val AND m)]) s = (rc, s')"
    using assms(5) by (simp add: r82xx_write_reg_mask_def)
  from r82xx_write_effect [OF assms(1,3) _ inv a this assms(6)] show ?thesis
    using assms(4) by simp
qed

type_synonym reg_fact = "u8 \<times> u8 \<times> u8"

definition holds :: "('h \<Rightarrow> u8 \<Rightarrow> u8) \<Rightarrow> u8 \<Rightarrow> reg_fact list \<Rightarrow> 'h r82xx \<Rightarrow> bool" where
  "holds chip a K s \<longleftrightarrow> coherent chip a s \<and> (\<forall>(r, m, v) \<in> set K. chip (r_hw s) r AND m = v)"

definition untouched :: "u8 \<Rightarrow> u8 \<Rightarrow> reg_fact list \<Rightarrow> bool" where
  "untouched reg m K \<longleftrightarrow> (\<forall>(r, m', v) \<in> set K. r = reg \<longrightarrow> m AND m' = 0)"

lemma untouched_simps [simp]:
  "untouched reg m []"
  "untouched reg m ((r, m', v) # K) \<longleftrightarrow> (r = reg \<longrightarrow> m AND m' = 0) \<and> untouched reg m K"
  by (auto simp: untouched_def)

lemma masked_keep: "m AND m' = 0 \<Longrightarrow> ((x AND NOT m) OR (v AND m)) AND m' = x AND (m' :: u8)"
proof (rule bit_word_eqI)
  fix n
  assume z: "m AND m' = 0" and "n < LENGTH(8)"
  have "bit (m AND m') n = False" unfolding z by simp
  with \<open>n < LENGTH(8)\<close> show "bit (((x AND NOT m) OR (v AND m)) AND m') n = bit (x AND m') n"
    by (auto simp: bit_simps)
qed

lemma masked_set: "((x AND NOT m) OR (v AND m)) AND m = v AND (m :: u8)"
  by (rule bit_word_eqI) (auto simp: bit_simps)

lemma holds_mask_upd:
  assumes "holds chip a K s" and "coherent chip a s'" and "untouched reg m K"
    and "chip (r_hw s') = (chip (r_hw s))(reg := (chip (r_hw s) reg AND NOT m) OR (v AND m))"
  shows "holds chip a ((reg, m, v AND m) # K) s'"
  using assms by (fastforce simp: holds_def untouched_def masked_keep masked_set)

lemma holds_write_reg:
  assumes "chip_bus U a chip" and "5 \<le> uint reg" and "uint reg < 35" and "untouched reg (- 1) K"
  shows "hoare (holds chip a K) (r82xx_write_reg U reg val) (holds chip a ((reg, - 1, val) # K))"
  unfolding hoare_def
proof (intro allI impI)
  fix s assume h: "holds chip a K s" and nn: "0 \<le> fst (run_state (r82xx_write_reg U reg val) s)"
  obtain rc s' where r: "run_state (r82xx_write_reg U reg val) s = (rc, s')" by force
  have inv: "r_inv s" and a: "i2c_addr (r_cfg s) = a" using h by (auto simp: holds_def coherent_def)
  have "coherent chip a s'"
    using on_successD [OF coherent_write_reg [OF assms(1-3)] _ r] h nn r by (simp add: holds_def)
  moreover have "chip (r_hw s') = (chip (r_hw s))(reg := val)"
    using r82xx_write_effect [OF assms(1,2) _ inv a, of "[val]" rc s'] r nn assms(3)
    by (simp add: r82xx_write_reg_def)
  ultimately show "holds chip a ((reg, - 1, val) # K) (snd (run_state (r82xx_write_reg U reg val) s))"
    using holds_mask_upd [OF h _ assms(4), of s' val] by (simp add: r)
qed

lemma holds_write_mask:
  assumes "chip_bus U a chip" and "5 \<le> uint reg" and "uint reg < 35" and "untouched reg m K"
  shows "hoare (holds chip a K) (r82xx_write_reg_mask U reg val m)
    (holds chip a ((reg, m, val AND m) # K))"
  unfolding hoare_def
proof (intro allI impI)
  fix s assume h: "holds chip a K s" and nn: "0 \<le> fst (run_state (r82xx_write_reg_mask U reg val m) s)"
  obtain rc s' where r: "run_state (r82xx_write_reg_mask U reg val m) s = (rc, s')" by force
  have "coherent chip a s'"
    using on_successD [OF coherent_write_reg_mask [OF assms(1)] _ r] h nn r by (simp add: holds_def)
  then show "holds chip a ((reg, m, val AND m) # K) (snd (run_state (r82xx_write_reg_mask U reg val m) s))"
    using mask_write_effect [OF assms(1) _ assms(2,3) r] h nn r holds_mask_upd [OF h _ assms(4)]
    by (metis fst_conv holds_def snd_conv)
qed

lemma holds_write_reg_mask:
  "chip_bus U a chip \<Longrightarrow> 5 \<le> uint reg \<Longrightarrow> uint reg < 35 \<Longrightarrow> untouched reg m K \<Longrightarrow>
    on_success (holds chip a K) (r82xx_write_reg_mask U reg val m)"
  using holds_write_mask [of U a chip reg m K val] by (auto simp: hoare_def on_success_def holds_def)

lemma holds_read:
  assumes "chip_bus U a chip" and "len \<le> 30"
  shows "on_success_val (holds chip a K) (r82xx_read U reg len)"
  unfolding on_success_val_def
proof (intro allI impI)
  fix s assume h: "holds chip a K s" and nn: "0 \<le> fst (fst (run_state (r82xx_read U reg len) s))"
  obtain rc d s' where r: "run_state (r82xx_read U reg len) s = ((rc, d), s')" by (metis surj_pair)
  have a: "i2c_addr (r_cfg s) = a" and c: "coherent chip a s" using h by (auto simp: holds_def coherent_def)
  show "holds chip a K (snd (run_state (r82xx_read U reg len) s))"
    using coherent_read [OF assms, of reg] c h nn r r82xx_read_effect [OF assms(1) a r]
    by (auto simp: holds_def on_success_val_def)
qed

lemma holds_modify:
  "(\<And>s. r_hw (f s) = r_hw s \<and> r_cfg (f s) = r_cfg s \<and> r_regs (f s) = r_regs s \<and>
      r_buf (f s) = r_buf s \<and> r_fault (f s) = r_fault s) \<Longrightarrow> always (holds chip a K) (modify f)"
  by (rule always_modify) (auto simp: holds_def intro: coherent_upd)

section \<open>The driver's entry points\<close>

datatype r82xx_call =
  SetFreq nat | SetGain bool int | SetBandwidth int | Standby | ToggleTest bool | Init | XtalCheck

primrec r82xx_do :: "'h usb_ops \<Rightarrow> r82xx_call \<Rightarrow> ('h r82xx, int) prog" where
  "r82xx_do U (SetFreq f) = r82xx_set_freq U f"
| "r82xx_do U (SetGain m g) = r82xx_set_gain U m g"
| "r82xx_do U (SetBandwidth bw) = r82xx_set_bandwidth U bw"
| "r82xx_do U Standby = r82xx_standby U"
| "r82xx_do U (ToggleTest t) = r82xx_toggle_test U t"
| "r82xx_do U Init = r82xx_init U"
| "r82xx_do U XtalCheck = r82xx_xtal_check U"

primrec r82xx_run :: "'h usb_ops \<Rightarrow> r82xx_call list \<Rightarrow> 'h r82xx \<Rightarrow> 'h r82xx" where
  "r82xx_run U [] s = s"
| "r82xx_run U (c # cs) s = r82xx_run U cs (snd (run_state (r82xx_do U c) s))"

lemma r_inv_do: "always r_inv (r82xx_do U c)"
  by (cases c) (auto intro: always_rules)

lemma r_inv_run: "r_inv s \<Longrightarrow> r_inv (r82xx_run U cs s)"
  using r_inv_do by (induction cs arbitrary: s) (auto simp: always_def)

definition keeps_shadow :: "r82xx_call \<Rightarrow> bool" where
  "keeps_shadow c \<longleftrightarrow> c \<noteq> Init \<and> c \<noteq> XtalCheck"

lemma coherent_do: "chip_bus U a chip \<Longrightarrow> keeps_shadow c \<Longrightarrow> on_success (coherent chip a) (r82xx_do U c)"
  using coherent_regs r82xx_regs.set_freq r82xx_regs.set_gain r82xx_regs.set_bandwidth
    r82xx_regs.standby r82xx_regs.toggle_test
  by (cases c) (fastforce simp: keeps_shadow_def)+

section \<open>A device for the witnesses\<close>

definition sim_usb :: "u8 \<Rightarrow> (u8 \<Rightarrow> u8) usb_ops" where
  "sim_usb v = \<lparr>ctrl_out = (\<lambda>h a i d. (int (length d),
       if i = 0x610 then (case d of [] \<Rightarrow> h | r # bs \<Rightarrow> write_block r bs h) else h)),
     ctrl_in = (\<lambda>h a i n. (int n, replicate n v, h)),
     indet = (\<lambda>h n. 0)\<rparr>"

definition sim_r82xx :: "(u8 \<Rightarrow> u8) r82xx" where
  "sim_r82xx = \<lparr>r_hw = (\<lambda>_. 0),
     r_cfg = \<lparr>i2c_addr = 0x34, xtal = 28800000, rafael_chip = CHIP_R820T, max_i2c_msg_len = 8,
              use_predetect = False\<rparr>,
     r_regs = replicate NUM_REGS 0, r_buf = replicate (NUM_REGS + 1) 0,
     r_xtal_cap_sel = XTAL_LOW_CAP_30P, r_int_freq = 0, r_fil_cal_code = 0, r_input = 0,
     r_has_lock = False, r_init_done = False, r_delsys = SYS_UNDEFINED, r_type = 0, r_bw = 0,
     r_manufact = [], r_product = [], r_fault = False\<rparr>"

lemma sim_bus: "chip_bus (sim_usb v) a (\<lambda>h. h)"
  by (simp add: chip_bus_def sim_usb_def)

lemma sim_ok: "usb_ok (sim_usb v)"
  by (simp add: usb_ok_def sim_usb_def)

lemma sim_inv: "r_inv sim_r82xx"
  by (simp add: r_inv_def sim_r82xx_def)

lemma sim_coherent: "coherent (\<lambda>h. h) 0x34 sim_r82xx"
  by (simp add: coherent_def sim_inv) (simp add: sim_r82xx_def)

end
