(* ===== verification/R82xx_Pll.thy ===== *)
theory R82xx_Pll
  imports R82xx_Regs
begin

unbundle bit_operations_syntax

text \<open>
  The arithmetic of the R820T/R828D driver: the PLL divider search and sigma-delta
  approximation (\<open>r82xx_set_pll\<close>), the gain steps (\<open>r82xx_set_gain\<close>), the band table lookup
  (\<open>r82xx_set_mux\<close>), the filter selection (\<open>r82xx_set_bandwidth\<close>) and the bit reversal of the
  I2C read path (\<open>r82xx_bitrev\<close>).
\<close>

lemma div_num_of_simps:
  "div_num_of 2 = 0" "div_num_of 4 = 1" "div_num_of 8 = 2" "div_num_of 16 = 3" "div_num_of 32 = 4" "div_num_of 64 = 5"
  by (simp_all add: div_num_of.simps)

lemma calc_divider_step:
  assumes "0 < m" and "m \<le> 64" and "f \<le> 4294967"
  shows "calc_divider f m =
    (if vco_min \<le> f * m \<and> f * m < vco_max then (m, div_num_of m) else calc_divider f (m * 2))"
proof -
  have "f * m \<le> 4294967 * 64" using assms by (intro mult_mono) auto
  then show ?thesis using assms by (subst calc_divider.simps) simp
qed

lemma calc_divider_found:
  assumes "27657 \<le> f" and "f < 1770000"
  shows "\<exists>m d. calc_divider f 2 = (m, d) \<and> (m, d) \<in> {(2, 0), (4, 1), (8, 2), (16, 3), (32, 4), (64, 5)} \<and>
    vco_min \<le> f * m \<and> f * m < vco_max"
proof -
  consider "885000 \<le> f" | "442500 \<le> f" "f < 885000" | "221250 \<le> f" "f < 442500"
    | "110625 \<le> f" "f < 221250" | "55313 \<le> f" "f < 110625" | "f < 55313" by linarith
  then show ?thesis
    using assms by cases (simp_all add: calc_divider_step div_num_of_simps)
qed

lemma calc_divider_none:
  assumes "f < 27657 \<or> 1770000 \<le> f" and "f \<le> 4294967"
  shows "calc_divider f 2 = (128, 0)"
proof -
  have "calc_divider f 128 = (128, 0)" by (simp add: calc_divider.simps [of f 128])
  then show ?thesis
    using assms by (elim disjE) (simp_all add: calc_divider_step)
qed

lemma sdm_step:
  fixes R :: nat
  assumes "k \<le> 16"
  shows "65536 * (R div 2 ^ k) \<le> R * 2 ^ (16 - k)" and "R * 2 ^ (16 - k) < 65536 * (R div 2 ^ k + 1)"
proof -
  have p: "(2::nat) ^ k * 2 ^ (16 - k) = 65536" using assms by (simp flip: power_add)
  let ?q = "R div 2 ^ k" and ?r = "R mod 2 ^ k"
  have "R = ?q * 2 ^ k + ?r" by (rule div_mult_mod_eq [symmetric])
  then have "R * 2 ^ (16 - k) = (?q * 2 ^ k + ?r) * 2 ^ (16 - k)" by metis
  also have "\<dots> = ?q * (2 ^ k * 2 ^ (16 - k)) + ?r * 2 ^ (16 - k)" by (simp only: distrib_right mult.assoc)
  finally have e: "R * 2 ^ (16 - k) = ?q * 65536 + ?r * 2 ^ (16 - k)" using p by simp
  have "?r * 2 ^ (16 - k) < 2 ^ k * 2 ^ (16 - k)" by (intro mult_strict_right_mono) simp_all
  then have "?r * 2 ^ (16 - k) < 65536" using p by simp
  with e show "65536 * ?q \<le> R * 2 ^ (16 - k)" "R * 2 ^ (16 - k) < 65536 * (?q + 1)" by simp_all
qed


lemma sdm_bound_step: "R div 2 ^ k \<le> 2 * (R div 2 ^ Suc k) + 1" for R :: nat
proof -
  have "R div 2 ^ Suc k = R div 2 ^ k div 2" by (simp only: power_Suc2 div_mult2_eq)
  then show ?thesis by simp
qed

lemma sdm_loop_step:
  assumes "1 \<le> k" and "k \<le> 15" and ref: "ref < 32768" and gt: "1 < fra"
    and room: "sdm + 2 ^ (17 - k) \<le> 65536"
  shows "sdm_loop (Suc fuel) ref (2 ^ k) fra sdm =
    (if fra > 2 * ref div 2 ^ k
     then if k = 15 then Some (sdm + 2 ^ (16 - k))
          else sdm_loop fuel ref (2 ^ Suc k) (fra - 2 * ref div 2 ^ k) (sdm + 2 ^ (16 - k))
     else sdm_loop fuel ref (2 ^ k * 2 mod 2 ^ 16) fra sdm)"
proof -
  have q: "2 * ref mod 2 ^ 32 div 2 ^ k = 2 * ref div 2 ^ k" using ref by simp
  have b: "32768 div (2 ^ k div 2) = (2::nat) ^ (16 - k)"
  proof -
    have "(2::nat) ^ k div 2 = 2 ^ (k - 1)" using assms(1) by (cases k) auto
    moreover have "(32768::nat) = 2 ^ (k - 1) * 2 ^ (16 - k)" using assms(1,2) by (simp flip: power_add)
    ultimately show ?thesis by (metis nonzero_mult_div_cancel_left power_not_zero zero_neq_numeral)
  qed
  have "(2::nat) ^ (17 - k) = 2 * 2 ^ (16 - k)" using assms(2) by (simp add: Suc_diff_le numeral_eq_Suc)
  moreover have "0 < (2::nat) ^ (16 - k)" by simp
  ultimately have "sdm + 2 ^ (16 - k) < 65536" using room by linarith
  then have s: "(sdm + 2 ^ (16 - k)) mod 2 ^ 16 = sdm + 2 ^ (16 - k)" by simp
  have n: "(2::nat) ^ k \<ge> 0x8000 \<longleftrightarrow> k = 15"
    using power_increasing_iff [of "2::nat" 15 k] assms(2) by simp
  show ?thesis
    using gt pow2_double_16 [of k] assms(2)
    by (simp only: sdm_loop.simps Let_def q b s n) (simp del: sdm_loop.simps)
qed

lemma sdm_loop_accuracy:
  assumes R: "R = 2 * ref" and ref: "ref < 32768"
  shows "1 \<le> k \<Longrightarrow> k \<le> 15 \<Longrightarrow> 16 - k \<le> fuel \<Longrightarrow> fra \<le> R div 2 ^ (k - 1) + (k - 1) \<Longrightarrow>
    sdm + 2 ^ (17 - k) \<le> 65536 \<Longrightarrow>
    \<exists>d. sdm_loop fuel ref (2 ^ k) fra sdm = Some (sdm + d) \<and> d < 2 ^ (17 - k) \<and>
      R * d \<le> 65536 * (fra + (16 - k)) \<and> 65536 * fra \<le> R * d + 65536 * 16"
proof (induction fuel arbitrary: k fra sdm)
  case 0
  then show ?case by simp
next
  case (Suc fuel)
  let ?q = "R div 2 ^ k" and ?b = "2 ^ (16 - k) :: nat"
  have b2: "(2::nat) ^ (17 - k) = 2 * ?b" using Suc.prems(2) by (simp add: Suc_diff_le numeral_eq_Suc)
  note st = sdm_step [of k R] and run = sdm_loop_step [OF Suc.prems(1,2) ref _ Suc.prems(5), of fra fuel]
  have half: "R div 2 ^ (k - 1) \<le> 2 * ?q + 1" using sdm_bound_step [of R "k - 1"] Suc.prems(1) by simp
  have fuel: "15 - k \<le> fuel" using Suc.prems(3) by simp
  consider "fra \<le> 1" | "k = 15" "1 < fra" | "k < 15" "1 < fra" "fra > ?q" | "k < 15" "1 < fra" "fra \<le> ?q"
    using Suc.prems by linarith
  then show ?case
  proof cases
    case 1
    then show ?thesis by (auto intro!: exI [of _ 0])
  next
    case 2
    have "?q \<le> 1" using 2 R ref by (simp add: less_Suc_eq_le [symmetric] less_mult_imp_div_less)
    then show ?thesis
      using run st 2 R Suc.prems(4) half by (intro exI [of _ ?b]) simp
  next
    case 3
    have "fra - ?q \<le> ?q + k" using Suc.prems(1,4) half by simp
    then obtain e where e: "sdm_loop fuel ref (2 ^ Suc k) (fra - ?q) (sdm + ?b) = Some (sdm + ?b + e)"
      "e < ?b" "R * e \<le> 65536 * (fra - ?q + (16 - Suc k))" "65536 * (fra - ?q) \<le> R * e + 65536 * 16"
      using Suc.IH [of "Suc k" "fra - ?q" "sdm + ?b"] Suc.prems 3 b2 fuel by auto
    moreover have "R * (?b + e) \<le> 65536 * (fra + (16 - k))" "65536 * fra \<le> R * (?b + e) + 65536 * 16"
      using st e(3,4) 3 by (simp_all add: distrib_left)
    ultimately show ?thesis
      using run 3 R b2 by (intro exI [of _ "?b + e"]) (auto simp: add.assoc)
  next
    case 4
    then obtain e where "sdm_loop fuel ref (2 ^ Suc k) fra sdm = Some (sdm + e)"
      "e < ?b" "R * e \<le> 65536 * (fra + (16 - Suc k))" "65536 * fra \<le> R * e + 65536 * 16"
      using Suc.IH [of "Suc k" fra sdm] Suc.prems b2 fuel by auto
    then show ?thesis
      using run 4 R b2 pow2_double_16 [of k] by (intro exI [of _ e]) auto
  qed
qed

lemma pll_int_exact:
  assumes "0 < ref" and "2 * ref < 2 ^ 32" and "freq * m < 2 ^ 32" and "freq * m div (2 * ref) < 256"
  defines "v \<equiv> r82xx_pll_int freq ref m"
  shows "pv_nint v = freq * m div (2 * ref)"
    and "pv_vco_fra v = (freq * m) mod (2 * ref) div 1000"
proof -
  let ?n = "freq * m div (2 * ref)"
  have r: "2 * ref mod 2 ^ 32 = 2 * ref" and f: "freq * m mod 2 ^ 64 = freq * m"
    using assms by simp_all
  have le: "2 * ref * ?n \<le> freq * m" by simp
  then have m32: "2 * ref * ?n mod 2 ^ 32 = 2 * ref * ?n"
    using assms(3) by (intro mod_less) linarith
  have sub: "(freq * m + 2 ^ 64 - 2 * ref * ?n) mod 2 ^ 64 = freq * m mod (2 * ref)"
  proof -
    have "freq * m = 2 * ref * ?n + freq * m mod (2 * ref)" by simp
    then have "freq * m + 2 ^ 64 - 2 * ref * ?n = freq * m mod (2 * ref) + 2 ^ 64" using le by linarith
    moreover have "freq * m mod (2 * ref) < 2 * ref" using assms(1) by simp
    then have "freq * m mod (2 * ref) < 2 ^ 64"
      by (rule order.strict_trans) (use assms(2) in simp)
    ultimately show ?thesis by simp
  qed
  show "pv_nint v = ?n" unfolding v_def r82xx_pll_int_def Let_def pll_vals.simps r f
    using assms(4) by simp
  have "freq * m mod (2 * ref) div 1000 < 2 ^ 32"
    using mod_less_divisor [of "2 * ref" "freq * m"] assms(1,2) by linarith
  then show "pv_vco_fra v = freq * m mod (2 * ref) div 1000"
    unfolding v_def r82xx_pll_int_def Let_def pll_vals.simps r f
    using assms(4) m32 sub by simp
qed

lemma pll_int_fields:
  "pv_ni (r82xx_pll_int freq ref m) = word_of_int ((int (pv_nint (r82xx_pll_int freq ref m)) - 13) sdiv 4)"
  "pv_si (r82xx_pll_int freq ref m) = word_of_int (int (pv_nint (r82xx_pll_int freq ref m)) -
     4 * uint (pv_ni (r82xx_pll_int freq ref m)) - 13)"
  by (simp_all only: r82xx_pll_int_def Let_def pll_vals.simps)

lemma nint_registers:
  assumes "13 \<le> pv_nint (r82xx_pll_int freq ref m)" and "pv_nint (r82xx_pll_int freq ref m) \<le> 127"
  defines "v \<equiv> r82xx_pll_int freq ref m"
  shows "pv_nint v = 13 + 4 * unat (pv_ni v) + unat (pv_si v) \<and> unat (pv_si v) < 4 \<and> unat (pv_ni v) < 64"
proof -
  define n where "n = pv_nint v"
  have n: "13 \<le> n" "n \<le> 127" using assms by (auto simp: n_def)
  have "(int n - 13) sdiv 4 = int ((n - 13) div 4)"
    using n by (simp add: signed_divide_int_def zdiv_int of_nat_diff sgn_if)
  then have "pv_ni v = of_nat ((n - 13) div 4)" by (simp add: v_def pll_int_fields n_def)
  then have ni: "unat (pv_ni v) = (n - 13) div 4" using n by (simp add: unat_of_nat)
  have "int n - 4 * uint (pv_ni v) - 13 = int ((n - 13) mod 4)"
    using n ni unfolding uint_nat by (simp add: of_nat_diff zdiv_int zmod_int) presburger
  then have "pv_si v = of_nat ((n - 13) mod 4)" unfolding v_def by (subst pll_int_fields) (simp add: v_def n_def)
  then have "unat (pv_si v) = (n - 13) mod 4" by (simp add: unat_of_nat)
  then show ?thesis using ni n unfolding n_def [symmetric] by auto
qed

lemma sdm_error_hz:
  fixes R :: nat
  assumes "R * 1000 = ref2" and "R * s \<le> 65536 * (fra div 1000 + 15)"
    and "65536 * (fra div 1000) \<le> R * s + 65536 * 16"
  shows "ref2 * s \<le> 65536 * (fra + 15000)" and "65536 * fra \<le> ref2 * s + 65536 * 17000"
proof -
  have e: "ref2 * s = 1000 * (R * s)" using assms(1) by auto
  have "1000 * (fra div 1000) \<le> fra" "fra < 1000 * (fra div 1000) + 1000"
    using mult_div_mod_eq [of 1000 fra] mod_less_divisor [of 1000 fra] by linarith+
  note d = this
  show "ref2 * s \<le> 65536 * (fra + 15000)" unfolding e using d(1) assms(2) by simp
  show "65536 * fra \<le> ref2 * s + 65536 * 17000" unfolding e using d(2) assms(3) by simp
qed

lemma vco_range:
  assumes "27656500 \<le> freq" "freq < 1769999500"
  obtains m d where "calc_divider ((freq + 500) mod 2 ^ 32 div 1000) 2 = (m, d)" "m = 2 ^ (d + 1)"
    "freq * m < 3540032000"
proof -
  let ?khz = "(freq + 500) mod 2 ^ 32 div 1000"
  have "27657 \<le> ?khz" "?khz < 1770000" using assms by simp_all
  from calc_divider_found [OF this] obtain m d where
    cd: "calc_divider ?khz 2 = (m, d)" "m = 2 ^ (d + 1)" "m \<le> 64" "?khz * m < vco_max"
    by auto
  have "freq \<le> 1000 * ?khz + 499" using assms by simp
  then have "freq * m \<le> (1000 * ?khz + 499) * m" by simp
  also have "\<dots> = 1000 * (?khz * m) + 499 * m" by (simp only: distrib_right mult.assoc)
  also have "\<dots> < 3540032000" using cd(3,4) by linarith
  finally show ?thesis using that cd(1,2) by blast
qed

lemma r82xx_pll_accuracy:
  assumes ref: "14000000 \<le> ref" "ref < 32768000" "ref mod 1000 = 0"
    and freq: "27656500 \<le> freq" "freq < 1769999500"
  shows "\<exists>m d sdm. calc_divider ((freq + 500) mod 2 ^ 32 div 1000) 2 = (m, d) \<and> m = 2 ^ (d + 1) \<and>
    sdm_loop 16 ((ref + 500) mod 2 ^ 32 div 1000) 2 (pv_vco_fra (r82xx_pll_int freq ref m)) 0 = Some sdm \<and>
    sdm < 65536 \<and>
    \<bar>int (2 * ref) * (65536 * int (pv_nint (r82xx_pll_int freq ref m)) + int sdm) - 65536 * int (freq * m)\<bar>
      \<le> 65536 * 17000"
proof -
  obtain m d where cd: "calc_divider ((freq + 500) mod 2 ^ 32 div 1000) 2 = (m, d)" "m = 2 ^ (d + 1)"
    and vco: "freq * m < 3540032000" using vco_range [OF freq] by blast
  define fra where "fra = freq * m mod (2 * ref)"
  define n where "n = freq * m div (2 * ref)"
  define k where "k = (ref + 500) mod 2 ^ 32 div 1000"
  obtain q where "ref = 1000 * q" using ref(3) by (metis mod_0_imp_dvd dvdE)
  then have k: "k < 32768" "2 * k * 1000 = 2 * ref" using ref unfolding k_def by simp_all
  have "freq * m < 256 * (2 * ref)" using vco ref(1) by linarith
  then have "n < 256" unfolding n_def by (rule less_mult_imp_div_less)
  then have v: "pv_nint (r82xx_pll_int freq ref m) = n"
    "pv_vco_fra (r82xx_pll_int freq ref m) = fra div 1000"
    using pll_int_exact [of ref freq m] ref vco by (simp_all add: fra_def n_def)
  have "fra < 2 * ref" using ref by (simp add: fra_def)
  then have "fra div 1000 \<le> 2 * k div 2 ^ (1 - 1) + (1 - 1)" using k by simp
  from sdm_loop_accuracy [OF refl k(1) _ _ _ this, of 16 0]
  obtain s where s: "sdm_loop 16 k 2 (fra div 1000) 0 = Some s" "s < 65536"
    and e: "2 * k * s \<le> 65536 * (fra div 1000 + 15)" "65536 * (fra div 1000) \<le> 2 * k * s + 65536 * 16"
    by auto
  note hz = sdm_error_hz [OF k(2) e]
  have "freq * m = 2 * ref * n + fra" by (simp add: fra_def n_def)
  then have "int (2 * ref) * (65536 * int n + int s) - 65536 * int (freq * m) = int (2 * ref * s) - 65536 * int fra"
    by (simp add: algebra_simps)
  moreover have "\<bar>int X - 65536 * int fra\<bar> \<le> 65536 * 17000"
    if "X \<le> 65536 * (fra + 15000)" "65536 * fra \<le> X + 65536 * 17000" for X
    using that by simp
  note this [OF hz]
  ultimately show ?thesis
    using cd s v unfolding k_def by (intro exI [of _ m] exI [of _ d] exI [of _ s]) simp
qed

lemma gain_loop_spec:
  assumes "gain_loop n gain t l m = (t', l', m')"
    and "t = (\<Sum>i\<le>l. r82xx_lna_gain_steps ! i) + (\<Sum>i\<le>m. r82xx_mixer_gain_steps ! i)"
    and "l + n = 15" and "m = l"
  shows "t' = (\<Sum>i\<le>l'. r82xx_lna_gain_steps ! i) + (\<Sum>i\<le>m'. r82xx_mixer_gain_steps ! i) \<and>
    l' \<le> 15 \<and> m' \<le> l' \<and> l' \<le> m' + 1 \<and> (t' \<ge> gain \<or> l' = 15 \<and> m' = 15)"
  using assms
proof (induction n arbitrary: t l m)
  case 0
  then show ?case by auto
next
  case (Suc n)
  let ?t1 = "t + r82xx_lna_gain_steps ! (l + 1)"
  show ?case
  proof (cases "gain \<le> t \<or> gain \<le> ?t1")
    case True
    then show ?thesis using Suc.prems by (auto simp: Let_def split: if_splits)
  next
    case False
    then have "gain_loop n gain (?t1 + r82xx_mixer_gain_steps ! (m + 1)) (l + 1) (m + 1) = (t', l', m')"
      using Suc.prems(1) by (auto simp: Let_def)
    then show ?thesis by (rule Suc.IH) (use Suc.prems in auto)
  qed
qed

definition r82xx_gains :: "int list" where
  "r82xx_gains = [0, 9, 14, 27, 37, 77, 87, 125, 144, 157,
     166, 197, 207, 229, 254, 280, 297, 328,
     338, 364, 372, 386, 402, 421, 434, 439,
     445, 480, 496]"

lemma r82xx_gains_exact: "\<forall>g \<in> set r82xx_gains. fst (gain_loop 15 g 0 0 0) = g"
  by code_simp

lemma low_pass_index_spec:
  "low_pass_index bw ts = length (takeWhile (\<lambda>t. bw \<le> t) ts)"
  by (induction ts) auto

lemma find_range_spec:
  assumes "i \<le> 20" and "fr_freq (freq_ranges ! i) \<le> f"
  shows "find_range f i \<le> 20 \<and> fr_freq (freq_ranges ! find_range f i) \<le> f \<and>
    (find_range f i = 20 \<or> f < fr_freq (freq_ranges ! (find_range f i + 1)))"
  using assms
proof (induction f i rule: find_range.induct)
  case (1 f i)
  have len: "length freq_ranges = 21" by (simp add: freq_ranges_def)
  show ?case
  proof (cases "i < length freq_ranges - 1 \<and> \<not> f < fr_freq (freq_ranges ! (i + 1))")
    case True
    then show ?thesis using 1 len by (subst (1 2 3 4) find_range.simps) auto
  next
    case False
    then show ?thesis using 1 len by (subst (1 2 3 4) find_range.simps) auto
  qed
qed

definition bitrev_lut :: "u8 list" where
  "bitrev_lut = [0x0, 0x8, 0x4, 0xc, 0x2, 0xa, 0x6, 0xe, 0x1, 0x9, 0x5, 0xd, 0x3, 0xb, 0x7, 0xf]"

lemma bitrev_lut_all:
  "\<forall>n \<in> set [0..<16]. \<forall>i \<in> set [0..<8]. bit (bitrev_lut ! n) i = (i < 4 \<and> bit (of_nat n :: u8) (3 - i))"
  by code_simp

lemma bitrev_lut_bit:
  assumes "x < (16 :: u8)" and "i < 8"
  shows "bit (bitrev_lut ! unat x) i = (i < 4 \<and> bit x (3 - i))"
proof -
  have "unat x < 16" using assms(1) by (simp add: word_less_nat_alt)
  then show ?thesis using bitrev_lut_all assms(2) by force
qed

lemma r82xx_bitrev_bit: "i < 8 \<Longrightarrow> bit (r82xx_bitrev b) i = bit b (7 - i)"
proof -
  assume i: "i < 8"
  have lo: "b AND 0xf < 16" by (rule le_less_trans [OF word_and_le1]) simp
  have hi: "drop_bit 4 b < 16" 
  proof -
    have "unat b < 2 ^ LENGTH(8)" by (rule unsigned_less)
    then show ?thesis by (simp add: word_less_nat_alt drop_bit_eq_div unat_div_distrib less_mult_imp_div_less)
  qed
  have m: "bit (0xf :: u8) j = (j < 4)" if "j < 8" for j using that
    by (auto simp: less_Suc_eq numeral_eq_Suc)
  have n: "i < 4 \<Longrightarrow> 4 + (3 - i) = 7 - i" "4 \<le> i \<Longrightarrow> 3 - (i - 4) = 7 - i" using i by auto
  show ?thesis
    using i m [of "7 - i"]
    by (cases "i < 4") (auto simp: n not_less r82xx_bitrev_def Let_def bit_simps bitrev_lut_def [symmetric] bitrev_lut_bit [OF lo] bitrev_lut_bit [OF hi])
qed

lemma r82xx_bitrev_involutive: "r82xx_bitrev (r82xx_bitrev b) = b"
  by (rule bit_word_eqI) (simp add: r82xx_bitrev_bit)

lemma bandwidth_spec:
  assumes "bandwidth_vals bw = Some (ra, rb, f)"
  shows "1085000 \<le> f \<and> f \<le> 4570000"
  using assms
  by (auto simp: bandwidth_vals_def r82xx_if_low_pass_bw_table_def Let_def signed_divide_int_def split: if_splits)

lemma bandwidth_narrow:
  assumes "350000 \<le> bw" and "bw \<le> 1700000"
  shows "\<exists>i < 10. bw \<le> r82xx_if_low_pass_bw_table ! i \<and>
    (i = 9 \<or> r82xx_if_low_pass_bw_table ! (i + 1) < bw) \<and>
    bandwidth_vals bw = Some (0x00, 0xe0 OR (15 - of_nat i), 2300000 - r82xx_if_low_pass_bw_table ! i div 2)"
proof -
  define i where "i = low_pass_index bw r82xx_if_low_pass_bw_table - 1"
  consider "bw \<le> 350000" | "350000 < bw" "bw \<le> 450000" | "450000 < bw" "bw \<le> 550000" | "550000 < bw" "bw \<le> 700000"
    | "700000 < bw" "bw \<le> 900000" | "900000 < bw" "bw \<le> 1200000" | "1200000 < bw" "bw \<le> 1450000"
    | "1450000 < bw" "bw \<le> 1550000" | "1550000 < bw" "bw \<le> 1600000" | "1600000 < bw" using assms by linarith
  then show ?thesis
    using assms by cases (rule exI [of _ i], simp add: i_def bandwidth_vals_def r82xx_if_low_pass_bw_table_def Let_def signed_divide_int_def)+
qed

text \<open>finding: 8-bit truncation\<close>
lemma nint_truncated:
  "calc_divider 1850000 2 = (128, 0)"
  "pv_nint (r82xx_pll_int 1850000000 28800000 128) = 15"
  "1850000000 * 128 div (2 * 28800000) = (4111::nat)"
  by (simp_all add: calc_divider_none r82xx_pll_int_def Let_def)

lemma v4_edge: "v4_upconvert True 28800000 = 28800000" "v4_band 28800000 = 1"
  by (simp_all add: v4_upconvert_def v4_band_def)

section \<open>What \<open>r82xx_set_pll\<close> leaves in the chip\<close>

definition chip_nint :: "(u8 \<Rightarrow> u8) \<Rightarrow> nat" where
  "chip_nint f = 13 + 4 * unat (f 0x14 AND 0x3f) + unat (drop_bit 6 (f 0x14))"

definition chip_sdm :: "(u8 \<Rightarrow> u8) \<Rightarrow> nat" where
  "chip_sdm f = 256 * unat (f 0x16) + unat (f 0x15)"

lemma ni_si_word:
  assumes "unat n < 64" and "unat (s :: u8) < 4"
  shows "unat (n + push_bit 6 s AND 0x3f) = unat n" and "unat (drop_bit 6 (n + push_bit 6 s)) = unat s"
proof -
  have p: "unat (push_bit 6 s) = 64 * unat s"
    using assms(2) by (simp add: push_bit_eq_mult unat_mult_lem [THEN iffD1])
  have u: "unat (n + push_bit 6 s) = unat n + 64 * unat s"
    using assms by (subst unat_add_lem [THEN iffD1]) (simp_all add: p)
  have "n + push_bit 6 s AND 0x3f = take_bit 6 (n + push_bit 6 s)"
    by (simp add: take_bit_eq_mask mask_eq_exp_minus_1)
  then show "unat (n + push_bit 6 s AND 0x3f) = unat n"
    using assms by (simp only: unsigned_take_bit_eq u) (simp add: take_bit_eq_mod)
  show "unat (drop_bit 6 (n + push_bit 6 s)) = unat s"
    using assms by (simp only: unsigned_drop_bit_eq u) (simp add: drop_bit_eq_div take_bit_nat_eq_self)
qed

lemma holds_Nil: "holds chip a [] = coherent chip a"
  by (simp add: holds_def fun_eq_iff)

lemma holds_pll_lock:
  assumes "chip_bus U a chip" and "untouched 0x12 0xff K" and "\<And>d. on_success (holds chip a K) (k d)"
  shows "on_success (holds chip a K) (pll_lock U k)"
  unfolding pll_lock_def
  by (intro success_rules holds_read holds_write_reg_mask assms) simp_all

definition pll_regs :: "pll_vals \<Rightarrow> nat \<Rightarrow> reg_fact list" where
  "pll_regs v n = [(0x15, - 1, of_nat (n mod 2 ^ 8)), (0x16, - 1, of_nat (n div 2 ^ 8)),
     (0x14, - 1, pv_ni v + push_bit 6 (pv_si v))]"

lemma set_pll_tail:
  assumes bus: "chip_bus U a chip"
  shows "hoare (holds chip a []) (chk (seq_chk
           [r82xx_write_reg U 0x14 (pv_ni v + push_bit 6 (pv_si v)),
            r82xx_write_reg_mask U 0x12 b 0x08])
         (chk (seq_chk
             [r82xx_write_reg U 0x16 (of_nat (n div 2 ^ 8)),
              r82xx_write_reg U 0x15 (of_nat (n mod 2 ^ 8))])
             (pll_lock U (\<lambda>data.
               if data ! 2 AND 0x40 = 0 then do {
                 _ \<leftarrow> modify (\<lambda>s. s\<lparr>r_has_lock := False\<rparr>);
                 ret 0 }
               else do {
                 _ \<leftarrow> modify (\<lambda>s. s\<lparr>r_has_lock := True\<rparr>);
                 r82xx_write_reg_mask U 0x1a 0x08 0x08 })))) (holds chip a (pll_regs v n))"
proof (rule hoare_chk [OF hoare_seq_chk hoare_chk [OF hoare_seq_chk]])
  show "hoare (holds chip a []) (r82xx_write_reg U 0x14 (pv_ni v + push_bit 6 (pv_si v)))
      (holds chip a [(0x14, - 1, pv_ni v + push_bit 6 (pv_si v))])" (is "hoare _ _ (holds chip a ?K1)")
    by (rule holds_write_reg [OF bus]) simp_all
  show "hoare (holds chip a ?K1) (seq_chk [r82xx_write_reg_mask U 0x12 b 0x08]) (holds chip a ?K1)"
    by (rule hoare_seq_chk1, rule hoareI [OF holds_write_reg_mask [OF bus]]) simp_all
  show "hoare (holds chip a ?K1) (r82xx_write_reg U 0x16 (of_nat (n div 2 ^ 8)))
      (holds chip a ((0x16, - 1, of_nat (n div 2 ^ 8)) # ?K1))"
    by (rule holds_write_reg [OF bus]) simp_all
  show "hoare (holds chip a ((0x16, - 1, of_nat (n div 2 ^ 8)) # ?K1))
      (seq_chk [r82xx_write_reg U 0x15 (of_nat (n mod 2 ^ 8))]) (holds chip a (pll_regs v n))"
    unfolding pll_regs_def by (rule hoare_seq_chk1, rule holds_write_reg [OF bus]) simp_all
  show "hoare (holds chip a (pll_regs v n)) (pll_lock U (\<lambda>data.
               if data ! 2 AND 0x40 = 0 then do {
                 _ \<leftarrow> modify (\<lambda>s. s\<lparr>r_has_lock := False\<rparr>);
                 ret 0 }
               else do {
                 _ \<leftarrow> modify (\<lambda>s. s\<lparr>r_has_lock := True\<rparr>);
                 r82xx_write_reg_mask U 0x1a 0x08 0x08 })) (holds chip a (pll_regs v n))"
    by (intro hoareI [OF holds_pll_lock [OF bus]])
      (auto intro!: success_rules holds_write_reg_mask holds_modify bus simp: pll_regs_def)
qed simp_all

lemma set_pll_writes:
  assumes bus: "chip_bus U a chip" and coh: "coherent chip a s"
    and cd: "calc_divider ((freq + 500) mod 2 ^ 32 div 1000) 2 = (m, d)"
    and sdm: "sdm_loop 16 ((xtal (r_cfg s) + 500) mod 2 ^ 32 div 1000) 2 (pv_vco_fra v) 0 = Some n"
    and v: "v = r82xx_pll_int freq (xtal (r_cfg s)) m"
    and run: "0 \<le> fst (run_state (r82xx_set_pll U freq) s)"
  shows "pv_nint v \<le> 127 \<and> holds chip a (pll_regs v n) (snd (run_state (r82xx_set_pll U freq) s))"
proof -
  let ?Q = "\<lambda>s. pv_nint v \<le> 127 \<and> holds chip a (pll_regs v n) s"
  have guard: "pv_nint v \<le> 127" if "\<not> 128 div (if c then 1 else 2) - 1 < pv_nint v" for c
    using that by (cases c) auto
  have const: "hoare P k Q \<Longrightarrow> b \<Longrightarrow> hoare P k (\<lambda>s. b \<and> Q s)" for b P Q and k :: "('a r82xx, int) prog"
    by (simp add: hoare_def)
  have "hoare (\<lambda>t. holds chip a [] t \<and> xtal (r_cfg t) = xtal (r_cfg s)) (r82xx_set_pll U freq) ?Q"
    unfolding r82xx_set_pll_def Let_def cd prod.case
  proof (rule hoare_gets_bind, elim conjE, simp only: v [symmetric] sdm option.case,
      rule hoare_pre [where P = "holds chip a []"], rule stable_chk, rule_tac [2] hoare_chk_val,
      rule_tac [3] hoare_gets_bind, rule_tac [3] stable_chk, rule_tac [4] hoare_if,
      rule_tac [5] hoare_if)
  qed ((intro success_rules holds_write_reg_mask holds_read bus hoare_raise hoare_fail
      const [OF set_pll_tail [OF bus]] guard; simp)+, simp)
  then show ?thesis using coh run by (auto simp: hoare_def holds_Nil)
qed

lemma pll_regs_decode:
  assumes "holds chip a (pll_regs v n) s" and "n < 65536"
    and "v = r82xx_pll_int freq ref m" and "13 \<le> pv_nint v" "pv_nint v \<le> 127"
  shows "chip_nint (chip (r_hw s)) = pv_nint v" and "chip_sdm (chip (r_hw s)) = n"
proof -
  have r: "chip (r_hw s) 0x15 = of_nat (n mod 256)" "chip (r_hw s) 0x16 = of_nat (n div 256)"
    "chip (r_hw s) 0x14 = pv_ni v + push_bit 6 (pv_si v)"
    using assms(1) by (auto simp: holds_def pll_regs_def)
  have f: "pv_nint v = 13 + 4 * unat (pv_ni v) + unat (pv_si v) \<and> unat (pv_si v) < 4 \<and> unat (pv_ni v) < 64"
    using nint_registers [of freq ref m] assms(3-5) by simp
  then show "chip_nint (chip (r_hw s)) = pv_nint v"
    using ni_si_word [of "pv_ni v" "pv_si v"] r(3) by (simp only: chip_nint_def)
  have "n div 256 < 256" using assms(2) by (simp add: less_mult_imp_div_less)
  then show "chip_sdm (chip (r_hw s)) = n"
    using r(1,2) by (simp add: chip_sdm_def unat_of_nat)
qed

lemma vco_low:
  assumes "27656500 \<le> freq" "freq < 1769999500"
    and "calc_divider ((freq + 500) mod 2 ^ 32 div 1000) 2 = (m, d)"
  shows "1769900000 \<le> freq * m"
proof -
  let ?khz = "(freq + 500) mod 2 ^ 32 div 1000"
  have "27657 \<le> ?khz" "?khz < 1770000" using assms by simp_all
  from calc_divider_found [OF this] have m: "m \<le> 64" "vco_min \<le> ?khz * m"
    using assms(3) by auto
  have "1000 * ?khz \<le> freq + 500" using assms by simp
  then have "1000 * ?khz * m \<le> (freq + 500) * m" by simp
  also have "\<dots> = freq * m + 500 * m" by (simp only: distrib_right)
  finally show ?thesis using m by linarith
qed

lemma set_pll_programs:
  assumes bus: "chip_bus U a chip" and coh: "coherent chip a s"
    and ref: "14000000 \<le> xtal (r_cfg s)" "xtal (r_cfg s) mod 1000 = 0"
    and freq: "27656500 \<le> freq" "freq < 1769999500"
    and run: "0 \<le> fst (run_state (r82xx_set_pll U freq) s)"
  defines "f \<equiv> chip (r_hw (snd (run_state (r82xx_set_pll U freq) s)))"
  shows "\<exists>m d. calc_divider ((freq + 500) mod 2 ^ 32 div 1000) 2 = (m, d) \<and> m = 2 ^ (d + 1) \<and>
    \<bar>int (2 * xtal (r_cfg s)) * (65536 * int (chip_nint f) + int (chip_sdm f)) - 65536 * int (freq * m)\<bar>
      \<le> 65536 * 17000"
proof -
  let ?ref = "xtal (r_cfg s)"
  have "?ref < 32768000" using coh by (simp add: coherent_def r_inv_def)
  from r82xx_pll_accuracy [OF ref(1) this ref(2) freq]
  obtain m d n where cd: "calc_divider ((freq + 500) mod 2 ^ 32 div 1000) 2 = (m, d)" "m = 2 ^ (d + 1)"
    and n: "sdm_loop 16 ((?ref + 500) mod 2 ^ 32 div 1000) 2 (pv_vco_fra (r82xx_pll_int freq ?ref m)) 0 = Some n"
      "n < 65536"
    and acc: "\<bar>int (2 * ?ref) * (65536 * int (pv_nint (r82xx_pll_int freq ?ref m)) + int n) - 65536 * int (freq * m)\<bar>
      \<le> 65536 * 17000"
    by blast
  define v where "v = r82xx_pll_int freq ?ref m"
  from set_pll_writes [OF bus coh cd(1) n(1) refl run]
  have w: "pv_nint v \<le> 127" "holds chip a (pll_regs v n) (snd (run_state (r82xx_set_pll U freq) s))"
    by (simp_all add: v_def)
  obtain m' d' where "calc_divider ((freq + 500) mod 2 ^ 32 div 1000) 2 = (m', d')" "freq * m' < 3540032000"
    using vco_range [OF freq] by blast
  then have vco: "1769900000 \<le> freq * m" "freq * m < 3540032000"
    using vco_low [OF freq cd(1)] cd(1) by simp_all
  have "freq * m < 256 * (2 * ?ref)" using vco ref(1) by linarith
  then have "pv_nint v = freq * m div (2 * ?ref)"
    using pll_int_exact(1) [of ?ref freq m] vco ref \<open>?ref < 32768000\<close> less_mult_imp_div_less
    by (simp add: v_def)
  moreover have "13 * (2 * ?ref) \<le> freq * m" using vco \<open>?ref < 32768000\<close> by linarith
  then have "13 \<le> freq * m div (2 * ?ref)" using ref(1) by (simp add: less_eq_div_iff_mult_less_eq)
  ultimately have "13 \<le> pv_nint v" by simp
  from pll_regs_decode [OF w(2) n(2) v_def this w(1)] show ?thesis
    using cd acc by (intro exI [of _ m] exI [of _ d]) (simp add: f_def v_def)
qed

end
