(* ===== verification/R82xx_Total.thy ===== *)
theory R82xx_Total
  imports R82xx_Pll
begin

unbundle bit_operations_syntax

text \<open>
  On a device that answers every transfer, the entry points of the R820T/R828D driver
  return success: the error paths are taken for transfer errors and for frequencies the PLL
  cannot reach, and for nothing else.
\<close>

definition cfg_is :: "r82xx_config \<Rightarrow> 'h r82xx \<Rightarrow> bool" where
  "cfg_is c s \<longleftrightarrow> r_inv s \<and> r_cfg s = c"

lemma cfg_send_chunk: "always (\<lambda>s. r_cfg s = c) (send_chunk U ch)"
  unfolding send_chunk_def Let_def
  by (intro always_rules always_modify always_r_io) simp_all

lemma cfg_store_shadow: "always (\<lambda>s. r_cfg s = c) (store_shadow reg val)"
  unfolding store_shadow_def by (rule always_modify) (simp split: option.split)

lemma cfg_write: "always (\<lambda>s. r_cfg s = c) (r82xx_write U reg val)"
  unfolding r82xx_write_def r_raise_fault_def
  by (intro always_rules cfg_store_shadow always_modify always_seq_chk) (auto intro!: cfg_send_chunk)

lemma cfg_write_reg_mask: "always (\<lambda>s. r_cfg s = c) (r82xx_write_reg_mask U reg val m)"
  unfolding r82xx_write_reg_mask_def by (intro always_rules cfg_write)

lemma cfg_read: "always (\<lambda>s. r_cfg s = c) (r82xx_read U reg len)"
  unfolding r82xx_read_def by (intro always_rules always_modify always_r_io) simp_all

lemma ok_write:
  assumes "usb_ok U" and "5 \<le> uint reg" and "uint reg + int (length val) \<le> 35"
  shows "succeeds (cfg_is c) (r82xx_write U reg val)"
  using r82xx_write_ok [OF assms(1)] r_inv_write [OF assms(2,3), of U] cfg_write [of c U reg val]
  by (simp add: succeeds_def cfg_is_def always_def)

lemma ok_write_reg: "usb_ok U \<Longrightarrow> 5 \<le> uint reg \<Longrightarrow> uint reg < 35 \<Longrightarrow> succeeds (cfg_is c) (r82xx_write_reg U reg val)"
  unfolding r82xx_write_reg_def by (rule ok_write) auto

lemma ok_write_reg_mask:
  "usb_ok U \<Longrightarrow> 5 \<le> uint reg \<Longrightarrow> uint reg < 35 \<Longrightarrow> succeeds (cfg_is c) (r82xx_write_reg_mask U reg val m)"
  unfolding r82xx_write_reg_mask_def
  by (intro total_rules ok_write) (auto simp: r82xx_read_cache_reg_def split: if_splits)

lemma ok_read:
  assumes "usb_ok U" and "len \<le> 30"
  shows "succeeds_val (cfg_is c) (r82xx_read U reg len)"
  unfolding succeeds_val_def
proof (intro allI impI conjI)
  fix s :: "'a r82xx" assume s: "cfg_is c s"
  obtain rest where buf: "store_at 0 [reg] (r_buf s) = reg # [] @ rest" by (simp add: store_at_def)
  have "run_state (rtlsdr_i2c_write_fn U a (store_at 0 [reg] (r_buf s)) 1) h = ctrl_out U h (ucast a) 0x610 [reg]" for a h
    using i2c_write_run [OF _ buf] by simp
  then have w: "fst (run_state (rtlsdr_i2c_write_fn U a (store_at 0 [reg] (r_buf s)) 1) h) = 1" for a h
    using assms(1) by (simp add: usb_ok_def)
  have r: "fst (fst (run_state (rtlsdr_i2c_read_fn U a b (int len)) h)) = int len" for a b h
    using assms by (simp add: usb_ok_def rtlsdr_i2c_read_fn_def rtlsdr_read_array_def control_in_def Let_def
        unat_of_nat split: prod.splits) (metis fst_conv)
  show "0 \<le> fst (fst (run_state (r82xx_read U reg len) s))"
  proof -
    let ?a = "i2c_addr (r_cfg s)" and ?b = "store_at 0 [reg] (r_buf s)"
    obtain h1 where 1: "run_state (rtlsdr_i2c_write_fn U ?a ?b 1) (r_hw s) = (1, h1)"
      using w [of ?a "r_hw s"] by (metis prod.collapse)
    obtain p h2 where 2: "run_state (rtlsdr_i2c_read_fn U ?a (drop 1 ?b) (int len)) h1 = ((int len, p), h2)"
      using r [of ?a "drop 1 ?b" h1] by (metis prod.collapse)
    show ?thesis using 1 2 by (simp add: r82xx_read_def r_io_def)
  qed
  show "cfg_is c (snd (run_state (r82xx_read U reg len) s))"
    using s r_inv_read [OF assms(2), of U reg] cfg_read [of c U reg len] by (simp add: cfg_is_def always_def)
qed

lemma cfg_modify:
  "(\<And>s. r_hw (f s) = r_hw s \<and> r_cfg (f s) = r_cfg s \<and> length (r_regs (f s)) = length (r_regs s) \<and>
      r_buf (f s) = r_buf s \<and> r_fault (f s) = r_fault s) \<Longrightarrow> always (cfg_is c) (modify f)"
  by (rule always_modify) (auto simp: cfg_is_def r_inv_def)

lemmas ok_rules = ok_write ok_write_reg ok_write_reg_mask ok_read cfg_modify total_rules

definition pll_reaches :: "r82xx_config \<Rightarrow> bool" where
  "pll_reaches c \<longleftrightarrow> (if rafael_chip c = CHIP_R828D then 13828250 < xtal c else 27656500 < xtal c)"

lemma nint_in_range:
  assumes "pll_reaches c" and "xtal c < 32767500" and "freq * m < 3540032000"
  shows "\<not> pv_nint (r82xx_pll_int freq (xtal c) m) > 128 div (if rafael_chip c = CHIP_R828D then 1 else 2) - 1"
proof -
  let ?n = "freq * m div (2 * xtal c)"
  have "freq * m < (if rafael_chip c = CHIP_R828D then 128 else 64) * (2 * xtal c)"
    using assms by (auto simp: pll_reaches_def split: if_splits)
  then have n: "?n < (if rafael_chip c = CHIP_R828D then 128 else 64)" by (rule less_mult_imp_div_less)
  then have "pv_nint (r82xx_pll_int freq (xtal c) m) = ?n"
    using assms by (intro pll_int_exact) (auto simp: pll_reaches_def split: if_splits)
  with n show ?thesis by (auto split: if_splits)
qed

lemma cfg_is_pll_ref:
  assumes "cfg_is c s"
  shows "2 * xtal c mod 4294967296 \<noteq> 0" and "xtal c < 32767500"
    and "sdm_loop 16 ((xtal c + 500) mod 4294967296 div 1000) 2 fra 0 \<noteq> None"
  using assms pll_ref_ok [of s] by (auto simp: cfg_is_def r_inv_def)

lemma ok_set_pll:
  assumes "usb_ok U" and "pll_reaches c" and "27656500 \<le> freq" "freq < 1769999500"
  shows "succeeds (cfg_is c) (r82xx_set_pll U freq)"
proof (rule succeeds_pre)
  fix s :: "'a r82xx" assume s: "cfg_is c s"
  note ref = cfg_is_pll_ref [OF s]
  obtain m d where cd: "calc_divider ((freq + 500) mod 2 ^ 32 div 1000) 2 = (m, d)" and "freq * m < 3540032000"
    using vco_range [OF assms(3,4)] by blast
  then have n: "\<not> pv_nint (r82xx_pll_int freq (xtal c) m) > 128 div (if rafael_chip c = CHIP_R828D then 1 else 2) - 1"
    using ref(2) assms(2) by (intro nint_in_range)
  show "succeeds (cfg_is c) (r82xx_set_pll U freq)"
    unfolding r82xx_set_pll_def pll_lock_def Let_def cd prod.case
    apply (intro ok_rules assms(1))
    apply (simp_all add: ref)
    apply (simp_all add: cfg_is_def ref)
    using n ref
    apply (simp_all del: One_nat_def split: if_splits)
    done
qed

lemma succeeds_chk_lock:
  "succeeds I m \<Longrightarrow> succeeds I k \<Longrightarrow> succeeds I (chk_lock m k)"
  by (auto simp: chk_lock_def succeeds_def split: prod.splits)

lemma ok_set_mux:
  "usb_ok U \<Longrightarrow> succeeds (cfg_is c) (r82xx_set_mux U freq)"
  unfolding r82xx_set_mux_def Let_def by (intro ok_rules) simp_all

lemma ok_sysfreq_sel:
  "usb_ok U \<Longrightarrow> succeeds (cfg_is c) (r82xx_sysfreq_sel U freq type delsys)"
  unfolding r82xx_sysfreq_sel_def Let_def by (intro ok_rules) simp_all

lemma ok_set_gain:
  "usb_ok U \<Longrightarrow> succeeds (cfg_is c) (r82xx_set_gain U manual gain)"
  unfolding r82xx_set_gain_def by (intro ok_rules) simp_all

lemma ok_set_bandwidth:
  "usb_ok U \<Longrightarrow> succeeds (cfg_is c) (r82xx_set_bandwidth U bw)"
  unfolding r82xx_set_bandwidth_def using bandwidth_vals_Some [of bw]
  by (elim exE) (simp, intro ok_rules, simp_all)

lemma ok_standby:
  "usb_ok U \<Longrightarrow> succeeds (cfg_is c) (r82xx_standby U)"
  unfolding r82xx_standby_def by (intro ok_rules) simp_all

lemma ok_tv_calibrate:
  "usb_ok U \<Longrightarrow> pll_reaches c \<Longrightarrow> succeeds (cfg_is c) k \<Longrightarrow> succeeds (cfg_is c) (tv_calibrate U n k)"
  by (induction n) (simp_all, intro ok_rules succeeds_chk_lock ok_set_pll, simp_all)

lemma always_cfg_init:
  "always (cfg_is c) (modify (\<lambda>s. s\<lparr>r_regs := r82xx_init_array\<rparr>))"
  by (rule always_modify) (auto simp: cfg_is_def r_inv_def r82xx_init_array_def)

lemma ok_set_tv_standard:
  "usb_ok U \<Longrightarrow> pll_reaches c \<Longrightarrow> succeeds (cfg_is c) (r82xx_set_tv_standard U bw type delsys)"
  unfolding r82xx_set_tv_standard_def by (intro always_cfg_init ok_rules ok_tv_calibrate) simp_all

lemma ok_init:
  "usb_ok U \<Longrightarrow> pll_reaches c \<Longrightarrow> succeeds (cfg_is c) (r82xx_init U)"
  unfolding r82xx_init_def  
  by (intro ok_rules succeeds_bind_always succeeds_always [OF ok_write] ok_set_tv_standard ok_sysfreq_sel)
    (simp_all add: r82xx_init_array_def)

lemma ok_toggle_test:
  "usb_ok U \<Longrightarrow> succeeds (cfg_is c) (r82xx_toggle_test U t)"
  unfolding r82xx_toggle_test_def by (intro ok_rules) simp_all

lemma ok_set_freq:
  assumes "usb_ok U" and "pll_reaches (r_cfg s)" and "r_inv s"
    and "lo = v4_upconvert (is_blog_v4 (r_manufact s) (r_product s)) freq + r_int_freq s"
    and "27656500 \<le> lo" and "lo < 1769999500"
  shows "0 \<le> fst (run_state (r82xx_set_freq U freq) s)"
proof -
  let ?c = "r_cfg s"
  have lo: "lo mod 2 ^ 32 = lo" using assms(6) by simp
  have "succeeds (cfg_is ?c) (chk (r82xx_set_mux U lo) (chk_lock (r82xx_set_pll U lo) k))"
    if "succeeds (cfg_is ?c) k" for k
    by (intro succeeds_chk succeeds_chk_lock ok_set_mux ok_set_pll that assms)
  note seq = this
  have "cfg_is ?c s" using assms(3) by (simp add: cfg_is_def)
  then show ?thesis
    using lo [simplified]
    by (simp add: r82xx_set_freq_def Let_def assms(4) [symmetric] split del: if_split)
      (rule succeeds_fst, rule seq, intro ok_rules assms(1), simp_all)
qed

lemma sim_cfg: "cfg_is (r_cfg sim_r82xx) sim_r82xx"
  by (simp add: cfg_is_def sim_inv)

lemma sim_reaches: "pll_reaches (r_cfg sim_r82xx)"
  by (simp add: pll_reaches_def sim_r82xx_def)

end
