(* ===== verification/R82xx_Correct.thy ===== *)
theory R82xx_Correct
  imports R82xx_Total
begin

unbundle bit_operations_syntax

text \<open>
  The properties of the R820T/R828D driver (src/src/tuner_r82xx.c): no undefined behaviour in
  any sequence of calls on any device, the shadow registers agree with the chip after
  every successful call, what the chip's PLL and gain registers hold after tuning and gain
  setting, and that every call succeeds on a device that answers.
\<close>

section \<open>Gain registers\<close>

definition lna_gain :: "nat \<Rightarrow> int" where
  "lna_gain l = (\<Sum>i\<le>l. r82xx_lna_gain_steps ! i)"

definition mixer_gain :: "nat \<Rightarrow> int" where
  "mixer_gain m = (\<Sum>i\<le>m. r82xx_mixer_gain_steps ! i)"

definition chip_gain :: "(u8 \<Rightarrow> u8) \<Rightarrow> int" where
  "chip_gain f = lna_gain (unat (f 0x05 AND 0x0f)) + mixer_gain (unat (f 0x07 AND 0x0f))"

lemma gain_loop_total:
  assumes "gain_loop 15 gain 0 0 0 = (t, l, m)"
  shows "t = lna_gain l + mixer_gain m" "l \<le> 15" "m \<le> 15" "gain \<le> t \<or> l = 15 \<and> m = 15"
  using gain_loop_spec [OF assms]
  by (auto simp: lna_gain_def mixer_gain_def r82xx_lna_gain_steps_def r82xx_mixer_gain_steps_def)

lemma index_word: "l \<le> 15 \<Longrightarrow> unat (word_of_nat l AND (0x0f :: u8)) = l"
proof -
  assume "l \<le> 15"
  have "word_of_nat l AND (0x0f :: u8) = take_bit 4 (word_of_nat l)"
    by (simp add: take_bit_eq_mask mask_eq_exp_minus_1)
  then show ?thesis
    using \<open>l \<le> 15\<close> by (simp only: unsigned_take_bit_eq) (simp add: unat_of_nat take_bit_eq_mod)
qed

lemma set_gain_writes:
  assumes bus: "chip_bus U a chip" and gl: "gain_loop 15 g 0 0 0 = (t, l, m)"
  shows "hoare (holds chip a []) (r82xx_set_gain U True g)
    (holds chip a [(0x07, 0x0f, word_of_nat m AND 0x0f), (0x05, 0x0f, word_of_nat l AND 0x0f),
      (0x0c, 0x9f, 0x08 AND 0x9f), (0x07, 0x10, 0 AND 0x10), (0x05, 0x10, 0x10 AND 0x10)])"
  (is "hoare _ _ (holds chip a ?K)")
  unfolding r82xx_set_gain_def gl prod.case if_True
proof (rule hoare_chk [OF hoare_seq_chk [OF _ holds_write_mask [OF bus] hoare_seq_chk1 [OF holds_write_mask [OF bus]]]
      hoare_chk_val [OF holds_read [OF bus] hoare_chk [OF holds_write_mask [OF bus] hoare_chk [OF hoare_seq_chk [OF _ holds_write_mask [OF bus] hoare_seq_chk1 [OF holds_write_mask [OF bus]]]]]]])
  show "hoare (holds chip a ?K) (ret 0) (holds chip a ?K)" by (simp add: hoare_def)
qed simp_all

section \<open>Properties\<close>

text \<open>C9: whatever the USB device answers, a well-formed driver state stays well formed under
  every sequence of driver calls, and no call ever reaches a division by zero, a copy outside
  the shadow array or the message buffer, or a table access out of range.\<close>

theorem r82xx_never_faults:
  assumes "r_inv s"
  shows "r_inv (r82xx_run U cs s) \<and> \<not> r_fault (r82xx_run U cs s)"
  using r_inv_run [OF assms] by (simp add: r_inv_def)

theorem r82xx_never_faults_witness:
  "\<not> r_fault (r82xx_run (sim_usb 0) [Init, SetFreq 100000000, SetGain True 496] sim_r82xx)"
  using r82xx_never_faults [OF sim_inv] by blast



text \<open>on a device that answers, a successful \<open>r82xx_init\<close> establishes the agreement of
  shadow and chip from any well-formed state, whatever the chip held before.\<close>

theorem r82xx_init_synchronises:
  assumes "chip_bus U a chip" and "usb_ok U" and "r_inv s" and "i2c_addr (r_cfg s) = a"
    and "0 \<le> fst (run_state (r82xx_init U) s)"
  shows "coherent chip a (snd (run_state (r82xx_init U) s))"
  using r82xx_init_coherent [OF assms(1-4) _ assms(5)] by (metis prod.collapse)

theorem r82xx_init_synchronises_witness:
  "coherent (\<lambda>h. h) 0x34 (snd (run_state (r82xx_init (sim_usb 0xff)) sim_r82xx))"
proof (rule r82xx_init_synchronises [OF sim_bus sim_ok sim_inv])
  show "0 \<le> fst (run_state (r82xx_init (sim_usb 0xff)) sim_r82xx)"
    by (rule succeeds_fst [OF ok_init [OF sim_ok sim_reaches] sim_cfg])
qed (simp add: sim_r82xx_def)

text \<open>C10: a read-modify-write of a register field, which the driver computes from its shadow
  copy without reading the chip, changes exactly the masked bits of that register of the
  chip and nothing else.\<close>

theorem r82xx_mask_write_refines:
  assumes "chip_bus U a chip" and "coherent chip a s" and "5 \<le> uint reg" and "uint reg < 35"
    and "0 \<le> fst (run_state (r82xx_write_reg_mask U reg val m) s)"
  shows "chip (r_hw (snd (run_state (r82xx_write_reg_mask U reg val m) s))) =
    (chip (r_hw s))(reg := (chip (r_hw s) reg AND NOT m) OR (val AND m))"
  using mask_write_effect [OF assms(1-4) _ assms(5)] by (metis prod.collapse)

theorem r82xx_mask_write_refines_witness:
  "r_hw (snd (run_state (r82xx_write_reg_mask (sim_usb 0) 0x17 0x08 0x08) sim_r82xx)) 0x17 = 0x08"
proof -
  have "0 \<le> fst (run_state (r82xx_write_reg_mask (sim_usb 0) 0x17 0x08 0x08) sim_r82xx)"
    by (rule succeeds_fst [OF ok_write_reg_mask [OF sim_ok] sim_cfg]) simp_all
  from r82xx_mask_write_refines [OF sim_bus sim_coherent _ _ this] show ?thesis
    by (simp add: sim_r82xx_def)
qed



text \<open>C24: after a successful manual \<open>r82xx_set_gain\<close> the LNA and mixer are in manual mode, the VGA
  is at its fixed setting, and the gain the chip's index fields select is at least the
  requested one (or the maximum); every gain that \<open>rtlsdr_get_tuner_gains\<close> advertises is met
  exactly.\<close>

theorem r82xx_set_gain_programs:
  assumes "chip_bus U a chip" and "coherent chip a s"
    and "0 \<le> fst (run_state (r82xx_set_gain U True g) s)"
  defines "f \<equiv> chip (r_hw (snd (run_state (r82xx_set_gain U True g) s)))"
  shows "f 0x05 AND 0x10 = 0x10 \<and> f 0x07 AND 0x10 = 0 \<and> f 0x0c AND 0x9f = 0x08 \<and>
    (g \<le> chip_gain f \<or> f 0x05 AND 0x0f = 0x0f \<and> f 0x07 AND 0x0f = 0x0f) \<and>
    (g \<in> set r82xx_gains \<longrightarrow> chip_gain f = g)"
proof -
  obtain t l m where gl: "gain_loop 15 g 0 0 0 = (t, l, m)" by (metis prod_cases3)
  note spec = gain_loop_total [OF gl]
  from set_gain_writes [OF assms(1) gl] have
    f: "f 0x07 AND 0x0f = word_of_nat m AND 0x0f" "f 0x05 AND 0x0f = word_of_nat l AND 0x0f"
      "f 0x0c AND 0x9f = 0x08" "f 0x07 AND 0x10 = 0" "f 0x05 AND 0x10 = 0x10"
    using assms(2,3) by (simp_all add: hoare_def holds_def f_def)
  have "chip_gain f = t"
    unfolding chip_gain_def f(1,2) using spec by (simp only: index_word)
  then show ?thesis
    using f spec r82xx_gains_exact gl by (auto simp: Ball_def)
qed

theorem r82xx_set_gain_programs_witness:
  "\<exists>f. chip_gain f = 496 \<and> f = r_hw (snd (run_state (r82xx_set_gain (sim_usb 0xff) True 496) sim_r82xx))"
proof -
  have "succeeds (cfg_is (r_cfg sim_r82xx)) (r82xx_set_gain (sim_usb 0xff) True 496)"
    by (rule ok_set_gain [OF sim_ok])
  then have "0 \<le> fst (run_state (r82xx_set_gain (sim_usb 0xff) True 496) sim_r82xx)"
    using sim_inv by (simp add: succeeds_def cfg_is_def)
  from r82xx_set_gain_programs [OF sim_bus sim_coherent this] show ?thesis
    by (simp add: r82xx_gains_def)
qed

text \<open>C33: on a device that answers, with a reference clock that lets the PLL reach its VCO
  range, initialisation, gain, bandwidth, standby and test mode always return success, and so
  does tuning to every frequency whose LO lies in the range of the divider search.\<close>

theorem r82xx_calls_succeed:
  assumes "usb_ok U" and "r_inv s" and "pll_reaches (r_cfg s)"
    and "\<And>f. c = SetFreq f \<Longrightarrow>
      27656500 \<le> v4_upconvert (is_blog_v4 (r_manufact s) (r_product s)) f + r_int_freq s \<and>
      v4_upconvert (is_blog_v4 (r_manufact s) (r_product s)) f + r_int_freq s < 1769999500"
    and "c \<noteq> XtalCheck"
  shows "0 \<le> fst (run_state (r82xx_do U c) s)"
proof -
  have "cfg_is (r_cfg s) s" using assms(2) by (simp add: cfg_is_def)
  then show ?thesis
    using assms ok_set_freq [OF assms(1,3,2) refl]
    by (cases c) (auto intro: succeeds_fst ok_set_gain ok_set_bandwidth ok_standby ok_toggle_test ok_init)
qed

theorem r82xx_calls_succeed_witness:
  "0 \<le> fst (run_state (r82xx_do (sim_usb 0xff) (SetFreq 100000000)) sim_r82xx)"
proof (rule r82xx_calls_succeed [OF sim_ok sim_inv sim_reaches])
  fix f
  assume "SetFreq 100000000 = SetFreq f"
  then show "27656500 \<le> v4_upconvert (is_blog_v4 (r_manufact sim_r82xx) (r_product sim_r82xx)) f + r_int_freq sim_r82xx \<and>
      v4_upconvert (is_blog_v4 (r_manufact sim_r82xx) (r_product sim_r82xx)) f + r_int_freq sim_r82xx < 1769999500"
    by (simp add: sim_r82xx_def v4_upconvert_def is_blog_v4_def rtlsdr_check_dongle_model_def)
qed simp

text \<open>for a requested bandwidth from 350 kHz to 1.7 MHz, \<open>r82xx_set_bandwidth\<close> chooses the
  narrowest low-pass filter that is at least as wide, and places the IF below 2.3 MHz by half
  that filter's width.\<close>

theorem r82xx_bandwidth_narrowest:
  assumes "350000 \<le> bw" and "bw \<le> 1700000"
  shows "\<exists>i < 10. bw \<le> r82xx_if_low_pass_bw_table ! i \<and>
    (i = 9 \<or> r82xx_if_low_pass_bw_table ! (i + 1) < bw) \<and>
    bandwidth_vals bw =
      Some (0x00, 0xe0 OR (15 - of_nat i), 2300000 - r82xx_if_low_pass_bw_table ! i div 2)"
  by (rule bandwidth_narrow [OF assms])

theorem r82xx_bandwidth_narrowest_witness:
  "\<exists>i < 10. 1000000 \<le> r82xx_if_low_pass_bw_table ! i \<and>
    bandwidth_vals 1000000 =
      Some (0x00, 0xe0 OR (15 - of_nat i), 2300000 - r82xx_if_low_pass_bw_table ! i div 2)"
  using r82xx_bandwidth_narrowest [of 1000000] by auto

text \<open>the guard against unreachable PLL values works on a divider truncated to 8 bits: at
  1.85 GHz no VCO divider is found and the integer divider would have to be 4111, but the value
  the code checks is 15, so the frequency is accepted.\<close>

theorem r82xx_pll_guard_truncated:
  "calc_divider 1850000 2 = (128, 0) \<and>
   1850000000 * 128 div (2 * 28800000) = (4111 :: nat) \<and>
   pv_nint (r82xx_pll_int 1850000000 28800000 128) = 15"
  using nint_truncated by simp

end
