(* ===== verification/Tuner_e4k.thy ===== *)
theory Tuner_e4k
  imports Usb
begin

unbundle bit_operations_syntax

text \<open>
  The Elonics E4000 driver (src/src/tuner_e4k.c, src/include/tuner_e4k.h).

  The state \<open>'h e4k\<close> is \<open>struct e4k_state\<close> with the device behind the bus; the driver keeps no
  copy of the registers, every masked write reads the register first. Frequencies are
  naturals with the wrap-around of \<open>uint32_t\<close> and \<open>uint64_t\<close> written out; the IF filter and
  gain stage numbers are naturals, so that the range checks of the code are part of the model.
\<close>

section \<open>Data\<close>

datatype e4k_band = E4K_BAND_VHF2 | E4K_BAND_VHF3 | E4K_BAND_UHF | E4K_BAND_L

primrec band_code :: "e4k_band \<Rightarrow> u8" where
  "band_code E4K_BAND_VHF2 = 0"
| "band_code E4K_BAND_VHF3 = 1"
| "band_code E4K_BAND_UHF = 2"
| "band_code E4K_BAND_L = 3"

abbreviation (input) E4K_IF_FILTER_MIX :: nat where "E4K_IF_FILTER_MIX \<equiv> 0"
abbreviation (input) E4K_IF_FILTER_CHAN :: nat where "E4K_IF_FILTER_CHAN \<equiv> 1"
abbreviation (input) E4K_IF_FILTER_RC :: nat where "E4K_IF_FILTER_RC \<equiv> 2"

abbreviation (input) E4K_REG_MASTER1 :: u8 where "E4K_REG_MASTER1 \<equiv> 0x00"
abbreviation (input) E4K_REG_CLK_INP :: u8 where "E4K_REG_CLK_INP \<equiv> 0x05"
abbreviation (input) E4K_REG_REF_CLK :: u8 where "E4K_REG_REF_CLK \<equiv> 0x06"
abbreviation (input) E4K_REG_SYNTH1 :: u8 where "E4K_REG_SYNTH1 \<equiv> 0x07"
abbreviation (input) E4K_REG_SYNTH3 :: u8 where "E4K_REG_SYNTH3 \<equiv> 0x09"
abbreviation (input) E4K_REG_SYNTH4 :: u8 where "E4K_REG_SYNTH4 \<equiv> 0x0a"
abbreviation (input) E4K_REG_SYNTH5 :: u8 where "E4K_REG_SYNTH5 \<equiv> 0x0b"
abbreviation (input) E4K_REG_SYNTH7 :: u8 where "E4K_REG_SYNTH7 \<equiv> 0x0d"
abbreviation (input) E4K_REG_FILT1 :: u8 where "E4K_REG_FILT1 \<equiv> 0x10"
abbreviation (input) E4K_REG_FILT2 :: u8 where "E4K_REG_FILT2 \<equiv> 0x11"
abbreviation (input) E4K_REG_FILT3 :: u8 where "E4K_REG_FILT3 \<equiv> 0x12"
abbreviation (input) E4K_REG_GAIN1 :: u8 where "E4K_REG_GAIN1 \<equiv> 0x14"
abbreviation (input) E4K_REG_GAIN2 :: u8 where "E4K_REG_GAIN2 \<equiv> 0x15"
abbreviation (input) E4K_REG_GAIN3 :: u8 where "E4K_REG_GAIN3 \<equiv> 0x16"
abbreviation (input) E4K_REG_GAIN4 :: u8 where "E4K_REG_GAIN4 \<equiv> 0x17"
abbreviation (input) E4K_REG_AGC1 :: u8 where "E4K_REG_AGC1 \<equiv> 0x1a"
abbreviation (input) E4K_REG_AGC4 :: u8 where "E4K_REG_AGC4 \<equiv> 0x1d"
abbreviation (input) E4K_REG_AGC5 :: u8 where "E4K_REG_AGC5 \<equiv> 0x1e"
abbreviation (input) E4K_REG_AGC6 :: u8 where "E4K_REG_AGC6 \<equiv> 0x1f"
abbreviation (input) E4K_REG_AGC7 :: u8 where "E4K_REG_AGC7 \<equiv> 0x20"
abbreviation (input) E4K_REG_AGC11 :: u8 where "E4K_REG_AGC11 \<equiv> 0x24"
abbreviation (input) E4K_REG_DC1 :: u8 where "E4K_REG_DC1 \<equiv> 0x29"
abbreviation (input) E4K_REG_DC2 :: u8 where "E4K_REG_DC2 \<equiv> 0x2a"
abbreviation (input) E4K_REG_DC3 :: u8 where "E4K_REG_DC3 \<equiv> 0x2b"
abbreviation (input) E4K_REG_DC4 :: u8 where "E4K_REG_DC4 \<equiv> 0x2c"
abbreviation (input) E4K_REG_DC5 :: u8 where "E4K_REG_DC5 \<equiv> 0x2d"
abbreviation (input) E4K_REG_DC7 :: u8 where "E4K_REG_DC7 \<equiv> 0x2f"
abbreviation (input) E4K_REG_DCTIME1 :: u8 where "E4K_REG_DCTIME1 \<equiv> 0x70"
abbreviation (input) E4K_REG_DCTIME2 :: u8 where "E4K_REG_DCTIME2 \<equiv> 0x71"
abbreviation (input) E4K_REG_BIAS :: u8 where "E4K_REG_BIAS \<equiv> 0x78"
abbreviation (input) E4K_REG_CLKOUT_PWDN :: u8 where "E4K_REG_CLKOUT_PWDN \<equiv> 0x7a"

record e4k_pll_params =
  p_fosc :: nat
  p_intended_flo :: nat
  p_flo :: nat
  p_x :: nat
  p_z :: nat
  p_r :: nat
  p_r_idx :: u8
  p_threephase :: bool

record 'h e4k =
  e_hw :: 'h
  e_i2c_addr :: u8
  e_band :: e4k_band
  e_vco :: e4k_pll_params

record reg_field =
  f_reg :: u8
  f_shift :: nat
  f_width :: nat

definition unsigned_delta :: "nat \<Rightarrow> nat \<Rightarrow> nat" where
  "unsigned_delta a b = (if a > b then a - b else b - a)"

definition width2mask :: "u8 list" where
  "width2mask = [0, 1, 3, 7, 0xf, 0x1f, 0x3f, 0x7f, 0xff]"

section \<open>Register access\<close>

definition e_io :: "('h, 'a) prog \<Rightarrow> ('h e4k, 'a) prog" where
  "e_io m = State (\<lambda>s. case run_state m (e_hw s) of (x, h) \<Rightarrow> (x, s\<lparr>e_hw := h\<rparr>))"

definition e4k_reg_write :: "'h usb_ops \<Rightarrow> u8 \<Rightarrow> u8 \<Rightarrow> ('h e4k, int) prog" where
  "e4k_reg_write U reg val = do {
     addr \<leftarrow> gets e_i2c_addr;
     r \<leftarrow> e_io (rtlsdr_i2c_write_fn U addr [reg, val] 2);
     ret (if r = 2 then 0 else -1) }"

definition e4k_reg_read :: "'h usb_ops \<Rightarrow> u8 \<Rightarrow> ('h e4k, int) prog" where
  "e4k_reg_read U reg = do {
     addr \<leftarrow> gets e_i2c_addr;
     r \<leftarrow> e_io (rtlsdr_i2c_write_fn U addr [reg] 1);
     if r < 1 then ret (-1)
     else do {
       (r, data) \<leftarrow> e_io (rtlsdr_i2c_read_fn U addr [reg] 1);
       if r < 1 then ret (-1) else ret (uint (data ! 0)) } }"

text \<open>A failed read returns -1, which becomes \<open>0xff\<close> in the \<open>uint8_t tmp\<close>.\<close>

definition e4k_reg_set_mask :: "'h usb_ops \<Rightarrow> u8 \<Rightarrow> u8 \<Rightarrow> u8 \<Rightarrow> ('h e4k, int) prog" where
  "e4k_reg_set_mask U reg bit_mask val = do {
     r \<leftarrow> e4k_reg_read U reg;
     let tmp = (word_of_int r :: u8);
     if tmp AND bit_mask = val then ret 0
     else e4k_reg_write U reg ((tmp AND NOT bit_mask) OR (val AND bit_mask)) }"

definition field_mask :: "reg_field \<Rightarrow> u8" where
  "field_mask field = push_bit (f_shift field) (width2mask ! f_width field)"

definition e4k_field_write :: "'h usb_ops \<Rightarrow> reg_field \<Rightarrow> u8 \<Rightarrow> ('h e4k, int) prog" where
  "e4k_field_write U field val = do {
     rc \<leftarrow> e4k_reg_read U (f_reg field);
     if rc < 0 then ret rc
     else e4k_reg_set_mask U (f_reg field) (field_mask field) (push_bit (f_shift field) val) }"

definition e4k_field_read :: "'h usb_ops \<Rightarrow> reg_field \<Rightarrow> ('h e4k, int) prog" where
  "e4k_field_read U field = do {
     rc \<leftarrow> e4k_reg_read U (f_reg field);
     if rc < 0 then ret rc
     else ret (drop_bit (f_shift field) rc AND uint (width2mask ! f_width field)) }"

section \<open>Filter control\<close>

definition rf_filt_center_uhf :: "nat list" where
  "rf_filt_center_uhf = map ((*) 1000000)
     [360, 380, 405, 425, 450, 475, 505, 540, 575, 615, 670, 720, 760, 840, 890, 970]"

definition rf_filt_center_l :: "nat list" where
  "rf_filt_center_l = map ((*) 1000000)
     [1300, 1320, 1360, 1410, 1445, 1460, 1490, 1530,
      1560, 1590, 1640, 1660, 1680, 1700, 1720, 1750]"

fun closest_loop :: "nat list \<Rightarrow> nat \<Rightarrow> nat \<Rightarrow> nat \<Rightarrow> nat \<Rightarrow> nat" where
  "closest_loop [] i freq best_delta bi = bi"
| "closest_loop (c # cs) i freq best_delta bi =
     (let delta = unsigned_delta freq c
      in if delta < best_delta then closest_loop cs (i + 1) freq delta i
         else closest_loop cs (i + 1) freq best_delta bi)"

definition closest_arr_idx :: "nat list \<Rightarrow> nat \<Rightarrow> nat" where
  "closest_arr_idx arr freq = closest_loop arr 0 freq 0xffffffff 0"

fun choose_rf_filter :: "e4k_band \<Rightarrow> nat \<Rightarrow> int" where
  "choose_rf_filter E4K_BAND_VHF2 freq = 0"
| "choose_rf_filter E4K_BAND_VHF3 freq = 0"
| "choose_rf_filter E4K_BAND_UHF freq = int (closest_arr_idx rf_filt_center_uhf freq)"
| "choose_rf_filter E4K_BAND_L freq = int (closest_arr_idx rf_filt_center_l freq)"

definition e4k_rf_filter_set :: "'h usb_ops \<Rightarrow> ('h e4k, int) prog" where
  "e4k_rf_filter_set U = do {
     rc \<leftarrow> gets (\<lambda>s. choose_rf_filter (e_band s) (p_flo (e_vco s)));
     if rc < 0 then ret rc
     else e4k_reg_set_mask U E4K_REG_FILT1 0xF (word_of_int rc) }"

definition mix_filter_bw :: "nat list" where
  "mix_filter_bw = map ((*) 1000)
     [27000, 27000, 27000, 27000, 27000, 27000, 27000, 27000,
      4600, 4200, 3800, 3400, 3300, 2700, 2300, 1900]"

definition ifrc_filter_bw :: "nat list" where
  "ifrc_filter_bw = map ((*) 1000)
     [21400, 21000, 17600, 14700, 12400, 10600, 9000, 7700,
      6400, 5300, 4400, 3400, 2600, 1800, 1200, 1000]"

definition ifch_filter_bw :: "nat list" where
  "ifch_filter_bw = map ((*) 1000)
     [5500, 5300, 5000, 4800, 4600, 4400, 4300, 4100, 3900, 3800, 3700, 3600,
      3400, 3300, 3200, 3100, 3000, 2950, 2900, 2800, 2750, 2700, 2600, 2550,
      2500, 2450, 2400, 2300, 2280, 2240, 2200, 2150]"

definition if_filter_bw :: "nat list list" where
  "if_filter_bw = [mix_filter_bw, ifch_filter_bw, ifrc_filter_bw]"

definition if_filter_fields :: "reg_field list" where
  "if_filter_fields =
     [\<lparr>f_reg = E4K_REG_FILT2, f_shift = 4, f_width = 4\<rparr>,
      \<lparr>f_reg = E4K_REG_FILT3, f_shift = 0, f_width = 5\<rparr>,
      \<lparr>f_reg = E4K_REG_FILT2, f_shift = 0, f_width = 4\<rparr>]"

definition find_if_bw :: "nat \<Rightarrow> nat \<Rightarrow> int" where
  "find_if_bw filt bw =
     (if filt \<ge> length if_filter_bw then - EINVAL
      else int (closest_arr_idx (if_filter_bw ! filt) bw))"

definition e4k_if_filter_bw_set :: "'h usb_ops \<Rightarrow> nat \<Rightarrow> nat \<Rightarrow> ('h e4k, int) prog" where
  "e4k_if_filter_bw_set U filt bandwidth =
     (if filt \<ge> length if_filter_bw then ret (- EINVAL)
      else e4k_field_write U (if_filter_fields ! filt) (word_of_int (find_if_bw filt bandwidth)))"

definition e4k_if_filter_chan_enable :: "'h usb_ops \<Rightarrow> bool \<Rightarrow> ('h e4k, int) prog" where
  "e4k_if_filter_chan_enable U on =
     e4k_reg_set_mask U E4K_REG_FILT3 0x20 (if on then 0 else 0x20)"

definition e4k_if_filter_bw_get :: "'h usb_ops \<Rightarrow> nat \<Rightarrow> ('h e4k, int) prog" where
  "e4k_if_filter_bw_get U filt =
     (if filt \<ge> length if_filter_bw then ret (- EINVAL)
      else do {
        rc \<leftarrow> e4k_field_read U (if_filter_fields ! filt);
        if rc < 0 then ret rc
        else ret (int (if_filter_bw ! filt ! nat rc)) })"

section \<open>Frequency control\<close>

definition pll_vars :: "(nat \<times> u8 \<times> nat) list" where
  "pll_vars =
     [(72400000, 0x0f, 48), (81200000, 0x0e, 40), (108300000, 0x0d, 32), (162500000, 0x0c, 24),
      (216600000, 0x0b, 16), (325000000, 0x0a, 12), (350000000, 0x09, 8), (432000000, 0x03, 8),
      (667000000, 0x02, 6), (1200000000, 0x01, 4)]"

definition is_fvco_valid :: "nat \<Rightarrow> bool" where
  "is_fvco_valid fvco_z \<longleftrightarrow> \<not> (fvco_z div 1000 < 2600000 \<or> fvco_z div 1000 > 3900000)"

definition is_fosc_valid :: "nat \<Rightarrow> bool" where
  "is_fosc_valid fosc \<longleftrightarrow> \<not> (fosc < 16000000 \<or> fosc > 30000000)"

definition is_z_valid :: "nat \<Rightarrow> bool" where
  "is_z_valid z \<longleftrightarrow> \<not> z > 255"

definition use_3ph_mixing :: "nat \<Rightarrow> bool" where
  "use_3ph_mixing flo \<longleftrightarrow> flo < 350000000"

definition compute_fvco :: "nat \<Rightarrow> nat \<Rightarrow> nat \<Rightarrow> nat" where
  "compute_fvco f_osc z x =
     (let fvco_z = f_osc * z mod 2 ^ 64;
          fvco_x = (f_osc * x mod 2 ^ 64) div 65536
      in (fvco_z + fvco_x) mod 2 ^ 64)"

text \<open>The parameters \<open>z\<close>, \<open>x\<close> and \<open>r\<close> arrive as \<open>uint8_t\<close>, \<open>uint16_t\<close> and \<open>uint8_t\<close>.\<close>

definition compute_flo :: "nat \<Rightarrow> nat \<Rightarrow> nat \<Rightarrow> nat \<Rightarrow> nat" where
  "compute_flo f_osc z x r =
     (let fvco = compute_fvco f_osc (z mod 2 ^ 8) (x mod 2 ^ 16)
      in if fvco = 0 then 2 ^ 32 - 22 else fvco div r mod 2 ^ 32)"

definition e4k_band_set :: "'h usb_ops \<Rightarrow> e4k_band \<Rightarrow> ('h e4k, int) prog" where
  "e4k_band_set U band = do {
     _ \<leftarrow> (case band of E4K_BAND_L \<Rightarrow> e4k_reg_write U E4K_REG_BIAS 0
           | _ \<Rightarrow> e4k_reg_write U E4K_REG_BIAS 3);
     _ \<leftarrow> e4k_reg_set_mask U E4K_REG_SYNTH1 0x06 0;
     rc \<leftarrow> e4k_reg_set_mask U E4K_REG_SYNTH1 0x06 (push_bit 1 (band_code band));
     if rc \<ge> 0 then do { _ \<leftarrow> modify (\<lambda>s. s\<lparr>e_band := band\<rparr>); ret rc }
     else ret rc }"

text \<open>The row of \<open>pll_vars\<close> for a frequency, \<open>(r_idx, r)\<close>; \<open>(0, 2)\<close> above the table.\<close>

primrec pll_row :: "nat \<Rightarrow> (nat \<times> u8 \<times> nat) list \<Rightarrow> u8 \<times> nat" where
  "pll_row flo [] = (0, 2)"
| "pll_row flo (v # vs) = (if flo < fst v then snd v else pll_row flo vs)"

text \<open>
  \<open>oscp\<close> is the caller's uninitialised structure; the result is the return value and the
  structure. The local \<open>int flo\<close> and the \<open>uint32_t\<close> result are the same number modulo \<open>2 ^ 32\<close>.
\<close>

definition e4k_compute_pll_params ::
  "e4k_pll_params \<Rightarrow> nat \<Rightarrow> nat \<Rightarrow> nat \<times> e4k_pll_params" where
  "e4k_compute_pll_params oscp fosc intended_flo =
     (if \<not> is_fosc_valid fosc then (0, oscp\<lparr>p_r_idx := 0\<rparr>)
      else
        let (r_idx, r) = pll_row intended_flo pll_vars;
            intended_fvco = intended_flo * r mod 2 ^ 64;
            z = intended_fvco div fosc;
            rem = (intended_fvco + 2 ^ 64 - fosc * z mod 2 ^ 64) mod 2 ^ 64;
            x = (rem * 65536 mod 2 ^ 64) div fosc mod 2 ^ 32;
            flo = compute_flo fosc z x r
        in (flo, \<lparr>p_fosc = fosc, p_intended_flo = intended_flo, p_flo = flo, p_x = x mod 2 ^ 16,
                  p_z = z mod 2 ^ 8, p_r = r, p_r_idx = r_idx, p_threephase = (r_idx AND 0x08 \<noteq> 0)\<rparr>))"

definition band_of_flo :: "nat \<Rightarrow> e4k_band" where
  "band_of_flo flo =
     (if flo < 140000000 then E4K_BAND_VHF2
      else if flo < 350000000 then E4K_BAND_VHF3
      else if flo < 1135000000 then E4K_BAND_UHF
      else E4K_BAND_L)"

definition e4k_tune_params :: "'h usb_ops \<Rightarrow> e4k_pll_params \<Rightarrow> ('h e4k, int) prog" where
  "e4k_tune_params U p = do {
     _ \<leftarrow> e4k_reg_write U E4K_REG_SYNTH7 (p_r_idx p);
     _ \<leftarrow> e4k_reg_write U E4K_REG_SYNTH3 (of_nat (p_z p));
     _ \<leftarrow> e4k_reg_write U E4K_REG_SYNTH4 (of_nat (p_x p mod 2 ^ 8));
     _ \<leftarrow> e4k_reg_write U E4K_REG_SYNTH5 (of_nat (p_x p div 2 ^ 8));
     _ \<leftarrow> modify (\<lambda>s. s\<lparr>e_vco := p\<rparr>);
     _ \<leftarrow> e4k_band_set U (band_of_flo (p_flo p));
     _ \<leftarrow> e4k_rf_filter_set U;
     gets (\<lambda>s. to_int32 (int (p_flo (e_vco s)))) }"

text \<open>\<open>oscp\<close> is the uninitialised local of \<open>e4k_tune_freq\<close>.\<close>

definition e4k_tune_freq :: "'h usb_ops \<Rightarrow> e4k_pll_params \<Rightarrow> nat \<Rightarrow> ('h e4k, int) prog" where
  "e4k_tune_freq U oscp freq = do {
     fosc \<leftarrow> gets (\<lambda>s. p_fosc (e_vco s));
     case e4k_compute_pll_params oscp fosc freq of (rc, p) \<Rightarrow>
       if rc = 0 then ret (- EINVAL)
       else do {
         _ \<leftarrow> e4k_tune_params U p;
         rc \<leftarrow> e4k_reg_read U E4K_REG_SYNTH1;
         if (word_of_int rc :: u32) AND 0x01 = 0 then ret (-1) else ret 0 } }"

section \<open>Gain control\<close>

definition if_stage_gain :: "int list list" where
  "if_stage_gain = [[], [-3, 6], [0, 3, 6, 9], [0, 3, 6, 9], [0, 1, 2, 2],
     [3, 6, 9, 12, 15, 15, 15, 15], [3, 6, 9, 12, 15, 15, 15, 15]]"

definition if_stage_gain_regs :: "reg_field list" where
  "if_stage_gain_regs =
     [\<lparr>f_reg = 0, f_shift = 0, f_width = 0\<rparr>,
      \<lparr>f_reg = E4K_REG_GAIN3, f_shift = 0, f_width = 1\<rparr>,
      \<lparr>f_reg = E4K_REG_GAIN3, f_shift = 1, f_width = 2\<rparr>,
      \<lparr>f_reg = E4K_REG_GAIN3, f_shift = 3, f_width = 2\<rparr>,
      \<lparr>f_reg = E4K_REG_GAIN3, f_shift = 5, f_width = 2\<rparr>,
      \<lparr>f_reg = E4K_REG_GAIN4, f_shift = 0, f_width = 3\<rparr>,
      \<lparr>f_reg = E4K_REG_GAIN4, f_shift = 3, f_width = 3\<rparr>]"

definition lnagain :: "(int \<times> u8) list" where
  "lnagain = [(-50, 0), (-25, 1), (0, 4), (25, 5), (50, 6), (75, 7), (100, 8), (125, 9),
     (150, 10), (175, 11), (200, 12), (250, 13), (300, 14)]"

definition enhgain :: "int list" where
  "enhgain = [10, 30, 50, 70]"

definition e4k_set_lna_gain :: "'h usb_ops \<Rightarrow> int \<Rightarrow> ('h e4k, int) prog" where
  "e4k_set_lna_gain U gain = (case map_of lnagain gain of
     None \<Rightarrow> ret (- EINVAL)
   | Some v \<Rightarrow> do { _ \<leftarrow> e4k_reg_set_mask U E4K_REG_GAIN1 0xf v; ret gain })"

text \<open>\<open>index_of x xs\<close> is the first position of \<open>x\<close>, where a search loop over an array stops.\<close>

primrec index_of :: "'a \<Rightarrow> 'a list \<Rightarrow> nat option" where
  "index_of x [] = None"
| "index_of x (y # ys) = (if y = x then Some 0 else map_option Suc (index_of x ys))"

definition e4k_set_enh_gain :: "'h usb_ops \<Rightarrow> int \<Rightarrow> ('h e4k, int) prog" where
  "e4k_set_enh_gain U gain = (case index_of gain enhgain of
     Some i \<Rightarrow> do { _ \<leftarrow> e4k_reg_set_mask U E4K_REG_AGC11 0x7 (1 OR push_bit 1 (of_nat i)); ret gain }
   | None \<Rightarrow> do {
       _ \<leftarrow> e4k_reg_set_mask U E4K_REG_AGC11 0x7 0;
       ret (if gain = 0 then 0 else - EINVAL) })"

definition e4k_enable_manual_gain :: "'h usb_ops \<Rightarrow> bool \<Rightarrow> ('h e4k, int) prog" where
  "e4k_enable_manual_gain U manual =
     (if manual then do {
        _ \<leftarrow> e4k_reg_set_mask U E4K_REG_AGC1 0xF 0x0;
        _ \<leftarrow> e4k_reg_set_mask U E4K_REG_AGC7 0x01 0;
        ret 0 }
      else do {
        _ \<leftarrow> e4k_reg_set_mask U E4K_REG_AGC1 0xF 0x9;
        _ \<leftarrow> e4k_reg_set_mask U E4K_REG_AGC7 0x01 1;
        _ \<leftarrow> e4k_reg_set_mask U E4K_REG_AGC11 0x7 0;
        ret 0 })"

definition find_stage_gain :: "nat \<Rightarrow> int \<Rightarrow> int" where
  "find_stage_gain stage val =
     (if stage \<ge> length if_stage_gain then - EINVAL
      else case index_of val (if_stage_gain ! stage) of None \<Rightarrow> - EINVAL | Some i \<Rightarrow> int i)"

definition e4k_if_gain_set :: "'h usb_ops \<Rightarrow> nat \<Rightarrow> int \<Rightarrow> ('h e4k, int) prog" where
  "e4k_if_gain_set U stage val =
     (let rc = find_stage_gain stage val
      in if rc < 0 then ret rc
         else let field = if_stage_gain_regs ! stage
              in e4k_reg_set_mask U (f_reg field) (field_mask field)
                   (push_bit (f_shift field) (word_of_int rc)))"

definition e4k_mixer_gain_set :: "'h usb_ops \<Rightarrow> int \<Rightarrow> ('h e4k, int) prog" where
  "e4k_mixer_gain_set U val =
     (if val = 4 then e4k_reg_set_mask U E4K_REG_GAIN2 1 0
      else if val = 12 then e4k_reg_set_mask U E4K_REG_GAIN2 1 1
      else ret (- EINVAL))"

definition e4k_commonmode_set :: "'h usb_ops \<Rightarrow> int \<Rightarrow> ('h e4k, int) prog" where
  "e4k_commonmode_set U val =
     (if val < 0 then ret (- EINVAL)
      else if val > 7 then ret (- EINVAL)
      else e4k_reg_set_mask U E4K_REG_DC7 7 (word_of_int val))"

section \<open>DC offset\<close>

definition e4k_manual_dc_offset ::
  "'h usb_ops \<Rightarrow> int \<Rightarrow> int \<Rightarrow> int \<Rightarrow> int \<Rightarrow> ('h e4k, int) prog" where
  "e4k_manual_dc_offset U iofs irange qofs qrange =
     (if iofs < 0 \<or> iofs > 0x3f then ret (- EINVAL)
      else if irange < 0 \<or> irange > 3 then ret (- EINVAL)
      else if qofs < 0 \<or> qofs > 0x3f then ret (- EINVAL)
      else if qrange < 0 \<or> qrange > 3 then ret (- EINVAL)
      else seq_chk
        [e4k_reg_set_mask U E4K_REG_DC2 0x3f (word_of_int iofs),
         e4k_reg_set_mask U E4K_REG_DC3 0x3f (word_of_int qofs),
         e4k_reg_set_mask U E4K_REG_DC4 0x33 (push_bit 4 (word_of_int qrange) OR word_of_int irange)])"

definition e4k_dc_offset_calibrate :: "'h usb_ops \<Rightarrow> ('h e4k, int) prog" where
  "e4k_dc_offset_calibrate U = do {
     _ \<leftarrow> e4k_reg_set_mask U E4K_REG_DC5 0x04 0x04;
     e4k_reg_write U E4K_REG_DC1 0x01 }"

definition if_gains_max :: "int list" where
  "if_gains_max = [0, 6, 9, 9, 2, 15, 15]"

definition dc_gain_comb :: "(int \<times> int \<times> u8) list" where
  "dc_gain_comb = [(4, -3, 0x50), (4, 6, 0x51), (12, -3, 0x52), (12, 6, 0x53)]"

definition TO_LUT :: "u8 \<Rightarrow> u8 \<Rightarrow> u8" where
  "TO_LUT offs rng = offs OR push_bit 6 rng"

definition dc_table_entry :: "'h usb_ops \<Rightarrow> int \<times> int \<times> u8 \<Rightarrow> ('h e4k, unit) prog" where
  "dc_table_entry U g = (case g of (mixer_gain, if1_gain, reg) \<Rightarrow> do {
     _ \<leftarrow> e4k_mixer_gain_set U mixer_gain;
     _ \<leftarrow> e4k_if_gain_set U 1 if1_gain;
     _ \<leftarrow> e4k_dc_offset_calibrate U;
     i \<leftarrow> e4k_reg_read U E4K_REG_DC2;
     q \<leftarrow> e4k_reg_read U E4K_REG_DC3;
     r \<leftarrow> e4k_reg_read U E4K_REG_DC4;
     let offs_i = (word_of_int i AND 0x3f :: u8);
     let offs_q = (word_of_int q AND 0x3f :: u8);
     let rng = (word_of_int r :: u8);
     let range_i = rng AND 0x3;
     let range_q = drop_bit 4 rng AND 0x3;
     _ \<leftarrow> e4k_reg_write U reg (TO_LUT offs_q range_q);
     _ \<leftarrow> e4k_reg_write U (reg + 0x10) (TO_LUT offs_i range_i);
     ret () })"

definition e4k_dc_offset_gen_table :: "'h usb_ops \<Rightarrow> ('h e4k, int) prog" where
  "e4k_dc_offset_gen_table U = do {
     _ \<leftarrow> e4k_reg_set_mask U E4K_REG_AGC7 0x01 0;
     _ \<leftarrow> e4k_reg_set_mask U E4K_REG_AGC1 0xF 0x0;
     _ \<leftarrow> seq_ign (map (\<lambda>i. e4k_if_gain_set U i (if_gains_max ! i)) [2..<7]);
     _ \<leftarrow> seq_ign (map (dc_table_entry U) dc_gain_comb);
     ret 0 }"

section \<open>Standby and initialisation\<close>

definition e4k_standby :: "'h usb_ops \<Rightarrow> bool \<Rightarrow> ('h e4k, int) prog" where
  "e4k_standby U enable = do {
     _ \<leftarrow> e4k_reg_set_mask U E4K_REG_MASTER1 0x02 (if enable then 0 else 0x02);
     ret 0 }"

definition magic_init :: "'h usb_ops \<Rightarrow> ('h e4k, int) prog" where
  "magic_init U = do {
     _ \<leftarrow> seq_ign (map (\<lambda>(r, v). e4k_reg_write U r v)
       [(0x7e, 0x01), (0x7f, 0xfe), (0x82, 0x00), (0x86, 0x50),
        (0x87, 0x20), (0x88, 0x01), (0x9f, 0x7f), (0xa0, 0x07)]);
     ret 0 }"

definition e4k_init :: "'h usb_ops \<Rightarrow> ('h e4k, int) prog" where
  "e4k_init U = do {
     _ \<leftarrow> seq_ign
       [e4k_reg_read U 0,
        e4k_reg_write U E4K_REG_MASTER1 0x07,
        e4k_reg_write U E4K_REG_CLK_INP 0x00,
        e4k_reg_write U E4K_REG_REF_CLK 0x00,
        e4k_reg_write U E4K_REG_CLKOUT_PWDN 0x96,
        magic_init U,
        e4k_reg_write U E4K_REG_AGC4 0x10,
        e4k_reg_write U E4K_REG_AGC5 0x04,
        e4k_reg_write U E4K_REG_AGC6 0x1a,
        e4k_reg_set_mask U E4K_REG_AGC1 0xF 0x0,
        e4k_reg_set_mask U E4K_REG_AGC7 0x01 0,
        e4k_enable_manual_gain U False,
        e4k_if_gain_set U 1 6,
        e4k_if_gain_set U 2 0,
        e4k_if_gain_set U 3 0,
        e4k_if_gain_set U 4 0,
        e4k_if_gain_set U 5 9,
        e4k_if_gain_set U 6 9,
        e4k_if_filter_bw_set U E4K_IF_FILTER_MIX 1900000,
        e4k_if_filter_bw_set U E4K_IF_FILTER_RC 1000000,
        e4k_if_filter_bw_set U E4K_IF_FILTER_CHAN 2150000,
        e4k_if_filter_chan_enable U True,
        e4k_reg_set_mask U E4K_REG_DC5 0x03 0,
        e4k_reg_set_mask U E4K_REG_DCTIME1 0x03 0,
        e4k_reg_set_mask U E4K_REG_DCTIME2 0x03 0];
     ret 0 }"

end
