(* ===== verification/I2c_Chip.thy ===== *)
theory I2c_Chip
  imports Usb
begin

unbundle bit_operations_syntax

text \<open>
  A tuner chip behind the I2C bridge, as the data sheets of the Elonics, Fitipower and FCI
  tuners describe it: a two-byte write stores a register, a one-byte write selects a register,
  a one-byte read returns the selected one.

  \<open>chip h\<close> is what the registers hold without their status bits, \<open>ptr h\<close> the selected
  register, \<open>stat r\<close> the status bits of register \<open>r\<close> (bits the chip sets by itself, so that a
  read may return anything there), \<open>side\<close> the registers whose writes have further effects.
\<close>

definition reg_bus ::
  "'h usb_ops \<Rightarrow> u8 \<Rightarrow> ('h \<Rightarrow> u8 \<Rightarrow> u8) \<Rightarrow> ('h \<Rightarrow> u8) \<Rightarrow> (u8 \<Rightarrow> u8) \<Rightarrow> u8 set \<Rightarrow> bool" where
  "reg_bus U a chip ptr stat side \<longleftrightarrow>
     (\<forall>h reg v. \<exists>h'. ctrl_out U h (ucast a) 0x610 [reg, v] = (2, h') \<and>
        (reg \<notin> side \<longrightarrow> chip h' = (chip h)(reg := v AND NOT (stat reg)))) \<and>
     (\<forall>h reg. \<exists>h'. ctrl_out U h (ucast a) 0x610 [reg] = (1, h') \<and> chip h' = chip h \<and> ptr h' = reg) \<and>
     (\<forall>h. \<exists>v h'. ctrl_in U h (ucast a) 0x600 1 = (1, [v], h') \<and> chip h' = chip h \<and>
        v AND NOT (stat (ptr h)) = chip h (ptr h))"

lemma reg_bus_write:
  assumes "reg_bus U a chip ptr stat side"
  obtains h' where "run_state (rtlsdr_i2c_write_fn U a [reg, v] 2) h = (2, h')"
    and "reg \<notin> side \<Longrightarrow> chip h' = (chip h)(reg := v AND NOT (stat reg))"
proof -
  have "run_state (rtlsdr_i2c_write_fn U a [reg, v] 2) h = ctrl_out U h (ucast a) 0x610 [reg, v]"
    by (simp add: rtlsdr_i2c_write_fn_def rtlsdr_write_array_def control_out_def Let_def)
  moreover obtain h' where "ctrl_out U h (ucast a) 0x610 [reg, v] = (2, h')"
    "reg \<notin> side \<Longrightarrow> chip h' = (chip h)(reg := v AND NOT (stat reg))"
    using assms unfolding reg_bus_def by (elim conjE) blast
  ultimately show ?thesis using that by simp
qed

lemma reg_bus_read:
  assumes "reg_bus U a chip ptr stat side"
  obtains h1 v h2 where "run_state (rtlsdr_i2c_write_fn U a [reg] 1) h = (1, h1)"
    and "\<And>b. run_state (rtlsdr_i2c_read_fn U a [b] 1) h1 = ((1, [v]), h2)"
    and "chip h2 = chip h" and "v AND NOT (stat reg) = chip h reg"
proof -
  obtain h1 where 1: "ctrl_out U h (ucast a) 0x610 [reg] = (1, h1)" "chip h1 = chip h" "ptr h1 = reg"
    using assms unfolding reg_bus_def by (elim conjE) blast
  obtain v h2 where 2: "ctrl_in U h1 (ucast a) 0x600 1 = (1, [v], h2)" "chip h2 = chip h1"
    "v AND NOT (stat (ptr h1)) = chip h1 (ptr h1)"
    using assms unfolding reg_bus_def by (elim conjE) blast
  have w: "run_state (rtlsdr_i2c_write_fn U a [reg] 1) h = (1, h1)"
    using 1 by (simp add: rtlsdr_i2c_write_fn_def rtlsdr_write_array_def control_out_def Let_def)
  have r: "run_state (rtlsdr_i2c_read_fn U a [b] 1) h1 = ((1, [v]), h2)" for b
    using 2 by (simp add: rtlsdr_i2c_read_fn_def rtlsdr_read_array_def control_in_def Let_def overlay_def)
  from w r show ?thesis by (rule that) (use 1 2 in simp_all)
qed

lemma mask_merge_keep:
  fixes v c m s w :: u8
  assumes "v AND NOT s = c" and "m AND s = 0" and "w AND m = w" and "v AND m = w"
  shows "(c AND NOT m) OR w = c"
proof (rule bit_word_eqI)
  fix n assume "n < LENGTH(8)"
  moreover have "bit (v AND NOT s) n = bit c n" "bit (m AND s) n = bit (0 :: u8) n"
    "bit (w AND m) n = bit w n" "bit (v AND m) n = bit w n"
    using assms by simp_all
  ultimately show "bit ((c AND NOT m) OR w) n = bit c n" by (auto simp: bit_simps)
qed

lemma mask_merge_write:
  fixes v c m s w :: u8
  assumes "v AND NOT s = c" and "m AND s = 0" and "w AND m = w"
  shows "((v AND NOT m) OR (w AND m)) AND NOT s = (c AND NOT m) OR w"
proof (rule bit_word_eqI)
  fix n assume "n < LENGTH(8)"
  moreover have "bit (v AND NOT s) n = bit c n" "bit (m AND s) n = bit (0 :: u8) n"
    "bit (w AND m) n = bit w n"
    using assms by simp_all
  ultimately show "bit (((v AND NOT m) OR (w AND m)) AND NOT s) n = bit ((c AND NOT m) OR w) n"
    by (auto simp: bit_simps)
qed

lemma mask_field: "w AND m = w \<Longrightarrow> ((x AND NOT m) OR w) AND m = (w :: u8)"
proof (rule bit_word_eqI)
  fix n assume "w AND m = w"
  then have "bit (w AND m) n = bit w n" by simp
  then show "bit (((x AND NOT m) OR w) AND m) n = bit w n" by (auto simp: bit_simps)
qed

lemma unat_nibble: "0 \<le> i \<Longrightarrow> i < 16 \<Longrightarrow> unat (word_of_int i :: u8) = nat i"
  by (subst nat_uint_eq [symmetric]) (simp add: uint_word_of_int_eq take_bit_int_eq_self)

lemma nibble_word: "0 \<le> i \<Longrightarrow> i < 16 \<Longrightarrow> word_of_int i AND (0xF :: u8) = word_of_int i"
proof -
  assume "0 \<le> i" "i < 16"
  have "word_of_int i AND (0xF :: u8) = take_bit 4 (word_of_int i)"
    by (simp add: take_bit_eq_mask mask_eq_exp_minus_1)
  also have "\<dots> = word_of_int (take_bit 4 i)"
    by (rule bit_word_eqI) (simp add: bit_simps)
  also have "take_bit 4 i = i" using \<open>0 \<le> i\<close> \<open>i < 16\<close> by (simp add: take_bit_int_eq_self)
  finally show ?thesis .
qed

lemma bit_mask_word: "v AND mask k = (v :: u8) \<Longrightarrow> bit v n \<Longrightarrow> n < k"
  by (metis bit_and_iff bit_mask_iff)

lemma field_in_mask:
  fixes v :: u8
  assumes "v AND mask k = v"
  shows "push_bit sh v AND push_bit sh (mask k) = push_bit sh v"
  by (simp only: push_bit_and [symmetric] assms)

lemma field_get:
  fixes v y :: u8
  assumes "v AND mask k = v" and "sh + k \<le> 8"
  shows "drop_bit sh ((y AND NOT (push_bit sh (mask k))) OR push_bit sh v) AND mask k = v"
proof (rule bit_word_eqI)
  fix n assume "n < LENGTH(8)"
  then show "bit (drop_bit sh ((y AND NOT (push_bit sh (mask k))) OR push_bit sh v) AND mask k) n = bit v n"
    using bit_mask_word [OF assms(1), of n] assms(2) by (auto simp: bit_simps)
qed

lemma index_mask: "i < 2 ^ k \<Longrightarrow> k \<le> 8 \<Longrightarrow> word_of_nat i AND mask k = (word_of_nat i :: u8)"
proof -
  assume "i < 2 ^ k" and "k \<le> 8"
  have "word_of_nat i AND mask k = take_bit k (word_of_nat i :: u8)" by (simp add: take_bit_eq_mask)
  also have "\<dots> = word_of_nat (take_bit k i)" by (simp add: take_bit_of_nat)
  finally show ?thesis using \<open>i < 2 ^ k\<close> by (simp add: take_bit_nat_eq_self)
qed

lemma reg_bus_side:
  "reg_bus U a chip ptr stat side \<Longrightarrow> side \<subseteq> side' \<Longrightarrow> reg_bus U a chip ptr stat side'"
  unfolding reg_bus_def by blast

section \<open>A chip for the witnesses\<close>

text \<open>The device state is the registers and the selected register; every status bit reads 1.\<close>

definition chip_usb :: "(u8 \<Rightarrow> u8) \<Rightarrow> ((u8 \<Rightarrow> u8) \<times> u8) usb_ops" where
  "chip_usb stat =
     \<lparr>ctrl_out = (\<lambda>h a i d. (int (length d),
        case d of [r] \<Rightarrow> (fst h, r) | [r, v] \<Rightarrow> ((fst h)(r := v AND NOT (stat r)), snd h) | _ \<Rightarrow> h)),
      ctrl_in = (\<lambda>h a i n. (int n, replicate n (fst h (snd h) OR stat (snd h)), h)),
      indet = (\<lambda>h n. 0)\<rparr>"

text \<open>The registers as an observer sees them: status bits masked out.\<close>

definition chip_view :: "(u8 \<Rightarrow> u8) \<Rightarrow> (u8 \<Rightarrow> u8) \<times> u8 \<Rightarrow> u8 \<Rightarrow> u8" where
  "chip_view stat h r = fst h r AND NOT (stat r)"

lemma chip_usb_bus: "reg_bus (chip_usb stat) a (chip_view stat) snd stat {}"
proof -
  have "(x OR s) AND NOT s = x AND NOT s" for x s :: u8
    by (rule bit_word_eqI) (auto simp: bit_simps)
  then show ?thesis by (auto simp: reg_bus_def chip_usb_def chip_view_def fun_eq_iff)
qed

lemma chip_usb_ok: "usb_ok (chip_usb stat)"
  by (simp add: usb_ok_def chip_usb_def)

end
