(* ===== verification/E4k_Chip.thy ===== *)
theory E4k_Chip
  imports Tuner_e4k I2c_Chip
begin

unbundle bit_operations_syntax

text \<open>
  The E4000 driver against the registers of the chip: the optimality of the table search, the
  exact PLL arithmetic, and what every register access leaves in the chip. A driver state is
  described by \<open>e4k_at chip a v b f\<close>: I2C address \<open>a\<close>, PLL parameters \<open>v\<close>, band \<open>b\<close>, and registers
  \<open>f\<close>; the lemmas \<open>e4k_at_...\<close> give each operation as a function of \<open>f\<close>.
\<close>

section \<open>The filter tables\<close>

lemma closest_loop_spec:
  "closest_loop cs i freq d bi = bi \<and> (\<forall>c \<in> set cs. d \<le> unsigned_delta freq c) \<or>
   (\<exists>j < length cs. closest_loop cs i freq d bi = i + j \<and> unsigned_delta freq (cs ! j) < d \<and>
     (\<forall>c \<in> set cs. unsigned_delta freq (cs ! j) \<le> unsigned_delta freq c))"
proof (induction cs arbitrary: i d bi)
  case Nil
  then show ?case by simp
next
  case (Cons c cs)
  let ?u = "unsigned_delta freq"
  show ?case
  proof (cases "?u c < d")
    case True
    then have e: "closest_loop (c # cs) i freq d bi = closest_loop cs (i + 1) freq (?u c) i"
      by (simp add: Let_def)
    from Cons.IH [of "i + 1" "?u c" i] show ?thesis
    proof
      assume "closest_loop cs (i + 1) freq (?u c) i = i \<and> (\<forall>c' \<in> set cs. ?u c \<le> ?u c')"
      then show ?thesis using True e by (intro disjI2 exI [of _ 0]) simp
    next
      assume "\<exists>j < length cs. closest_loop cs (i + 1) freq (?u c) i = i + 1 + j \<and> ?u (cs ! j) < ?u c \<and>
        (\<forall>c' \<in> set cs. ?u (cs ! j) \<le> ?u c')"
      then obtain j where "j < length cs" "closest_loop cs (i + 1) freq (?u c) i = i + 1 + j"
        "?u (cs ! j) < ?u c" "\<forall>c' \<in> set cs. ?u (cs ! j) \<le> ?u c'" by blast
      then show ?thesis using True e by (intro disjI2 exI [of _ "Suc j"]) simp
    qed
  next
    case False
    then have e: "closest_loop (c # cs) i freq d bi = closest_loop cs (i + 1) freq d bi"
      by (simp add: Let_def)
    from Cons.IH [of "i + 1" d bi] show ?thesis
    proof
      assume "closest_loop cs (i + 1) freq d bi = bi \<and> (\<forall>c' \<in> set cs. d \<le> ?u c')"
      then show ?thesis using False e by simp
    next
      assume "\<exists>j < length cs. closest_loop cs (i + 1) freq d bi = i + 1 + j \<and> ?u (cs ! j) < d \<and>
        (\<forall>c' \<in> set cs. ?u (cs ! j) \<le> ?u c')"
      then obtain j where "j < length cs" "closest_loop cs (i + 1) freq d bi = i + 1 + j"
        "?u (cs ! j) < d" "\<forall>c' \<in> set cs. ?u (cs ! j) \<le> ?u c'" by blast
      then show ?thesis using False e by (intro disjI2 exI [of _ "Suc j"]) simp
    qed
  qed
qed

lemma closest_arr_idx_best:
  assumes "arr \<noteq> []" and "freq < 0xffffffff" and "\<forall>c \<in> set arr. c < 0xffffffff"
  shows "closest_arr_idx arr freq < length arr \<and>
    (\<forall>c \<in> set arr. unsigned_delta freq (arr ! closest_arr_idx arr freq) \<le> unsigned_delta freq c)"
proof -
  have "unsigned_delta freq c < 0xffffffff" if "c \<in> set arr" for c
    using that assms by (auto simp: unsigned_delta_def)
  moreover obtain c where "c \<in> set arr" using assms(1) by (cases arr) auto
  ultimately have "\<not> (\<forall>c \<in> set arr. 0xffffffff \<le> unsigned_delta freq c)" by force
  then show ?thesis
    using closest_loop_spec [of arr 0 freq "0xffffffff" 0] by (auto simp: closest_arr_idx_def)
qed

section \<open>PLL parameters\<close>

lemma pll_row_range: "pll_row flo pll_vars = (ri, r) \<Longrightarrow> 2 \<le> r \<and> r \<le> 48 \<and> (flo < 2200000000 \<longrightarrow> flo * r < 4800000000)"
  by (auto simp: pll_vars_def split: if_splits)

lemma e4k_pll_exact:
  assumes fosc: "is_fosc_valid fosc" "19000000 \<le> fosc" and flo: "flo < 2200000000"
    and row: "pll_row flo pll_vars = (ri, r)"
  defines "z \<equiv> flo * r div fosc" and "x \<equiv> flo * r mod fosc * 65536 div fosc"
  shows "z < 256" and "x < 65536"
    and "compute_flo fosc z x r = (if fosc * z + fosc * x div 65536 = 0 then 2 ^ 32 - 22
      else (fosc * z + fosc * x div 65536) div r)"
    and "e4k_compute_pll_params oscp fosc flo = (compute_flo fosc z x r, \<lparr>p_fosc = fosc, p_intended_flo = flo,
      p_flo = compute_flo fosc z x r, p_x = x, p_z = z, p_r = r, p_r_idx = ri, p_threephase = (ri AND 0x08 \<noteq> 0)\<rparr>)"
proof -
  have f: "0 < fosc" "fosc \<le> 30000000" using fosc by (auto simp: is_fosc_valid_def)
  have fv: "flo * r < 4800000000" and r: "2 \<le> r" using pll_row_range [OF row] flo by auto
  have "flo * r < 256 * fosc" using fv fosc(2) by linarith
  then show z: "z < 256" unfolding z_def by (rule less_mult_imp_div_less)
  have m: "flo * r mod fosc < fosc" using f by simp
  then have "flo * r mod fosc * 65536 < 65536 * fosc" by simp
  then show x: "x < 65536" unfolding x_def by (rule less_mult_imp_div_less)
  have fz: "fosc * z \<le> flo * r" unfolding z_def by simp
  have "fosc * x \<le> 30000000 * 65536" using f x by (intro mult_mono) auto
  then have fx: "fosc * x < 2 ^ 64" "fosc * x div 65536 \<le> 30000000" by auto
  have fvco: "compute_fvco fosc z x = fosc * z + fosc * x div 65536"
    unfolding compute_fvco_def Let_def using fz fv fx by simp
  have "(fosc * z + fosc * x div 65536) div r \<le> (fosc * z + fosc * x div 65536) div 2"
    using r by (intro div_le_mono2) auto
  also have "\<dots> < 2 ^ 32" using fz fv fx by simp
  finally have "(fosc * z + fosc * x div 65536) div r mod 2 ^ 32 = (fosc * z + fosc * x div 65536) div r"
    by (rule mod_less)
  then show cf: "compute_flo fosc z x r = (if fosc * z + fosc * x div 65536 = 0 then 2 ^ 32 - 22
      else (fosc * z + fosc * x div 65536) div r)"
    unfolding compute_flo_def Let_def using z x fvco by (simp del: mult_eq_0_iff)
  have "flo * r = fosc * z + flo * r mod fosc" by (simp add: z_def)
  then have sub: "(flo * r + 2 ^ 64 - fosc * z mod 2 ^ 64) mod 2 ^ 64 = flo * r mod fosc"
  proof -
    have "fosc * z mod 2 ^ 64 = fosc * z" using fz fv by simp
    moreover have "flo * r + 2 ^ 64 - fosc * z = flo * r mod fosc + 2 ^ 64"
      using \<open>flo * r = fosc * z + flo * r mod fosc\<close> by linarith
    moreover have "flo * r mod fosc < 2 ^ 64" by (rule less_le_trans [OF m]) (use f in simp)
    ultimately show ?thesis by simp
  qed
  have "flo * r mod 2 ^ 64 = flo * r" using fv by simp
  moreover have "flo * r mod fosc * 65536 mod 2 ^ 64 = flo * r mod fosc * 65536"
    by (rule mod_less, rule less_le_trans [OF \<open>flo * r mod fosc * 65536 < 65536 * fosc\<close>]) (use f in simp)
  moreover have "x mod 2 ^ 32 = x" "x mod 2 ^ 16 = x" "z mod 2 ^ 8 = z" using x z by simp_all
  ultimately show "e4k_compute_pll_params oscp fosc flo = (compute_flo fosc z x r, \<lparr>p_fosc = fosc, p_intended_flo = flo,
      p_flo = compute_flo fosc z x r, p_x = x, p_z = z, p_r = r, p_r_idx = ri, p_threephase = (ri AND 0x08 \<noteq> 0)\<rparr>)"
    unfolding e4k_compute_pll_params_def row prod.case Let_def using fosc(1) sub
    by (simp only: x_def [symmetric] z_def [symmetric] not_True_eq_False if_False)
qed

lemma e4k_pll_error:
  fixes fosc fv :: nat
  assumes "0 < fosc"
  defines "z \<equiv> fv div fosc" and "x \<equiv> fv mod fosc * 65536 div fosc"
  shows "fosc * (65536 * z + x) \<le> 65536 * fv" and "65536 * fv < fosc * (65536 * z + x) + fosc"
proof -
  have "fosc * x \<le> fv mod fosc * 65536" "fv mod fosc * 65536 < fosc * x + fosc"
    unfolding x_def using dividend_less_times_div [OF assms(1), of "fv mod fosc * 65536"] by simp_all
  moreover have "65536 * fv = 65536 * (fosc * z) + 65536 * (fv mod fosc)"
    unfolding z_def by (simp flip: distrib_left)
  ultimately show "fosc * (65536 * z + x) \<le> 65536 * fv" "65536 * fv < fosc * (65536 * z + x) + fosc"
    by (simp_all add: distrib_left)
qed

lemma e4k_flo_close:
  fixes fosc fv :: nat
  assumes "0 < fosc" "fosc \<le> 30000000" and "fv = flo * r" and "2 \<le> r"
  defines "z \<equiv> fv div fosc" and "x \<equiv> fv mod fosc * 65536 div fosc"
  shows "(fosc * z + fosc * x div 65536) div r \<le> flo" and "flo < (fosc * z + fosc * x div 65536) div r + 231"
proof -
  let ?f = "fosc * z + fosc * x div 65536"
  note e = e4k_pll_error [OF assms(1), of fv, folded z_def x_def]
  have d: "65536 * (fosc * x div 65536) \<le> fosc * x" "fosc * x < 65536 * (fosc * x div 65536) + 65536"
    using mult_div_mod_eq [of 65536 "fosc * x"] mod_less_divisor [of 65536 "fosc * x"] by linarith+
  have "?f \<le> fv" and near: "fv < ?f + 459"
    using e d assms(2) by (simp_all add: distrib_left)
  then have "?f div r \<le> fv div r" by (intro div_le_mono)
  then show "?f div r \<le> flo" using assms(3,4) by simp
  have "?f < r * (?f div r) + r" using dividend_less_times_div [of r ?f] assms(4) by simp
  then have "flo * r < r * (?f div r) + r + 459" using near assms(3) by linarith
  then have "(flo - ?f div r) * r < r + 459" by (simp add: diff_mult_distrib algebra_simps)
  show "flo < ?f div r + 231"
  proof (rule ccontr)
    assume "\<not> ?thesis"
    then have "231 \<le> flo - ?f div r" by simp
    then have "231 * r \<le> (flo - ?f div r) * r" by (rule mult_le_mono1)
    then show False using \<open>(flo - ?f div r) * r < r + 459\<close> assms(4) by linarith
  qed
qed

section \<open>Register accesses\<close>

text \<open>
  The only status bit the driver reads is the PLL lock flag in SYNTH1; writing MASTER1
  (reset) and DC1 (calibration) changes other registers too.
\<close>

definition e4k_stat :: "u8 \<Rightarrow> u8" where
  "e4k_stat r = (if r = E4K_REG_SYNTH1 then 0x01 else 0)"

abbreviation e4k_bus :: "'h usb_ops \<Rightarrow> u8 \<Rightarrow> ('h \<Rightarrow> u8 \<Rightarrow> u8) \<Rightarrow> ('h \<Rightarrow> u8) \<Rightarrow> bool" where
  "e4k_bus U a chip ptr \<equiv> reg_bus U a chip ptr e4k_stat {E4K_REG_MASTER1, E4K_REG_DC1}"

definition e4k_at ::
  "('h \<Rightarrow> u8 \<Rightarrow> u8) \<Rightarrow> u8 \<Rightarrow> e4k_pll_params \<Rightarrow> e4k_band \<Rightarrow> (u8 \<Rightarrow> u8) \<Rightarrow> 'h e4k \<Rightarrow> bool" where
  "e4k_at chip a v b f s \<longleftrightarrow> e_i2c_addr s = a \<and> e_vco s = v \<and> e_band s = b \<and> chip (e_hw s) = f"

lemma e4k_at_write:
  assumes bus: "e4k_bus U a chip ptr" and "reg \<notin> {E4K_REG_MASTER1, E4K_REG_DC1}"
  shows "yields (e4k_at chip a v b f) (e4k_reg_write U reg w) 0
    (e4k_at chip a v b (f(reg := w AND NOT (e4k_stat reg))))"
proof (rule yieldsI)
  fix s assume at: "e4k_at chip a v b f s"
  obtain h' where h: "run_state (rtlsdr_i2c_write_fn U a [reg, w] 2) (e_hw s) = (2, h')"
    "chip h' = (chip (e_hw s))(reg := w AND NOT (e4k_stat reg))"
    using reg_bus_write [OF bus, of reg w "e_hw s"] assms(2) by auto
  have "run_state (e4k_reg_write U reg w) s = (0, s\<lparr>e_hw := h'\<rparr>)"
    using at h(1) by (simp add: e4k_at_def e4k_reg_write_def e_io_def)
  then show "\<exists>s'. run_state (e4k_reg_write U reg w) s = (0, s') \<and>
      e4k_at chip a v b (f(reg := w AND NOT (e4k_stat reg))) s'"
    using at h(2) by (simp add: e4k_at_def)
qed

lemma e4k_read_run:
  assumes bus: "e4k_bus U a chip ptr" and at: "e4k_at chip a v b f s"
  obtains x s' where "run_state (e4k_reg_read U reg) s = (uint x, s')"
    and "e4k_at chip a v b f s'" and "x AND NOT (e4k_stat reg) = f reg"
proof -
  obtain h1 x h2 where 1: "run_state (rtlsdr_i2c_write_fn U a [reg] 1) (e_hw s) = (1, h1)"
    and 2: "\<And>b. run_state (rtlsdr_i2c_read_fn U a [b] 1) h1 = ((1, [x]), h2)"
    and h2: "chip h2 = chip (e_hw s)" "x AND NOT (e4k_stat reg) = chip (e_hw s) reg"
    using reg_bus_read [OF bus, of reg "e_hw s"] by blast
  have "run_state (e4k_reg_read U reg) s = (uint x, s\<lparr>e_hw := h2\<rparr>)"
    using 1 2 at by (simp add: e4k_at_def e4k_reg_read_def e_io_def)
  then show ?thesis by (rule that) (use at h2 in \<open>simp_all add: e4k_at_def\<close>)
qed

lemma e4k_at_set_mask:
  assumes bus: "e4k_bus U a chip ptr" and reg: "reg \<notin> {E4K_REG_MASTER1, E4K_REG_DC1}"
    and "m AND e4k_stat reg = 0" and "w AND m = w"
  shows "yields (e4k_at chip a v b f) (e4k_reg_set_mask U reg m w) 0
    (e4k_at chip a v b (f(reg := (f reg AND NOT m) OR w)))"
proof (rule yieldsI)
  fix s assume at: "e4k_at chip a v b f s"
  obtain x s1 where r: "run_state (e4k_reg_read U reg) s = (uint x, s1)" and at1: "e4k_at chip a v b f s1"
    and c: "x AND NOT (e4k_stat reg) = f reg"
    using e4k_read_run [OF bus at, of reg] by blast
  show "\<exists>s'. run_state (e4k_reg_set_mask U reg m w) s = (0, s') \<and>
      e4k_at chip a v b (f(reg := (f reg AND NOT m) OR w)) s'"
  proof (cases "x AND m = w")
    case True
    then show ?thesis
      using r at1 mask_merge_keep [OF c assms(3,4) True] by (simp add: e4k_reg_set_mask_def)
  next
    case False
    let ?w = "(x AND NOT m) OR (w AND m)"
    have "yields (e4k_at chip a v b f) (e4k_reg_write U reg ?w) 0
        (e4k_at chip a v b (f(reg := (f reg AND NOT m) OR w)))"
      using e4k_at_write [OF bus reg, of v b f ?w] mask_merge_write [OF c assms(3,4)] by simp
    from yieldsD [OF this at1] show ?thesis
      using r False by (simp add: e4k_reg_set_mask_def) (metis prod.collapse)
  qed
qed

lemma e4k_at_band:
  assumes bus: "e4k_bus U a chip ptr"
  shows "yields (e4k_at chip a v b f) (e4k_band_set U band) 0
    (e4k_at chip a v band (f(E4K_REG_BIAS := if band = E4K_BAND_L then 0 else 3,
      E4K_REG_SYNTH1 := (f E4K_REG_SYNTH1 AND NOT 0x06) OR push_bit 1 (band_code band))))"
proof -
  let ?b = "if band = E4K_BAND_L then 0 else (3 :: u8)"
  have b: "(case band of E4K_BAND_L \<Rightarrow> e4k_reg_write U E4K_REG_BIAS 0
           | _ \<Rightarrow> e4k_reg_write U E4K_REG_BIAS 3) = e4k_reg_write U E4K_REG_BIAS ?b"
    by (cases band) simp_all
  have c: "push_bit 1 (band_code band) AND 6 = push_bit 1 (band_code band)" by (cases band) simp_all
  let ?c = "push_bit 1 (band_code band)"
  let ?f1 = "f(0x78 := ?b)"
  have m1: "yields (e4k_at chip a v b f) (e4k_reg_write U 0x78 ?b) 0 (e4k_at chip a v b ?f1)"
    using e4k_at_write [OF bus, of "0x78" v b f ?b] by (simp add: e4k_stat_def split del: if_split)
  have m2: "yields (e4k_at chip a v b ?f1) (e4k_reg_set_mask U 7 6 0) 0
      (e4k_at chip a v b (?f1(7 := f 7 AND NOT 6)))" (is "yields _ _ _ (e4k_at _ _ _ _ ?f2)")
    using e4k_at_set_mask [OF bus, of 7 6 0 v b ?f1] by (simp add: e4k_stat_def split del: if_split)
  have m3: "yields (e4k_at chip a v b ?f2) (e4k_reg_set_mask U 7 6 ?c) 0
      (e4k_at chip a v b (?f2(7 := (f 7 AND NOT 6) OR ?c)))" (is "yields _ _ _ (e4k_at _ _ _ _ ?f3)")
    using e4k_at_set_mask [OF bus _ _ c, of 7 v b ?f2]
    by (simp add: e4k_stat_def and.assoc split del: if_split)
  have m4: "yields (e4k_at chip a v b ?f3)
      (if 0 \<le> (0::int) then do { _ \<leftarrow> modify (\<lambda>s. s\<lparr>e_band := band\<rparr>); ret 0 } else ret 0) 0
      (e4k_at chip a v band (f(0x78 := ?b, 7 := (f 7 AND NOT 6) OR ?c)))"
    by (simp add: yields_def e4k_at_def)
  show ?thesis
    unfolding e4k_band_set_def b
    by (rule yields_bind, rule m1, rule yields_bind, rule m2, rule yields_bind, rule m3, rule m4)
qed


definition e4k_tuned :: "e4k_pll_params \<Rightarrow> (u8 \<Rightarrow> u8) \<Rightarrow> u8 \<Rightarrow> u8" where
  "e4k_tuned p f =
     (let band = band_of_flo (p_flo p) in
      f(E4K_REG_SYNTH7 := p_r_idx p, E4K_REG_SYNTH3 := of_nat (p_z p),
        E4K_REG_SYNTH4 := of_nat (p_x p mod 2 ^ 8), E4K_REG_SYNTH5 := of_nat (p_x p div 2 ^ 8),
        E4K_REG_BIAS := if band = E4K_BAND_L then 0 else 3,
        E4K_REG_SYNTH1 := (f E4K_REG_SYNTH1 AND NOT 0x06) OR push_bit 1 (band_code band),
        E4K_REG_FILT1 := (f E4K_REG_FILT1 AND NOT 0xF) OR word_of_int (choose_rf_filter band (p_flo p))))"

lemma choose_rf_filter_range: "freq < 0xffffffff \<Longrightarrow> 0 \<le> choose_rf_filter b freq \<and> choose_rf_filter b freq < 16"
  using closest_arr_idx_best [of rf_filt_center_uhf freq] closest_arr_idx_best [of rf_filt_center_l freq]
  by (cases b) (auto simp: rf_filt_center_uhf_def rf_filt_center_l_def)

lemma e4k_at_rf_filter:
  assumes bus: "e4k_bus U a chip ptr" and "p_flo v < 0xffffffff"
  shows "yields (e4k_at chip a v b f) (e4k_rf_filter_set U) 0
    (e4k_at chip a v b (f(E4K_REG_FILT1 := (f E4K_REG_FILT1 AND NOT 0xF) OR word_of_int (choose_rf_filter b (p_flo v)))))"
proof -
  note r = choose_rf_filter_range [OF assms(2), of b]
  have "yields (e4k_at chip a v b f) (gets (\<lambda>s. choose_rf_filter (e_band s) (p_flo (e_vco s))))
      (choose_rf_filter b (p_flo v)) (e4k_at chip a v b f)"
    by (rule yields_gets) (simp add: e4k_at_def)
  moreover have "yields (e4k_at chip a v b f)
      (e4k_reg_set_mask U E4K_REG_FILT1 0xF (word_of_int (choose_rf_filter b (p_flo v)))) 0
      (e4k_at chip a v b (f(E4K_REG_FILT1 := (f E4K_REG_FILT1 AND NOT 0xF) OR word_of_int (choose_rf_filter b (p_flo v)))))"
    by (rule e4k_at_set_mask [OF bus]) (use r nibble_word in \<open>simp_all add: e4k_stat_def\<close>)
  ultimately show ?thesis
    unfolding e4k_rf_filter_set_def using r by (auto intro!: yields_bind)
qed

lemma e4k_at_tune_params:
  assumes bus: "e4k_bus U a chip ptr" and "p_flo p < 0xffffffff"
  shows "yields (e4k_at chip a v b f) (e4k_tune_params U p) (to_int32 (int (p_flo p)))
    (e4k_at chip a p (band_of_flo (p_flo p)) (e4k_tuned p f))"
proof -
  let ?B = "band_of_flo (p_flo p)"
  have w: "yields (e4k_at chip a v b f) (e4k_reg_write U reg x) 0 (e4k_at chip a v b (f(reg := x)))"
    if "reg \<notin> {0, 0x29, 7}" for v b f reg x
    using e4k_at_write [OF bus, of reg v b f x] that by (simp add: e4k_stat_def)
  let ?f = "f(0x0d := p_r_idx p, 0x09 := of_nat (p_z p), 0x0a := of_nat (p_x p mod 2 ^ 8),
    0x0b := of_nat (p_x p div 2 ^ 8))"
  have vco: "yields (e4k_at chip a v b ?f) (modify (\<lambda>s. s\<lparr>e_vco := p\<rparr>)) () (e4k_at chip a p b ?f)"
    by (rule yields_modify) (simp add: e4k_at_def)
  have last: "yields (e4k_at chip a p ?B g) (gets (\<lambda>s. to_int32 (int (p_flo (e_vco s))))) (to_int32 (int (p_flo p)))
      (e4k_at chip a p ?B g)" for g
    by (rule yields_gets) (simp add: e4k_at_def)
  have "yields (e4k_at chip a v b f) (e4k_tune_params U p) (to_int32 (int (p_flo p)))
    (e4k_at chip a p ?B (?f(0x78 := if ?B = E4K_BAND_L then 0 else 3,
      7 := (?f 7 AND NOT 6) OR push_bit 1 (band_code ?B),
      0x10 := ((?f(0x78 := if ?B = E4K_BAND_L then 0 else 3,
      7 := (?f 7 AND NOT 6) OR push_bit 1 (band_code ?B))) 0x10 AND NOT 0xF) OR word_of_int (choose_rf_filter ?B (p_flo p)))))"
    unfolding e4k_tune_params_def
    by (rule yields_bind, rule w, simp, rule yields_bind, rule w, simp, rule yields_bind, rule w, simp,
        rule yields_bind, rule w, simp, rule yields_bind, rule vco, rule yields_bind, rule e4k_at_band [OF bus],
        rule yields_bind, rule e4k_at_rf_filter [OF bus assms(2)], rule last)
  then show ?thesis by (simp add: e4k_tuned_def Let_def split del: if_split)
qed

section \<open>Tuning\<close>

definition chip_z :: "(u8 \<Rightarrow> u8) \<Rightarrow> nat" where
  "chip_z g = unat (g E4K_REG_SYNTH3)"

definition chip_x :: "(u8 \<Rightarrow> u8) \<Rightarrow> nat" where
  "chip_x g = 256 * unat (g E4K_REG_SYNTH5) + unat (g E4K_REG_SYNTH4)"

lemma e4k_flo_of:
  assumes fosc: "is_fosc_valid fosc" "19000000 \<le> fosc" and freq: "1000 \<le> freq" "freq < 2200000000"
    and row: "pll_row freq pll_vars = (ri, r)"
  obtains p where "e4k_compute_pll_params oscp fosc freq = (p_flo p, p)" and "p_fosc p = fosc" and "p_r_idx p = ri"
    and "p_z p < 256" and "p_x p < 65536"
    and "p_flo p \<le> freq" and "freq < p_flo p + 231"
    and "fosc * (65536 * p_z p + p_x p) \<le> 65536 * (freq * r)"
    and "65536 * (freq * r) < fosc * (65536 * p_z p + p_x p) + fosc"
proof -
  note ex = e4k_pll_exact(1-3) [OF fosc freq(2) row] e4k_pll_exact(4) [OF fosc freq(2) row, of oscp]
  have f: "0 < fosc" "fosc \<le> 30000000" using fosc by (auto simp: is_fosc_valid_def)
  have r: "2 \<le> r" using pll_row_range [OF row] by simp
  note er = e4k_pll_error [OF f(1), of "freq * r"] and cl = e4k_flo_close [OF f refl r, where flo = freq]
  let ?z = "freq * r div fosc" and ?x = "freq * r mod fosc * 65536 div fosc"
  have "0 < (fosc * ?z + fosc * ?x div 65536) div r" using cl freq(1) by linarith
  then have "fosc * ?z + fosc * ?x div 65536 \<noteq> 0" by (metis div_0 less_irrefl)
  with ex(3) have fl: "compute_flo fosc ?z ?x r = (fosc * ?z + fosc * ?x div 65536) div r"
    by (simp only: if_False)
  show ?thesis
    by (rule that [of "snd (e4k_compute_pll_params oscp fosc freq)"])
      (use ex er cl fl in \<open>simp_all del: mult_eq_0_iff\<close>)
qed

lemma e4k_tune_freq_run:
  assumes bus: "e4k_bus U a chip ptr" and at: "e4k_at chip a v b f s"
    and c: "e4k_compute_pll_params oscp (p_fosc v) freq = (p_flo p, p)" and p: "0 < p_flo p" "p_flo p < 0xffffffff"
  shows "e4k_at chip a p (band_of_flo (p_flo p)) (e4k_tuned p f) (snd (run_state (e4k_tune_freq U oscp freq) s))"
proof -
  have v: "p_fosc (e_vco s) = p_fosc v" using at by (simp add: e4k_at_def)
  obtain s1 where 1: "run_state (e4k_tune_params U p) s = (to_int32 (int (p_flo p)), s1)"
    "e4k_at chip a p (band_of_flo (p_flo p)) (e4k_tuned p f) s1"
    using yieldsD [OF e4k_at_tune_params [OF bus p(2)] at] by (metis prod.collapse)
  obtain x s2 where 2: "run_state (e4k_reg_read U E4K_REG_SYNTH1) s1 = (uint x, s2)"
    "e4k_at chip a p (band_of_flo (p_flo p)) (e4k_tuned p f) s2"
    "x AND NOT (e4k_stat 7) = e4k_tuned p f 7"
    by (rule e4k_read_run [OF bus 1(2)])
  show ?thesis using v c p 1 2 by (simp add: e4k_tune_freq_def)
qed

lemma e4k_tune_state:
  assumes bus: "e4k_bus U a chip ptr" and addr: "e_i2c_addr s = a"
    and fosc: "fosc = p_fosc (e_vco s)" "19000000 \<le> fosc" "fosc \<le> 30000000"
    and freq: "1000 \<le> freq" "freq < 2200000000"
    and s': "s' = snd (run_state (e4k_tune_freq U oscp freq) s)" and g: "g = chip (e_hw s')"
  shows "\<exists>r. pll_row freq pll_vars = (g E4K_REG_SYNTH7, r) \<and>
      fosc * (65536 * chip_z g + chip_x g) \<le> 65536 * (freq * r) \<and>
      65536 * (freq * r) < fosc * (65536 * chip_z g + chip_x g) + fosc"
    and "p_flo (e_vco s') \<le> freq \<and> freq < p_flo (e_vco s') + 231"
    and "e_band s' = band_of_flo (p_flo (e_vco s')) \<and> g E4K_REG_SYNTH1 AND 0x06 = push_bit 1 (band_code (e_band s')) \<and>
      int (unat (g E4K_REG_FILT1 AND 0xF)) = choose_rf_filter (e_band s') (p_flo (e_vco s'))"
proof -
  obtain ri r where row: "pll_row freq pll_vars = (ri, r)" by force
  have "is_fosc_valid fosc" using fosc by (simp add: is_fosc_valid_def)
  from e4k_flo_of [OF this fosc(2) freq row, of oscp]
  obtain p where c: "e4k_compute_pll_params oscp fosc freq = (p_flo p, p)" and p: "p_r_idx p = ri"
    "p_z p < 256" "p_x p < 65536" "p_flo p \<le> freq" "freq < p_flo p + 231"
    "fosc * (65536 * p_z p + p_x p) \<le> 65536 * (freq * r)"
    "65536 * (freq * r) < fosc * (65536 * p_z p + p_x p) + fosc" by blast
  have at: "e4k_at chip a (e_vco s) (e_band s) (chip (e_hw s)) s" using addr by (simp add: e4k_at_def)
  have p0: "0 < p_flo p" "p_flo p < 0xffffffff" using p freq by linarith+
  have at': "e4k_at chip a p (band_of_flo (p_flo p)) (e4k_tuned p (chip (e_hw s))) s'"
    unfolding s' by (rule e4k_tune_freq_run [OF bus at _ p0]) (use c fosc(1) in simp)
  then have g': "g = e4k_tuned p (chip (e_hw s))" and v: "e_vco s' = p" and b: "e_band s' = band_of_flo (p_flo p)"
    by (simp_all add: e4k_at_def g)
  have "p_x p div 256 < 256" using p(3) by (simp add: less_mult_imp_div_less)
  then have "chip_z g = p_z p" "chip_x g = p_x p" "g E4K_REG_SYNTH7 = ri"
    using p(1,2) by (simp_all add: g' e4k_tuned_def Let_def chip_z_def chip_x_def unat_of_nat)
  then show "\<exists>r. pll_row freq pll_vars = (g E4K_REG_SYNTH7, r) \<and>
      fosc * (65536 * chip_z g + chip_x g) \<le> 65536 * (freq * r) \<and>
      65536 * (freq * r) < fosc * (65536 * chip_z g + chip_x g) + fosc"
    using row p by simp
  show "p_flo (e_vco s') \<le> freq \<and> freq < p_flo (e_vco s') + 231" using p v by simp
  show "e_band s' = band_of_flo (p_flo (e_vco s')) \<and> g E4K_REG_SYNTH1 AND 0x06 = push_bit 1 (band_code (e_band s')) \<and>
      int (unat (g E4K_REG_FILT1 AND 0xF)) = choose_rf_filter (e_band s') (p_flo (e_vco s'))"
  proof -
    have c: "push_bit 1 (band_code (e_band s')) AND 6 = push_bit 1 (band_code (e_band s'))"
      by (cases "e_band s'") simp_all
    note cr = choose_rf_filter_range [OF p0(2), of "e_band s'"]
    have "unat (word_of_int (choose_rf_filter (e_band s') (p_flo p)) :: u8) = nat (choose_rf_filter (e_band s') (p_flo p))"
      using cr by (simp add: unat_nibble)
    then show ?thesis
      using b v mask_field [OF c] mask_field [OF nibble_word [OF cr [THEN conjunct1] cr [THEN conjunct2]]] cr
      by (simp add: g' e4k_tuned_def Let_def)
  qed
qed

section \<open>Register fields\<close>

lemma width2mask_mask: "k \<le> 8 \<Longrightarrow> width2mask ! k = mask k"
proof -
  have "\<forall>k \<in> set [0..<9]. width2mask ! k = mask k" by code_simp
  then show "k \<le> 8 \<Longrightarrow> width2mask ! k = mask k" by simp
qed

definition field_ok :: "reg_field \<Rightarrow> bool" where
  "field_ok fl \<longleftrightarrow> f_reg fl \<notin> {E4K_REG_MASTER1, E4K_REG_DC1, E4K_REG_SYNTH1} \<and> f_shift fl + f_width fl \<le> 8"

definition put_field :: "reg_field \<Rightarrow> u8 \<Rightarrow> (u8 \<Rightarrow> u8) \<Rightarrow> u8 \<Rightarrow> u8" where
  "put_field fl v f = f(f_reg fl := (f (f_reg fl) AND NOT (field_mask fl)) OR push_bit (f_shift fl) v)"

definition get_field :: "reg_field \<Rightarrow> (u8 \<Rightarrow> u8) \<Rightarrow> u8" where
  "get_field fl f = drop_bit (f_shift fl) (f (f_reg fl)) AND mask (f_width fl)"

lemma field_mask_eq: "field_ok fl \<Longrightarrow> field_mask fl = push_bit (f_shift fl) (mask (f_width fl))"
  by (simp add: field_ok_def field_mask_def width2mask_mask)

lemma get_put_field:
  assumes "field_ok fl" and "v AND mask (f_width fl) = v"
  shows "get_field fl (put_field fl v f) = v"
proof -
  have "f_shift fl + f_width fl \<le> 8" using assms(1) by (simp add: field_ok_def)
  from field_get [OF assms(2) this] show ?thesis
    by (simp only: get_field_def put_field_def field_mask_eq [OF assms(1)] fun_upd_same)
qed

lemma e4k_at_field_mask:
  assumes bus: "e4k_bus U a chip ptr" and ok: "field_ok fl" and v: "w AND mask (f_width fl) = w"
  shows "yields (e4k_at chip a v b f)
    (e4k_reg_set_mask U (f_reg fl) (field_mask fl) (push_bit (f_shift fl) w)) 0
    (e4k_at chip a v b (put_field fl w f))"
  unfolding put_field_def
  by (rule e4k_at_set_mask [OF bus])
    (use ok field_in_mask [OF v, of "f_shift fl"] in \<open>auto simp: field_ok_def e4k_stat_def field_mask_eq\<close>)

lemma e4k_at_field_write:
  assumes bus: "e4k_bus U a chip ptr" and ok: "field_ok fl" and v: "w AND mask (f_width fl) = w"
  shows "yields (e4k_at chip a v b f) (e4k_field_write U fl w) 0 (e4k_at chip a v b (put_field fl w f))"
proof (rule yieldsI)
  fix s assume at: "e4k_at chip a v b f s"
  obtain x s1 where 1: "run_state (e4k_reg_read U (f_reg fl)) s = (uint x, s1)" "e4k_at chip a v b f s1"
    "x AND NOT (e4k_stat (f_reg fl)) = f (f_reg fl)" by (rule e4k_read_run [OF bus at])
  from yieldsD [OF e4k_at_field_mask [OF assms] 1(2)] 1(1)
  show "\<exists>s'. run_state (e4k_field_write U fl w) s = (0, s') \<and> e4k_at chip a v b (put_field fl w f) s'"
    by (simp add: e4k_field_write_def) (metis prod.collapse)
qed

lemma e4k_at_field_read:
  assumes bus: "e4k_bus U a chip ptr" and ok: "field_ok fl"
  shows "yields (e4k_at chip a v b f) (e4k_field_read U fl) (uint (get_field fl f)) (e4k_at chip a v b f)"
proof (rule yieldsI)
  fix s assume at: "e4k_at chip a v b f s"
  obtain x s1 where 1: "run_state (e4k_reg_read U (f_reg fl)) s = (uint x, s1)" "e4k_at chip a v b f s1"
    "x AND NOT (e4k_stat (f_reg fl)) = f (f_reg fl)" by (rule e4k_read_run [OF bus at])
  have "x = f (f_reg fl)" using 1(3) ok by (simp add: field_ok_def e4k_stat_def)
  moreover have "drop_bit n (uint x) AND uint y = uint (drop_bit n x AND y)" for n and y :: u8
    by (rule bit_eqI) (auto simp: bit_simps dest: bit_imp_le_length)
  ultimately show "\<exists>s'. run_state (e4k_field_read U fl) s = (uint (get_field fl f), s') \<and> e4k_at chip a v b f s'"
    using 1 ok by (simp add: e4k_field_read_def get_field_def field_ok_def width2mask_mask)
qed

lemma if_filter_fields_ok: "filt < 3 \<Longrightarrow> field_ok (if_filter_fields ! filt)"
  by (auto simp: less_Suc_eq numeral_3_eq_3 if_filter_fields_def field_ok_def)

lemma if_filter_index:
  assumes "filt < 3" and "bw < 0xffffffff"
  defines "i \<equiv> closest_arr_idx (if_filter_bw ! filt) bw"
  shows "i < 2 ^ f_width (if_filter_fields ! filt)" and "i < length (if_filter_bw ! filt)"
    and "c \<in> set (if_filter_bw ! filt) \<Longrightarrow> unsigned_delta bw (if_filter_bw ! filt ! i) \<le> unsigned_delta bw c"
proof -
  have l: "length (if_filter_bw ! filt) = 2 ^ f_width (if_filter_fields ! filt)"
    and ne: "if_filter_bw ! filt \<noteq> []" and lt: "\<forall>c \<in> set (if_filter_bw ! filt). c < 0xffffffff"
    using assms(1) by (auto simp: less_Suc_eq numeral_3_eq_3 if_filter_bw_def if_filter_fields_def
        mix_filter_bw_def ifch_filter_bw_def ifrc_filter_bw_def)
  note b = closest_arr_idx_best [OF ne assms(2) lt, folded i_def]
  show "i < length (if_filter_bw ! filt)" "i < 2 ^ f_width (if_filter_fields ! filt)" using b l by auto
  show "c \<in> set (if_filter_bw ! filt) \<Longrightarrow> unsigned_delta bw (if_filter_bw ! filt ! i) \<le> unsigned_delta bw c"
    using b by blast
qed

lemma e4k_if_filter_set_get:
  assumes bus: "e4k_bus U a chip ptr" and addr: "e_i2c_addr s = a" and filt: "filt < 3" and bw: "bw < 0xffffffff"
    and s1: "s1 = snd (run_state (e4k_if_filter_bw_set U filt bw) s)"
    and res: "res = fst (run_state (e4k_if_filter_bw_get U filt) s1)"
  shows "fst (run_state (e4k_if_filter_bw_set U filt bw) s) = 0"
    and "nat res \<in> set (if_filter_bw ! filt) \<and> 0 \<le> res \<and> (\<forall>c \<in> set (if_filter_bw ! filt). unsigned_delta bw (nat res) \<le> unsigned_delta bw c)"
proof -
  let ?fl = "if_filter_fields ! filt" and ?i = "closest_arr_idx (if_filter_bw ! filt) bw"
  note ix = if_filter_index [OF filt bw] and ok = if_filter_fields_ok [OF filt]
  have k: "f_width ?fl \<le> 8" using ok by (simp add: field_ok_def)
  have len: "\<not> filt \<ge> length if_filter_bw" using filt by (simp add: if_filter_bw_def)
  have m: "word_of_nat ?i AND mask (f_width ?fl) = (word_of_nat ?i :: u8)" by (rule index_mask [OF ix(1) k])
  have at: "e4k_at chip a (e_vco s) (e_band s) (chip (e_hw s)) s" using addr by (simp add: e4k_at_def)
  have set: "e4k_if_filter_bw_set U filt bw = e4k_field_write U ?fl (word_of_nat ?i)"
    using len by (simp add: e4k_if_filter_bw_set_def find_if_bw_def)
  note y = yieldsD [OF e4k_at_field_write [OF bus ok m] at]
  then show "fst (run_state (e4k_if_filter_bw_set U filt bw) s) = 0" by (simp add: set)
  have at1: "e4k_at chip a (e_vco s) (e_band s) (put_field ?fl (word_of_nat ?i) (chip (e_hw s))) s1"
    using y by (simp add: s1 set)
  have "2 ^ f_width ?fl \<le> (2 ^ 8 :: nat)" using k by (intro power_increasing) auto
  then have "unat (word_of_nat ?i :: u8) = ?i" using ix(1) by (simp add: unat_of_nat)
  then have rd: "fst (run_state (e4k_field_read U ?fl) s1) = int ?i"
    using yieldsD [OF e4k_at_field_read [OF bus ok] at1] by (simp add: get_put_field [OF ok m] uint_nat)
  have "res = int (if_filter_bw ! filt ! ?i)"
    using rd len by (cases "run_state (e4k_field_read U ?fl) s1") (simp add: res e4k_if_filter_bw_get_def)
  then show "nat res \<in> set (if_filter_bw ! filt) \<and> 0 \<le> res \<and> (\<forall>c \<in> set (if_filter_bw ! filt). unsigned_delta bw (nat res) \<le> unsigned_delta bw c)"
    using ix(2,3) by simp
qed

end
