(* ===== verification/E4k_Correct.thy ===== *)
theory E4k_Correct
  imports E4k_Chip
begin

unbundle bit_operations_syntax

text \<open>
  The properties of the E4000 driver (src/src/tuner_e4k.c): accurate tuning with the right band
  and RF filter, the nearest IF filter and its read-back, the IF gain fields, the search over
  the filter tables, and where the range check of the reference clock is too wide.
\<close>

section \<open>IF gain fields\<close>

lemma get_put_other:
  assumes ok: "field_ok fl" "field_ok fl'"
    and dis: "f_reg fl = f_reg fl' \<Longrightarrow> f_shift fl + f_width fl \<le> f_shift fl' \<or> f_shift fl' + f_width fl' \<le> f_shift fl"
    and v: "v AND mask (f_width fl) = v"
  shows "get_field fl' (put_field fl v f) = get_field fl' f"
proof (cases "f_reg fl = f_reg fl'")
  case False
  then show ?thesis by (simp add: get_field_def put_field_def)
next
  case True
  let ?y = "f (f_reg fl')"
  have "drop_bit (f_shift fl') ((?y AND NOT (push_bit (f_shift fl) (mask (f_width fl)))) OR push_bit (f_shift fl) v)
      AND mask (f_width fl') = drop_bit (f_shift fl') ?y AND mask (f_width fl')"
  proof (rule bit_word_eqI)
    fix n assume "n < LENGTH(8)"
    then show "bit (drop_bit (f_shift fl') ((?y AND NOT (push_bit (f_shift fl) (mask (f_width fl)))) OR push_bit (f_shift fl) v)
        AND mask (f_width fl')) n = bit (drop_bit (f_shift fl') ?y AND mask (f_width fl')) n"
      using dis [OF True] bit_mask_word [OF v, of "f_shift fl' + n - f_shift fl"] ok
      by (auto simp: bit_simps field_ok_def)
  qed
  then show ?thesis
    using True by (simp only: get_field_def put_field_def field_mask_eq [OF ok(1)] fun_upd_same)
qed

lemma if_stage_fields:
  assumes "i \<in> {1..6}"
  shows "field_ok (if_stage_gain_regs ! i)"
    and "length (if_stage_gain ! i) = 2 ^ f_width (if_stage_gain_regs ! i)"
    and "j \<in> {1..6} \<Longrightarrow> j \<noteq> i \<Longrightarrow> f_reg (if_stage_gain_regs ! i) = f_reg (if_stage_gain_regs ! j) \<Longrightarrow>
      f_shift (if_stage_gain_regs ! i) + f_width (if_stage_gain_regs ! i) \<le> f_shift (if_stage_gain_regs ! j) \<or>
      f_shift (if_stage_gain_regs ! j) + f_width (if_stage_gain_regs ! j) \<le> f_shift (if_stage_gain_regs ! i)"
proof -
  have six: "k \<in> {1..6} \<Longrightarrow> k = 1 \<or> k = 2 \<or> k = 3 \<or> k = 4 \<or> k = 5 \<or> k = 6" for k :: nat
    by simp presburger
  note i = six [OF assms]
  from i show "field_ok (if_stage_gain_regs ! i)"
    by (elim disjE) (simp_all add: if_stage_gain_regs_def field_ok_def)
  from i show "length (if_stage_gain ! i) = 2 ^ f_width (if_stage_gain_regs ! i)"
    by (elim disjE) (simp_all add: if_stage_gain_regs_def if_stage_gain_def)
  show "j \<in> {1..6} \<Longrightarrow> j \<noteq> i \<Longrightarrow> f_reg (if_stage_gain_regs ! i) = f_reg (if_stage_gain_regs ! j) \<Longrightarrow>
      f_shift (if_stage_gain_regs ! i) + f_width (if_stage_gain_regs ! i) \<le> f_shift (if_stage_gain_regs ! j) \<or>
      f_shift (if_stage_gain_regs ! j) + f_width (if_stage_gain_regs ! j) \<le> f_shift (if_stage_gain_regs ! i)"
    using i by (drule_tac six) (elim disjE; simp add: if_stage_gain_regs_def)
qed

lemma index_of_Some: "index_of x xs = Some i \<Longrightarrow> i < length xs \<and> xs ! i = x"
  by (induction xs arbitrary: i) (auto split: if_splits)

lemma index_of_None: "index_of x xs = None \<longleftrightarrow> x \<notin> set xs"
  by (induction xs) auto

lemma e4k_if_gain_effect:
  assumes bus: "e4k_bus U a chip ptr" and st: "stage \<in> {1..6}" and val: "val \<in> set (if_stage_gain ! stage)"
  shows "\<exists>i < length (if_stage_gain ! stage). if_stage_gain ! stage ! i = val \<and>
    word_of_nat i AND mask (f_width (if_stage_gain_regs ! stage)) = (word_of_nat i :: u8) \<and>
    (\<forall>v b f. yields (e4k_at chip a v b f) (e4k_if_gain_set U stage val) 0
      (e4k_at chip a v b (put_field (if_stage_gain_regs ! stage) (word_of_nat i) f)))"
proof -
  obtain i where i: "index_of val (if_stage_gain ! stage) = Some i" using val index_of_None by fastforce
  note ix = index_of_Some [OF i] and fl = if_stage_fields [OF st]
  have w: "f_width (if_stage_gain_regs ! stage) \<le> 8" using fl(1) by (simp add: field_ok_def)
  have m: "word_of_nat i AND mask (f_width (if_stage_gain_regs ! stage)) = (word_of_nat i :: u8)"
    using ix fl(2) w by (intro index_mask) auto
  have "stage < length if_stage_gain" using st by (simp add: if_stage_gain_def)
  then have "e4k_if_gain_set U stage val = e4k_reg_set_mask U (f_reg (if_stage_gain_regs ! stage))
      (field_mask (if_stage_gain_regs ! stage)) (push_bit (f_shift (if_stage_gain_regs ! stage)) (word_of_nat i))"
    using i by (simp add: e4k_if_gain_set_def find_stage_gain_def Let_def)
  then show ?thesis
    using ix m e4k_at_field_mask [OF bus fl(1) m] by (intro exI [of _ i]) simp
qed

lemma e4k_z: "is_fosc_valid fosc \<Longrightarrow> pll_row flo pll_vars = (ri, r) \<Longrightarrow>
  p_z (snd (e4k_compute_pll_params p fosc flo)) = flo * r mod 2 ^ 64 div fosc mod 2 ^ 8"
  unfolding e4k_compute_pll_params_def Let_def by (simp only: prod.case snd_conv e4k_pll_params.simps if_False not_True_eq_False)

section \<open>A device for the witnesses\<close>

definition sim_e4k :: "((u8 \<Rightarrow> u8) \<times> u8) e4k" where
  "sim_e4k = \<lparr>e_hw = (\<lambda>_. 0, 0), e_i2c_addr = 0xc8, e_band = E4K_BAND_VHF2,
     e_vco = \<lparr>p_fosc = 28800000, p_intended_flo = 0, p_flo = 0, p_x = 0, p_z = 0, p_r = 0,
       p_r_idx = 0, p_threephase = False\<rparr>\<rparr>"

lemma sim_e4k_bus: "e4k_bus (chip_usb e4k_stat) a (chip_view e4k_stat) snd"
  by (rule reg_bus_side [OF chip_usb_bus]) simp

lemma sim_e4k_addr: "e_i2c_addr sim_e4k = 0xc8"
  by (simp add: sim_e4k_def)

section \<open>Properties\<close>



text \<open>reading an IF filter bandwidth back after setting it returns the value of the filter's
  table that is nearest to the one asked for.\<close>

theorem e4k_if_filter_roundtrip:
  assumes "e4k_bus U a chip ptr" and "e_i2c_addr s = a" and "filt < 3" and "bw < 0xffffffff"
    and "s1 = snd (run_state (e4k_if_filter_bw_set U filt bw) s)"
    and "res = fst (run_state (e4k_if_filter_bw_get U filt) s1)"
  shows "fst (run_state (e4k_if_filter_bw_set U filt bw) s) = 0 \<and>
    0 \<le> res \<and> nat res \<in> set (if_filter_bw ! filt) \<and>
    (\<forall>c \<in> set (if_filter_bw ! filt). unsigned_delta bw (nat res) \<le> unsigned_delta bw c)"
  using e4k_if_filter_set_get [OF assms] by blast

theorem e4k_if_filter_roundtrip_witness:
  "\<exists>res. res = fst (run_state (e4k_if_filter_bw_get (chip_usb e4k_stat) E4K_IF_FILTER_CHAN)
      (snd (run_state (e4k_if_filter_bw_set (chip_usb e4k_stat) E4K_IF_FILTER_CHAN 2460000) sim_e4k))) \<and>
    unsigned_delta 2460000 (nat res) \<le> unsigned_delta 2460000 2450000"
proof -
  have h: "(1 :: nat) < 3" "(2460000 :: nat) < 0xffffffff" by simp_all
  have "2450000 \<in> set (if_filter_bw ! 1)" by (simp add: if_filter_bw_def ifch_filter_bw_def)
  then show ?thesis
    using e4k_if_filter_roundtrip [OF sim_e4k_bus sim_e4k_addr h refl refl] by blast
qed

text \<open>\<open>e4k_if_gain_set\<close> programs exactly the field of its stage: an available gain is selected
  and the five other stages keep theirs; any other value returns \<open>-EINVAL\<close> and changes
  nothing.\<close>

theorem e4k_if_gain_selects:
  assumes bus: "e4k_bus U a chip ptr" and addr: "e_i2c_addr s = a" and st: "stage \<in> {1..6}"
    and run: "run_state (e4k_if_gain_set U stage val) s = (rc, s')"
    and g: "g = chip (e_hw s')"
  shows "if val \<in> set (if_stage_gain ! stage)
    then rc = 0 \<and> if_stage_gain ! stage ! unat (get_field (if_stage_gain_regs ! stage) g) = val \<and>
      (\<forall>j \<in> {1..6} - {stage}. get_field (if_stage_gain_regs ! j) g = get_field (if_stage_gain_regs ! j) (chip (e_hw s)))
    else rc = - EINVAL \<and> s' = s"
proof (cases "val \<in> set (if_stage_gain ! stage)")
  case True
  let ?fl = "if_stage_gain_regs ! stage" and ?f = "chip (e_hw s)"
  obtain i where i: "i < length (if_stage_gain ! stage)" "if_stage_gain ! stage ! i = val"
    and y: "\<And>v b f. yields (e4k_at chip a v b f) (e4k_if_gain_set U stage val) 0
      (e4k_at chip a v b (put_field ?fl (word_of_nat i) f))"
    and m: "word_of_nat i AND mask (f_width ?fl) = (word_of_nat i :: u8)"
    using e4k_if_gain_effect [OF bus st True] by blast
  have at: "e4k_at chip a (e_vco s) (e_band s) ?f s" using addr by (simp add: e4k_at_def)
  from yieldsD [OF y at] run have rc: "rc = 0" and g': "g = put_field ?fl (word_of_nat i) ?f"
    by (simp_all add: e4k_at_def g)
  note fl = if_stage_fields [OF st]
  have "i < 256" using i(1) fl(2) power_increasing [of "f_width ?fl" 8 "2::nat"] fl(1)
    by (simp add: field_ok_def)
  then have "unat (get_field ?fl g) = i" by (simp add: g' get_put_field [OF fl(1) m] unat_of_nat)
  moreover have "get_field (if_stage_gain_regs ! j) g = get_field (if_stage_gain_regs ! j) ?f"
    if "j \<in> {1..6} - {stage}" for j
    unfolding g' by (rule get_put_other [OF fl(1) _ _ m]) (use that fl(3) if_stage_fields(1) in auto)
  ultimately show ?thesis using True rc i(2) by simp
next
  case False
  then have "index_of val (if_stage_gain ! stage) = None" by (simp add: index_of_None)
  then show ?thesis
    using False run st by (auto simp: e4k_if_gain_set_def find_stage_gain_def if_stage_gain_def split: if_splits)
qed

theorem e4k_if_gain_selects_witness:
  "fst (run_state (e4k_if_gain_set (chip_usb e4k_stat) 4 7) sim_e4k) = - 22"
proof -
  have "7 \<notin> set (if_stage_gain ! 4)" by (simp add: if_stage_gain_def)
  then show ?thesis
    using e4k_if_gain_selects [OF sim_e4k_bus sim_e4k_addr _ prod.collapse [symmetric] refl, of 4 7] by simp
qed

text \<open>the search of the filter tables returns a valid index, and no entry of the table is
  nearer to the wanted frequency.\<close>

theorem e4k_closest_filter:
  assumes "arr \<noteq> []" and "freq < 0xffffffff" and "\<forall>c \<in> set arr. c < 0xffffffff"
  shows "closest_arr_idx arr freq < length arr \<and>
    (\<forall>c \<in> set arr. unsigned_delta freq (arr ! closest_arr_idx arr freq) \<le> unsigned_delta freq c)"
  by (rule closest_arr_idx_best [OF assms])

theorem e4k_closest_filter_witness:
  "closest_arr_idx rf_filt_center_uhf 433920000 < 16"
  using e4k_closest_filter [of rf_filt_center_uhf 433920000] by (simp add: rf_filt_center_uhf_def)

text \<open>the integer divider is stored in eight bits without a range check: with a reference
  clock of 16 MHz, which the driver accepts as valid, tuning to 1.1 GHz needs 275 and stores
  19.\<close>

theorem e4k_divider_overflow:
  "is_fosc_valid 16000000 \<and> pll_row 1100000000 pll_vars = (1, 4) \<and>
   1100000000 * 4 div 16000000 = (275 :: nat) \<and>
   p_z (snd (e4k_compute_pll_params oscp 16000000 1100000000)) = 19"
proof -
  have "pll_row 1100000000 pll_vars = (1, 4)" "is_fosc_valid 16000000"
    by (simp_all add: pll_vars_def is_fosc_valid_def)
  then show ?thesis by (simp add: e4k_z)
qed

end
