(* ===== verification/Tuner_fc001x.thy ===== *)
theory Tuner_fc001x
  imports Usb
begin

unbundle bit_operations_syntax

text \<open>
  The Fitipower FC0012 and FC0013 drivers (src/src/tuner_fc0012.c, src/src/tuner_fc0013.c).

  Neither driver keeps state of its own: the functions are computations on the device. The
  tuner clock that the code asks of the library (\<open>rtlsdr_get_tuner_clock\<close>) is the argument
  \<open>clk\<close>. The idiom \<open>ret = f(); if (ret) goto exit;\<close> is \<open>chk_nz\<close>. The PLL arithmetic, which the
  two drivers repeat, is \<open>fc_pll\<close> with its integer widths written out.
\<close>

section \<open>Idioms\<close>

definition chk_nz :: "('s, int) prog \<Rightarrow> ('s, int) prog \<Rightarrow> ('s, int) prog" where
  "chk_nz m k = do { r \<leftarrow> m; if r \<noteq> 0 then ret r else k }"

definition chk_nz_val :: "('s, int \<times> 'a) prog \<Rightarrow> ('a \<Rightarrow> ('s, int) prog) \<Rightarrow> ('s, int) prog" where
  "chk_nz_val m k = do { (r, v) \<leftarrow> m; if r \<noteq> 0 then ret r else k v }"

primrec seq_nz :: "('s, int) prog list \<Rightarrow> ('s, int) prog" where
  "seq_nz [] = ret 0"
| "seq_nz (m # ms) = chk_nz m (seq_nz ms)"

section \<open>Register access\<close>

abbreviation (input) FC0012_I2C_ADDR :: u8 where "FC0012_I2C_ADDR \<equiv> 0xc6"
abbreviation (input) FC0013_I2C_ADDR :: u8 where "FC0013_I2C_ADDR \<equiv> 0xc6"

definition fc0012_writereg :: "'h usb_ops \<Rightarrow> u8 \<Rightarrow> u8 \<Rightarrow> ('h, int) prog" where
  "fc0012_writereg U reg val = do {
     r \<leftarrow> rtlsdr_i2c_write_fn U FC0012_I2C_ADDR [reg, val] 2;
     ret (if r < 0 then -1 else 0) }"

text \<open>The second component is what \<open>*val\<close> holds when the result is 0.\<close>

definition fc0012_readreg :: "'h usb_ops \<Rightarrow> u8 \<Rightarrow> ('h, int \<times> u8) prog" where
  "fc0012_readreg U reg = do {
     r \<leftarrow> rtlsdr_i2c_write_fn U FC0012_I2C_ADDR [reg] 1;
     if r < 0 then ret (-1, 0)
     else do {
       (r, data) \<leftarrow> rtlsdr_i2c_read_fn U FC0012_I2C_ADDR [reg] 1;
       if r < 0 then ret (-1, 0) else ret (0, data ! 0) } }"

definition fc0013_writereg :: "'h usb_ops \<Rightarrow> u8 \<Rightarrow> u8 \<Rightarrow> ('h, int) prog" where
  "fc0013_writereg U reg val = do {
     r \<leftarrow> rtlsdr_i2c_write_fn U FC0013_I2C_ADDR [reg, val] 2;
     ret (if r < 0 then -1 else 0) }"

definition fc0013_readreg :: "'h usb_ops \<Rightarrow> u8 \<Rightarrow> ('h, int \<times> u8) prog" where
  "fc0013_readreg U reg = do {
     r \<leftarrow> rtlsdr_i2c_write_fn U FC0013_I2C_ADDR [reg] 1;
     if r < 0 then ret (-1, 0)
     else do {
       (r, data) \<leftarrow> rtlsdr_i2c_read_fn U FC0013_I2C_ADDR [reg] 1;
       if r < 0 then ret (-1, 0) else ret (0, data ! 0) } }"

section \<open>Initialisation\<close>

text \<open>The arrays as they are after the assignments to \<open>reg[0x07]\<close> and \<open>reg[0x0c]\<close>.\<close>

definition fc0012_init_regs :: "u8 list" where
  "fc0012_init_regs =
     (let reg = [0x00, 0x05, 0x10, 0x00, 0x00, 0x0f, 0x00, 0x00, 0xff, 0x6e, 0xb8,
                 0x82, 0xfc, 0x02, 0x00, 0x00, 0x00, 0x00, 0x1f, 0x08, 0x00, 0x04];
          reg = reg[0x07 := reg ! 0x07 OR 0x20]
      in reg[0x0c := reg ! 0x0c OR 0x02])"

definition fc0012_init :: "'h usb_ops \<Rightarrow> ('h, int) prog" where
  "fc0012_init U = seq_nz
     (map (\<lambda>i. fc0012_writereg U (of_nat i) (fc0012_init_regs ! i)) [1..<length fc0012_init_regs])"

definition fc0013_init_regs :: "u8 list" where
  "fc0013_init_regs =
     (let reg = [0x00, 0x09, 0x16, 0x00, 0x00, 0x17, 0x02, 0x0a, 0xff, 0x6e, 0xb8,
                 0x82, 0xfc, 0x01, 0x00, 0x00, 0x00, 0x00, 0x00, 0x00, 0x50, 0x01];
          reg = reg[0x07 := reg ! 0x07 OR 0x20]
      in reg[0x0c := reg ! 0x0c OR 0x02])"

definition fc0013_init :: "'h usb_ops \<Rightarrow> ('h, int) prog" where
  "fc0013_init U = seq_chk
     (map (\<lambda>i. fc0013_writereg U (of_nat i) (fc0013_init_regs ! i)) [1..<length fc0013_init_regs])"

section \<open>The PLL\<close>

text \<open>The output divider \<open>(multi, reg[5], reg[6])\<close> for a frequency.\<close>

definition fc0012_divider :: "nat \<Rightarrow> nat \<times> u8 \<times> u8" where
  "fc0012_divider freq =
     (if freq < 37084000 then (96, 0x82, 0x00)
      else if freq < 55625000 then (64, 0x82, 0x02)
      else if freq < 74167000 then (48, 0x42, 0x00)
      else if freq < 111250000 then (32, 0x42, 0x02)
      else if freq < 148334000 then (24, 0x22, 0x00)
      else if freq < 222500000 then (16, 0x22, 0x02)
      else if freq < 296667000 then (12, 0x12, 0x00)
      else if freq < 445000000 then (8, 0x12, 0x02)
      else if freq < 593334000 then (6, 0x0a, 0x00)
      else (4, 0x0a, 0x02))"

definition fc0013_divider :: "nat \<Rightarrow> nat \<times> u8 \<times> u8" where
  "fc0013_divider freq =
     (if freq < 37084000 then (96, 0x82, 0x00)
      else if freq < 55625000 then (64, 0x02, 0x02)
      else if freq < 74167000 then (48, 0x42, 0x00)
      else if freq < 111250000 then (32, 0x82, 0x02)
      else if freq < 148334000 then (24, 0x22, 0x00)
      else if freq < 222500000 then (16, 0x42, 0x02)
      else if freq < 296667000 then (12, 0x12, 0x00)
      else if freq < 445000000 then (8, 0x22, 0x02)
      else if freq < 593334000 then (6, 0x0a, 0x00)
      else if freq < 950000000 then (4, 0x12, 0x02)
      else (2, 0x0a, 0x02))"

text \<open>
  \<open>fc_xdiv\<close> is the rounded divider, \<open>fc_am_pm\<close> its split into the two counters, \<open>fc_xin\<close> the
  16-bit fractional part.
\<close>

definition fc_xdiv :: "nat \<Rightarrow> nat \<Rightarrow> nat" where
  "fc_xdiv f_vco x2 =
     (let xdiv = f_vco div x2 mod 2 ^ 16
      in if (f_vco + 2 ^ 64 - xdiv * x2 mod 2 ^ 32) mod 2 ^ 64 \<ge> x2 div 2
         then (xdiv + 1) mod 2 ^ 16 else xdiv)"

definition fc_am_pm :: "nat \<Rightarrow> nat \<times> nat" where
  "fc_am_pm xdiv =
     (let pm = xdiv div 8 mod 256;
          am = nat ((int xdiv - 8 * int pm) mod 256);
          (am, pm) = (if am < 2 then ((am + 8) mod 256, (pm + 255) mod 256) else (am, pm))
      in if pm > 31 then ((am + 8 * (pm - 31)) mod 256, 31) else (am, pm))"

definition fc_xin :: "nat \<Rightarrow> nat \<Rightarrow> nat" where
  "fc_xin f_vco x2 =
     (let xin = (f_vco - f_vco div x2 * x2) div 1000 mod 2 ^ 16;
          xin = xin * 2 ^ 15 div (x2 div 1000) mod 2 ^ 16
      in if xin \<ge> 16384 then (xin + 32768) mod 2 ^ 16 else xin)"

text \<open>
  The outcome of the computation: \<open>FC_UB\<close> is a division by zero (a tuner clock below 2 kHz),
  \<open>FC_Invalid\<close> the error return, \<open>FC_Pll regs sel\<close> the registers 0 to 6 (register 0 is not
  used) and the VCO selection.
\<close>

datatype fc_pll_result = FC_UB | FC_Invalid | FC_Pll "u8 list" bool

definition fc_bandwidth_bits :: "nat \<Rightarrow> u8" where
  "fc_bandwidth_bits bandwidth =
     (if bandwidth = 6000000 then 0x80 else if bandwidth = 7000000 then 0x40 else 0)"

definition fc_pll :: "nat \<times> u8 \<times> u8 \<Rightarrow> nat \<Rightarrow> nat \<Rightarrow> nat \<Rightarrow> fc_pll_result" where
  "fc_pll divider clk freq bandwidth =
     (let (multi, reg5, reg6) = divider;
          x2 = clk div 2;
          f_vco = freq * multi mod 2 ^ 32;
          vco_select = f_vco \<ge> 3060000000;
          reg6 = (if vco_select then reg6 OR 0x08 else reg6)
      in if x2 div 1000 = 0 then FC_UB
         else
           let (reg1, reg2) = fc_am_pm (fc_xdiv f_vco x2);
               xin = fc_xin f_vco x2
           in if reg1 > 15 \<or> reg2 < 0x0b then FC_Invalid
              else
                let reg6 = ((reg6 OR 0x20) AND 0x3f) OR fc_bandwidth_bits bandwidth;
                    reg5 = reg5 OR 0x07
                in FC_Pll [0, of_nat reg1, of_nat reg2, of_nat (xin div 256), of_nat (xin mod 256),
                           reg5, reg6] vco_select)"

text \<open>
  The end of \<open>set_params\<close>: VCO calibration, and a second one with the other VCO range when
  the control voltage is at its limit. \<open>w\<close> and \<open>r\<close> are the driver's register access.
\<close>

definition fc_calibrate ::
  "(u8 \<Rightarrow> u8 \<Rightarrow> ('h, int) prog) \<Rightarrow> (u8 \<Rightarrow> ('h, int \<times> u8) prog) \<Rightarrow> u8 \<Rightarrow> bool \<Rightarrow> ('h, int) prog" where
  "fc_calibrate w r reg6 vco_select =
     chk_nz (seq_nz [w 0x0e 0x80, w 0x0e 0x00, w 0x0e 0x00])
     (chk_nz_val (r 0x0e) (\<lambda>tmp.
       let tmp = tmp AND 0x3f in
       if vco_select
       then if tmp > 0x3c then seq_nz [w 0x06 (reg6 AND NOT 0x08), w 0x0e 0x80, w 0x0e 0x00] else ret 0
       else if tmp < 0x02 then seq_nz [w 0x06 (reg6 OR 0x08), w 0x0e 0x80, w 0x0e 0x00] else ret 0))"

definition fc0012_set_params :: "'h usb_ops \<Rightarrow> nat \<Rightarrow> nat \<Rightarrow> nat \<Rightarrow> ('h, int) prog" where
  "fc0012_set_params U clk freq bandwidth =
     (case fc_pll (fc0012_divider freq) clk freq bandwidth of
        FC_UB \<Rightarrow> ret (-1)
      | FC_Invalid \<Rightarrow> ret (-1)
      | FC_Pll reg vco_select \<Rightarrow>
          chk_nz (seq_nz (map (\<lambda>i. fc0012_writereg U (of_nat i) (reg ! i)) [1..<7]))
          (fc_calibrate (fc0012_writereg U) (fc0012_readreg U) (reg ! 6) vco_select))"

section \<open>Gain of the FC0012\<close>

text \<open>The result of the read is overwritten by that of the write.\<close>

definition fc0012_gain_bits :: "int \<Rightarrow> u8" where
  "fc0012_gain_bits gain =
     (if gain = -99 then 0x02 else if gain = -40 then 0x00 else if gain = 71 then 0x08
      else if gain = 179 then 0x17 else 0x10)"

definition fc0012_set_gain :: "'h usb_ops \<Rightarrow> int \<Rightarrow> ('h, int) prog" where
  "fc0012_set_gain U gain = do {
     (r, v) \<leftarrow> fc0012_readreg U 0x13;
     let tmp = (if r = 0 then v else 0) AND 0xe0;
     fc0012_writereg U 0x13 (tmp OR fc0012_gain_bits gain) }"

section \<open>The FC0013\<close>

definition fc0013_rc_cal_add :: "'h usb_ops \<Rightarrow> int \<Rightarrow> ('h, int) prog" where
  "fc0013_rc_cal_add U rc_val =
     chk_nz (fc0013_writereg U 0x10 0x00)
     (chk_nz_val (fc0013_readreg U 0x10) (\<lambda>rc_cal.
       let val = uint (rc_cal AND 0x0f) + rc_val in
       chk_nz (fc0013_writereg U 0x0d 0x11)
       (if val > 15 then fc0013_writereg U 0x10 0x0f
        else if val < 0 then fc0013_writereg U 0x10 0x00
        else fc0013_writereg U 0x10 (word_of_int val))))"

definition fc0013_rc_cal_reset :: "'h usb_ops \<Rightarrow> ('h, int) prog" where
  "fc0013_rc_cal_reset U = seq_nz [fc0013_writereg U 0x0d 0x01, fc0013_writereg U 0x10 0x00]"

definition vhf_track_bits :: "nat \<Rightarrow> u8" where
  "vhf_track_bits freq =
     (if freq \<le> 177500000 then 0x1c
      else if freq \<le> 184500000 then 0x18
      else if freq \<le> 191500000 then 0x14
      else if freq \<le> 198500000 then 0x10
      else if freq \<le> 205500000 then 0x0c
      else if freq \<le> 219500000 then 0x08
      else if freq < 300000000 then 0x04
      else 0x1c)"

definition fc0013_set_vhf_track :: "'h usb_ops \<Rightarrow> nat \<Rightarrow> ('h, int) prog" where
  "fc0013_set_vhf_track U freq =
     chk_nz_val (fc0013_readreg U 0x1d) (\<lambda>tmp.
       fc0013_writereg U 0x1d ((tmp AND 0xe3) OR vhf_track_bits freq))"

text \<open>The filter and band selection; the last two branches of the code are equal.\<close>

definition fc0013_select_band :: "'h usb_ops \<Rightarrow> nat \<Rightarrow> ('h, int) prog" where
  "fc0013_select_band U freq =
     (if freq < 300000000 then
        chk_nz_val (fc0013_readreg U 0x07) (\<lambda>tmp. chk_nz (fc0013_writereg U 0x07 (tmp OR 0x10))
        (chk_nz_val (fc0013_readreg U 0x14) (\<lambda>tmp. fc0013_writereg U 0x14 (tmp AND 0x1f))))
      else if freq \<le> 862000000 then
        chk_nz_val (fc0013_readreg U 0x07) (\<lambda>tmp. chk_nz (fc0013_writereg U 0x07 (tmp AND 0xef))
        (chk_nz_val (fc0013_readreg U 0x14) (\<lambda>tmp. fc0013_writereg U 0x14 ((tmp AND 0x1f) OR 0x40))))
      else
        chk_nz_val (fc0013_readreg U 0x07) (\<lambda>tmp. chk_nz (fc0013_writereg U 0x07 (tmp AND 0xef))
        (chk_nz_val (fc0013_readreg U 0x14) (\<lambda>tmp. fc0013_writereg U 0x14 ((tmp AND 0x1f) OR 0x40)))))"

definition fc0013_set_params :: "'h usb_ops \<Rightarrow> nat \<Rightarrow> nat \<Rightarrow> nat \<Rightarrow> ('h, int) prog" where
  "fc0013_set_params U clk freq bandwidth =
     chk_nz (fc0013_set_vhf_track U freq)
     (chk_nz (fc0013_select_band U freq)
     (case fc_pll (fc0013_divider freq) clk freq bandwidth of
        FC_UB \<Rightarrow> ret (-1)
      | FC_Invalid \<Rightarrow> ret (-1)
      | FC_Pll reg vco_select \<Rightarrow>
          chk_nz (seq_nz (map (\<lambda>i. fc0013_writereg U (of_nat i) (reg ! i)) [1..<7]))
          (chk_nz_val (fc0013_readreg U 0x11) (\<lambda>tmp.
           chk_nz (fc0013_writereg U 0x11
             (if fst (fc0013_divider freq) = 64 then tmp OR 0x04 else tmp AND 0xfb))
           (fc_calibrate (fc0013_writereg U) (fc0013_readreg U) (reg ! 6) vco_select)))))"

definition fc0013_set_gain_mode :: "'h usb_ops \<Rightarrow> bool \<Rightarrow> ('h, int) prog" where
  "fc0013_set_gain_mode U manual = do {
     (r1, v) \<leftarrow> fc0013_readreg U 0x0d;
     let tmp = (if r1 = 0 then v else 0);
     r2 \<leftarrow> fc0013_writereg U 0x0d (if manual then tmp OR 0x08 else tmp AND NOT 0x08);
     r3 \<leftarrow> fc0013_writereg U 0x13 0x0a;
     ret (r1 OR r2 OR r3) }"

definition fc0013_lna_gains :: "(int \<times> u8) list" where
  "fc0013_lna_gains =
     [(-99, 0x02), (-73, 0x03), (-65, 0x05), (-63, 0x04), (-63, 0x00), (-60, 0x07), (-58, 0x01),
      (-54, 0x06), (58, 0x0f), (61, 0x0e), (63, 0x0d), (65, 0x0c), (67, 0x0b), (68, 0x0a),
      (70, 0x09), (71, 0x08), (179, 0x17), (181, 0x16), (182, 0x15), (184, 0x14), (186, 0x13),
      (188, 0x12), (191, 0x11), (197, 0x10)]"

fun lna_gain_bits :: "int \<Rightarrow> (int \<times> u8) list \<Rightarrow> u8" where
  "lna_gain_bits gain [] = 0"
| "lna_gain_bits gain (e # es) = (if fst e \<ge> gain \<or> es = [] then snd e else lna_gain_bits gain es)"

definition fc0013_set_lna_gain :: "'h usb_ops \<Rightarrow> int \<Rightarrow> ('h, int) prog" where
  "fc0013_set_lna_gain U gain = do {
     (r1, v) \<leftarrow> fc0013_readreg U 0x14;
     let tmp = (if r1 = 0 then v else 0) AND 0xe0;
     r2 \<leftarrow> fc0013_writereg U 0x14 (tmp OR lna_gain_bits gain fc0013_lna_gains);
     ret (r1 OR r2) }"

end
