(* ===== verification/Tuner_fc2580.thy ===== *)
theory Tuner_fc2580
  imports Usb
begin

unbundle bit_operations_syntax

text \<open>
  The FCI FC2580 driver (src/src/tuner_fc2580.c, src/include/tuner_fc2580.h).

  The driver keeps no state; its functions are computations on the device. Result codes are
  collected with \<open>result &= ...\<close>, so that every step is carried out whatever the earlier ones
  returned (the wait of \<open>fc2580_wait_msec\<close> is empty in the code, and no code produces the band
  \<open>FC2580_NO_BAND\<close>); \<open>FC2580_FCI_SUCCESS\<close> is 1 and \<open>FC2580_FCI_FAIL\<close> is 0. Frequencies are in kHz, as
  \<open>unsigned int\<close> with the wrap-around written out.
\<close>

section \<open>Register access\<close>

abbreviation (input) FC2580_I2C_ADDR :: u8 where "FC2580_I2C_ADDR \<equiv> 0xac"
abbreviation (input) FC2580_FCI_FAIL :: int where "FC2580_FCI_FAIL \<equiv> 0"
abbreviation (input) FC2580_FCI_SUCCESS :: int where "FC2580_FCI_SUCCESS \<equiv> 1"
abbreviation (input) FUNCTION_SUCCESS :: int where "FUNCTION_SUCCESS \<equiv> 0"
abbreviation (input) FUNCTION_ERROR :: int where "FUNCTION_ERROR \<equiv> 1"
abbreviation (input) CRYSTAL_FREQ :: nat where "CRYSTAL_FREQ \<equiv> 16384000"
abbreviation (input) BORDER_FREQ :: nat where "BORDER_FREQ \<equiv> 2600000"

datatype fc2580_band_type = FC2580_UHF_BAND | FC2580_L_BAND | FC2580_VHF_BAND

definition fc2580_i2c_write :: "'h usb_ops \<Rightarrow> u8 \<Rightarrow> u8 \<Rightarrow> ('h, int) prog" where
  "fc2580_i2c_write U reg val = do {
     r \<leftarrow> rtlsdr_i2c_write_fn U FC2580_I2C_ADDR [reg, val] 2;
     ret (if r < 0 then FC2580_FCI_FAIL else FC2580_FCI_SUCCESS) }"

text \<open>The second component is what \<open>*read_data\<close> holds on success.\<close>

definition fc2580_i2c_read :: "'h usb_ops \<Rightarrow> u8 \<Rightarrow> ('h, int \<times> u8) prog" where
  "fc2580_i2c_read U reg = do {
     r \<leftarrow> rtlsdr_i2c_write_fn U FC2580_I2C_ADDR [reg] 1;
     if r < 0 then ret (FC2580_FCI_FAIL, 0)
     else do {
       (r, data) \<leftarrow> rtlsdr_i2c_read_fn U FC2580_I2C_ADDR [reg] 1;
       if r < 0 then ret (FC2580_FCI_FAIL, 0) else ret (FC2580_FCI_SUCCESS, data ! 0) } }"

primrec seq_and :: "('s, int) prog list \<Rightarrow> int \<Rightarrow> ('s, int) prog" where
  "seq_and [] result = ret result"
| "seq_and (m # ms) result = do { r \<leftarrow> m; seq_and ms (result AND r) }"

definition writes :: "'h usb_ops \<Rightarrow> (u8 \<times> u8) list \<Rightarrow> ('h, int) prog list" where
  "writes U = map (\<lambda>(reg, val). fc2580_i2c_write U reg val)"

section \<open>The channel filter\<close>

definition filter_script :: "u8 \<Rightarrow> nat \<Rightarrow> (u8 \<times> u8) list" where
  "filter_script filter_bw freq_xtal =
     (if filter_bw = 1 then
        [(0x36, 0x1C), (0x37, of_nat (4151 * freq_xtal mod 2 ^ 32 div 1000000)), (0x39, 0x00), (0x2E, 0x09)]
      else []) @
     (if filter_bw = 6 then
        [(0x36, 0x18), (0x37, of_nat (4400 * freq_xtal mod 2 ^ 32 div 1000000)), (0x39, 0x00), (0x2E, 0x09)]
      else if filter_bw = 7 then
        [(0x36, 0x18), (0x37, of_nat (3910 * freq_xtal mod 2 ^ 32 div 1000000)), (0x39, 0x80), (0x2E, 0x09)]
      else if filter_bw = 8 then
        [(0x36, 0x18), (0x37, of_nat (3300 * freq_xtal mod 2 ^ 32 div 1000000)), (0x39, 0x80), (0x2E, 0x09)]
      else [])"

text \<open>The calibration loop: \<open>n\<close> rounds left, \<open>cal_mon\<close> keeps its value when the read fails.\<close>

primrec filter_cal :: "'h usb_ops \<Rightarrow> nat \<Rightarrow> u8 \<Rightarrow> int \<Rightarrow> ('h, int) prog" where
  "filter_cal U 0 cal_mon result = ret result"
| "filter_cal U (Suc n) cal_mon result = do {
     (r, v) \<leftarrow> fc2580_i2c_read U 0x2F;
     let result = result AND r;
     let cal_mon = (if r = FC2580_FCI_SUCCESS then v else cal_mon);
     if cal_mon AND 0xC0 \<noteq> 0xC0 then do {
       result \<leftarrow> seq_and (writes U [(0x2E, 0x01), (0x2E, 0x09)]) result;
       filter_cal U n cal_mon result }
     else ret result }"

definition fc2580_set_filter :: "'h usb_ops \<Rightarrow> u8 \<Rightarrow> nat \<Rightarrow> ('h, int) prog" where
  "fc2580_set_filter U filter_bw freq_xtal = do {
     result \<leftarrow> seq_and (writes U (filter_script filter_bw freq_xtal)) FC2580_FCI_SUCCESS;
     result \<leftarrow> filter_cal U 5 0 result;
     seq_and (writes U [(0x2E, 0x01)]) result }"

section \<open>Initialisation\<close>

definition init_script :: "int \<Rightarrow> (u8 \<times> u8) list" where
  "init_script ifagc_mode =
     [(0x00, 0x00), (0x12, 0x86), (0x14, 0x5C), (0x16, 0x3C), (0x1F, 0xD2), (0x09, 0xD7),
      (0x0B, 0xD5), (0x0C, 0x32), (0x0E, 0x43), (0x21, 0x0A), (0x22, 0x82)] @
     (if ifagc_mode = 1 then [(0x45, 0x10), (0x4C, 0x00)]
      else if ifagc_mode = 2 then [(0x45, 0x20), (0x4C, 0x02)]
      else []) @
     [(0x3F, 0x88), (0x02, 0x0E), (0x58, 0x14)]"

definition fc2580_set_init :: "'h usb_ops \<Rightarrow> int \<Rightarrow> nat \<Rightarrow> ('h, int) prog" where
  "fc2580_set_init U ifagc_mode freq_xtal =
     seq_and (writes U (init_script ifagc_mode) @ [fc2580_set_filter U 8 freq_xtal])
       FC2580_FCI_SUCCESS"

section \<open>Frequency\<close>

definition fc2580_band :: "nat \<Rightarrow> fc2580_band_type" where
  "fc2580_band f_lo = (if f_lo > 1000000 then FC2580_L_BAND
     else if f_lo > 400000 then FC2580_UHF_BAND else FC2580_VHF_BAND)"

text \<open>The VCO frequency, the reference divider, and the fraction for a comparison frequency.\<close>

definition fc2580_f_vco :: "nat \<Rightarrow> nat" where
  "fc2580_f_vco f_lo = (case fc2580_band f_lo of FC2580_UHF_BAND \<Rightarrow> f_lo * 4
     | FC2580_L_BAND \<Rightarrow> f_lo * 2 | FC2580_VHF_BAND \<Rightarrow> f_lo * 12) mod 2 ^ 32"

definition fc2580_r_val :: "nat \<Rightarrow> nat \<Rightarrow> nat" where
  "fc2580_r_val f_vco freq_xtal =
     (if f_vco \<ge> 2 * 76 * freq_xtal mod 2 ^ 32 then 1
      else if f_vco \<ge> 76 * freq_xtal mod 2 ^ 32 then 2 else 4)"

definition fc2580_k_val :: "nat \<Rightarrow> nat \<Rightarrow> nat \<Rightarrow> nat" where
  "fc2580_k_val f_vco f_comp n_val =
     (let f_diff = (f_vco + 2 ^ 32 - 2 * f_comp * n_val mod 2 ^ 32) mod 2 ^ 32;
          f_diff_shifted = f_diff * 2 ^ 16 mod 2 ^ 32;
          step = (2 * f_comp mod 2 ^ 32) div 2 ^ 4;
          k_val = f_diff_shifted div step
      in if (f_diff_shifted + 2 ^ 32 - k_val * step mod 2 ^ 32) mod 2 ^ 32 \<ge> f_comp div 2 ^ 4
         then (k_val + 1) mod 2 ^ 32 else k_val)"

text \<open>\<open>(f_vco, r_val, n_val, k_val)\<close>; the crystal frequency is a non-zero constant of the driver.\<close>

definition fc2580_pll :: "nat \<Rightarrow> nat \<Rightarrow> nat \<times> nat \<times> nat \<times> nat" where
  "fc2580_pll f_lo freq_xtal =
     (let f_vco = fc2580_f_vco f_lo;
          r_val = fc2580_r_val f_vco freq_xtal;
          f_comp = freq_xtal div r_val;
          n_val = (f_vco div 2) div f_comp
      in (f_vco, r_val, n_val, fc2580_k_val f_vco f_comp n_val))"

definition band_script :: "fc2580_band_type \<Rightarrow> nat \<Rightarrow> (u8 \<times> u8) list" where
  "band_script band f_lo = (case band of
     FC2580_UHF_BAND \<Rightarrow>
       [(0x25, 0xF0), (0x27, 0x77), (0x28, 0x53), (0x29, 0x60), (0x30, 0x09), (0x50, 0x8C), (0x53, 0x50),
        (0x5F, if f_lo < 538000 then 0x13 else 0x15)] @
       (if f_lo < 538000 then
          [(0x61, 0x07), (0x62, 0x06), (0x67, 0x06), (0x68, 0x08), (0x69, 0x10), (0x6A, 0x12)]
        else if f_lo < 794000 then
          [(0x61, 0x03), (0x62, 0x03), (0x67, 0x03), (0x68, 0x05), (0x69, 0x0C), (0x6A, 0x0E)]
        else
          [(0x61, 0x07), (0x62, 0x06), (0x67, 0x07), (0x68, 0x09), (0x69, 0x10), (0x6A, 0x12)]) @
       [(0x63, 0x15), (0x6B, 0x0B), (0x6C, 0x0C), (0x6D, 0x78), (0x6E, 0x32), (0x6F, 0x14)]
   | FC2580_VHF_BAND \<Rightarrow>
       [(0x27, 0x77), (0x28, 0x33), (0x29, 0x40), (0x30, 0x09), (0x50, 0x8C), (0x53, 0x50), (0x5F, 0x0F),
        (0x61, 0x07), (0x62, 0x00), (0x63, 0x15), (0x67, 0x03), (0x68, 0x05), (0x69, 0x10), (0x6A, 0x12),
        (0x6B, 0x08), (0x6C, 0x0A), (0x6D, 0x78), (0x6E, 0x32), (0x6F, 0x54)]
   | FC2580_L_BAND \<Rightarrow>
       [(0x2B, 0x70), (0x2C, 0x37), (0x2D, 0xE7), (0x30, 0x09), (0x44, 0x20), (0x50, 0x8C), (0x53, 0x50),
        (0x5F, 0x0F), (0x61, 0x0F), (0x62, 0x00), (0x63, 0x13), (0x67, 0x00), (0x68, 0x02), (0x69, 0x0C),
        (0x6A, 0x0E), (0x6B, 0x08), (0x6C, 0x0A), (0x6D, 0xA0), (0x6E, 0x50), (0x6F, 0x14)])"

definition band_filter :: "fc2580_band_type \<Rightarrow> u8" where
  "band_filter band = (case band of FC2580_UHF_BAND \<Rightarrow> 8 | FC2580_VHF_BAND \<Rightarrow> 7 | FC2580_L_BAND \<Rightarrow> 1)"

definition data_0x02 :: "fc2580_band_type \<Rightarrow> nat \<Rightarrow> u8" where
  "data_0x02 band f_vco =
     (let d = (if f_vco \<ge> BORDER_FREQ then 0x0E OR 0x08 else 0x0E AND 0xF7)
      in case band of FC2580_UHF_BAND \<Rightarrow> d AND 0x3F
         | FC2580_VHF_BAND \<Rightarrow> (d AND 0x3F) OR 0x80
         | FC2580_L_BAND \<Rightarrow> (d AND 0x3F) OR 0x40)"

definition pll_script :: "fc2580_band_type \<Rightarrow> nat \<Rightarrow> nat \<Rightarrow> (u8 \<times> u8) list" where
  "pll_script band f_lo freq_xtal =
     (case fc2580_pll f_lo freq_xtal of (f_vco, r_val, n_val, k_val) \<Rightarrow>
       (if freq_xtal \<ge> 28000 then [(0x4B, 0x22)] else []) @
       [(0x02, data_0x02 band f_vco),
        (0x18, (if r_val = 1 then 0x00 else if r_val = 2 then 0x10 else 0x20) + of_nat (k_val div 2 ^ 16)),
        (0x1A, of_nat (k_val div 2 ^ 8)),
        (0x1B, of_nat k_val),
        (0x1C, of_nat n_val)] @
       (if band = FC2580_UHF_BAND then [(0x2D, if f_lo \<le> 794000 then 0x9F else 0x8F)] else []))"

definition fc2580_set_freq :: "'h usb_ops \<Rightarrow> nat \<Rightarrow> nat \<Rightarrow> ('h, int) prog" where
  "fc2580_set_freq U f_lo freq_xtal =
     (let band = fc2580_band f_lo
      in seq_and (writes U (band_script band f_lo) @ [fc2580_set_filter U (band_filter band) freq_xtal] @
           writes U (pll_script band f_lo freq_xtal)) FC2580_FCI_SUCCESS)"

section \<open>Entry points\<close>

abbreviation (input) crystal_khz :: nat where "crystal_khz \<equiv> (CRYSTAL_FREQ + 500) div 1000"

definition fc2580_Initialize :: "'h usb_ops \<Rightarrow> ('h, int) prog" where
  "fc2580_Initialize U = do {
     r \<leftarrow> fc2580_set_init U 2 crystal_khz;
     ret (if r \<noteq> FC2580_FCI_SUCCESS then FUNCTION_ERROR else FUNCTION_SUCCESS) }"

definition fc2580_SetRfFreqHz :: "'h usb_ops \<Rightarrow> nat \<Rightarrow> ('h, int) prog" where
  "fc2580_SetRfFreqHz U RfFreqHz = do {
     r \<leftarrow> fc2580_set_freq U ((RfFreqHz + 500) div 1000 mod 2 ^ 32) crystal_khz;
     ret (if r \<noteq> FC2580_FCI_SUCCESS then FUNCTION_ERROR else FUNCTION_SUCCESS) }"

definition fc2580_SetBandwidthMode :: "'h usb_ops \<Rightarrow> int \<Rightarrow> ('h, int) prog" where
  "fc2580_SetBandwidthMode U BandwidthMode = do {
     r \<leftarrow> fc2580_set_filter U (word_of_int BandwidthMode) crystal_khz;
     ret (if r \<noteq> FC2580_FCI_SUCCESS then FUNCTION_ERROR else FUNCTION_SUCCESS) }"

end
