(* ===== verification/Fc_Chip.thy ===== *)
theory Fc_Chip
  imports I2c_Chip Tuner_fc001x Tuner_fc2580
begin

unbundle bit_operations_syntax

text \<open>
  The Fitipower and FCI drivers on a chip that answers.

  The three drivers reach their chip through a pair of functions that write and read one
  register. The locale \<open>reg_chip\<close> states what such a pair promises, \<open>st f\<close> meaning that the
  registers hold \<open>f\<close>, and holds the lemmas about scripts of writes, read-modify-write and the
  VCO calibration; it is interpreted on the register access of each driver over the bus of
  \<open>I2c_Chip\<close>. Then come the PLL arithmetic of the FC0012 and FC0013 and of the FC2580, the gain
  table of the FC0013, and what the functions leave in the chip.
\<close>

section \<open>The interface of a register chip\<close>

text \<open>Registers after a list of writes; status bits are not stored.\<close>

definition wr_all :: "(u8 \<Rightarrow> u8) \<Rightarrow> (u8 \<times> u8) list \<Rightarrow> (u8 \<Rightarrow> u8) \<Rightarrow> u8 \<Rightarrow> u8" where
  "wr_all stat ps f = fold (\<lambda>(r, v) g. g(r := v AND NOT (stat r))) ps f"

lemma wr_all_simps [simp]:
  "wr_all stat [] f = f"
  "wr_all stat ((r, v) # ps) f = wr_all stat ps (f(r := v AND NOT (stat r)))"
  by (simp_all add: wr_all_def)

lemma wr_all_append: "wr_all stat (ps @ qs) f = wr_all stat qs (wr_all stat ps f)"
  by (simp add: wr_all_def)

lemma wr_all_other: "r \<notin> fst ` set ps \<Longrightarrow> wr_all stat ps f r = f r"
  by (induction ps arbitrary: f) (auto simp: wr_all_def)

lemma wr_all_pll:
  assumes "\<forall>i \<in> {1, 2, 3, 4}. stat i = 0"
  shows "\<forall>i \<in> {1, 2, 3, 4}. wr_all stat (map (\<lambda>i. (of_nat i, regs ! i)) [1..<7]) f (of_nat i) = regs ! i"
proof -
  have "[1..<7] = [1, 2, 3, 4, 5, 6 :: nat]" by (simp add: upt_rec)
  then show ?thesis using assms by simp
qed

locale reg_chip =
  fixes w :: "u8 \<Rightarrow> u8 \<Rightarrow> ('h, int) prog" and r :: "u8 \<Rightarrow> ('h, int \<times> u8) prog"
    and st :: "(u8 \<Rightarrow> u8) \<Rightarrow> 'h \<Rightarrow> bool" and stat :: "u8 \<Rightarrow> u8" and ok :: int
  assumes wr: "yields (st f) (w reg v) ok (st (f(reg := v AND NOT (stat reg))))"
    and rd: "st f h \<Longrightarrow>
      \<exists>x h'. run_state (r reg) h = ((ok, x), h') \<and> st f h' \<and> x AND NOT (stat reg) = f reg"
begin

lemma write_chk:
  assumes "ok = 0" and "yields (st (f(reg := v AND NOT (stat reg)))) k y Q"
  shows "yields (st f) (chk_nz (w reg v) k) y Q"
  unfolding chk_nz_def by (rule yields_bind [OF wr]) (use assms in simp)

lemma seq_nz_writes:
  assumes "ok = 0"
  shows "yields (st f) (seq_nz (map (\<lambda>(r, v). w r v) ps)) 0 (st (wr_all stat ps f))"
proof (induction ps arbitrary: f)
  case Nil
  then show ?case by (simp add: yields_ret)
next
  case (Cons p ps)
  obtain a b where "p = (a, b)" by force
  then show ?case using Cons.IH write_chk [OF assms] by simp
qed

lemma seq_and_writes:
  assumes "ok = 1" and "yields (st (wr_all stat ps f)) (seq_and ms 1) y Q"
  shows "yields (st f) (seq_and (map (\<lambda>(r, v). w r v) ps @ ms) 1) y Q"
  using assms(2)
proof (induction ps arbitrary: f)
  case Nil
  then show ?case by simp
next
  case (Cons p ps)
  obtain a b where p: "p = (a, b)" by force
  show ?case
    unfolding p list.map prod.case append_Cons seq_and.simps
    by (rule yields_bind [OF wr]) (use Cons p assms in simp)
qed

lemma read_chk:
  assumes "ok = 0" and "\<And>x. x AND NOT (stat reg) = f reg \<Longrightarrow> yields (st f) (k x) y Q"
  shows "yields (st f) (chk_nz_val (r reg) k) y Q"
proof (rule yieldsI)
  fix h assume "st f h"
  then obtain x h' where 1: "run_state (r reg) h = ((0, x), h')" "st f h'" "x AND NOT (stat reg) = f reg"
    using rd assms(1) by blast
  from yieldsD [OF assms(2) [OF 1(3)] 1(2)] 1(1)
  show "\<exists>s'. run_state (chk_nz_val (r reg) k) h = (y, s') \<and> Q s'"
    by (simp add: chk_nz_val_def) (metis prod.collapse)
qed

lemma read_modify_write:
  assumes "ok = 0"
  shows "yields (st f) (chk_nz_val (r reg) (\<lambda>x. w reg (k x))) 0 (\<lambda>h. \<exists>g. st g h \<and> (\<forall>i. i \<noteq> reg \<longrightarrow> g i = f i))"
proof (rule read_chk [OF assms])
  fix x
  have "yields (st f) (w reg (k x)) 0 (st (f(reg := k x AND NOT (stat reg))))" using wr assms by simp
  then show "yields (st f) (w reg (k x)) 0 (\<lambda>h. \<exists>g. st g h \<and> (\<forall>i. i \<noteq> reg \<longrightarrow> g i = f i))"
    by (rule yields_post) (auto intro: exI [of _ "f(reg := k x AND NOT (stat reg))"])
qed

lemma write_pll:
  assumes "ok = 0"
  shows "yields (st f) (seq_nz (map (\<lambda>i. w (of_nat i) (regs ! i)) [1..<7])) 0
    (st (wr_all stat (map (\<lambda>i. (of_nat i, regs ! i)) [1..<7]) f))"
proof -
  have "map (\<lambda>i. w (of_nat i) (regs ! i)) [1..<7] =
      map (\<lambda>(r, v). w r v) (map (\<lambda>i. (of_nat i, regs ! i)) [1..<7])" by simp
  then show ?thesis using seq_nz_writes [OF assms] by (simp only:)
qed

text \<open>After the VCO calibration the registers other than 6 and 14 are unchanged.\<close>

lemma calibrate:
  assumes "ok = 0"
  shows "yields (st f) (fc_calibrate w r reg6 sel) 0 (\<lambda>h. \<exists>g. st g h \<and> (\<forall>i. i \<noteq> 0x06 \<and> i \<noteq> 0x0e \<longrightarrow> g i = f i))"
proof -
  let ?Q = "\<lambda>h. \<exists>g. st g h \<and> (\<forall>i. i \<noteq> 0x06 \<and> i \<noteq> 0x0e \<longrightarrow> g i = f i)"
  have seq: "yields (st g) (seq_nz [w 0x06 v, w 0x0e 0x80, w 0x0e 0x00]) 0 ?Q"
    if "\<forall>i. i \<noteq> 0x06 \<and> i \<noteq> 0x0e \<longrightarrow> g i = f i" for g v
  proof (rule yields_post)
    let ?ps = "[(0x06, v), (0x0e, 0x80), (0x0e, 0x00)]"
    show "yields (st g) (seq_nz [w 0x06 v, w 0x0e 0x80, w 0x0e 0x00]) 0 (st (wr_all stat ?ps g))"
      using seq_nz_writes [OF assms, of g ?ps] by simp
    show "?Q h" if "st (wr_all stat ?ps g) h" for h
      using that \<open>\<forall>i. i \<noteq> 0x06 \<and> i \<noteq> 0x0e \<longrightarrow> g i = f i\<close>
      by (intro exI [of _ "wr_all stat ?ps g"] conjI) (auto simp: wr_all_other simp del: wr_all_simps)
  qed
  have fin: "yields (st g) (ret (0 :: int)) 0 ?Q" if "\<forall>i. i \<noteq> 0x06 \<and> i \<noteq> 0x0e \<longrightarrow> g i = f i" for g
    by (rule yields_post [OF yields_ret]) (use that in blast)
  let ?f = "wr_all stat [(0x0e, 0x80), (0x0e, 0x00), (0x0e, 0x00)] f"
  have eq: "\<forall>i. i \<noteq> 0x06 \<and> i \<noteq> 0x0e \<longrightarrow> ?f i = f i" by (auto simp: wr_all_other)
  have first: "yields (st f) (seq_nz [w 0x0e 0x80, w 0x0e 0x00, w 0x0e 0x00]) 0 (st ?f)"
    using seq_nz_writes [OF assms, of f "[(0x0e, 0x80), (0x0e, 0x00), (0x0e, 0x00)]"] by simp
  have rest: "yields (st ?f) (chk_nz_val (r 0x0e) (\<lambda>tmp.
       let tmp = tmp AND 0x3f in
       if sel
       then if tmp > 0x3c then seq_nz [w 0x06 (reg6 AND NOT 0x08), w 0x0e 0x80, w 0x0e 0x00] else ret 0
       else if tmp < 0x02 then seq_nz [w 0x06 (reg6 OR 0x08), w 0x0e 0x80, w 0x0e 0x00] else ret 0)) 0 ?Q"
    by (rule read_chk [OF assms]) (use seq [OF eq] fin [OF eq] in \<open>simp add: Let_def del: seq_nz.simps wr_all_simps\<close>)
  show ?thesis
    unfolding fc_calibrate_def chk_nz_def [of "seq_nz [w 0x0e 0x80, w 0x0e 0x00, w 0x0e 0x00]"]
    by (rule yields_bind [OF first]) (use rest in simp)
qed

end

definition bus_at ::
  "'h usb_ops \<Rightarrow> u8 \<Rightarrow> ('h \<Rightarrow> u8 \<Rightarrow> u8) \<Rightarrow> ('h \<Rightarrow> u8) \<Rightarrow> (u8 \<Rightarrow> u8) \<Rightarrow> (u8 \<Rightarrow> u8) \<Rightarrow> 'h \<Rightarrow> bool" where
  "bus_at U a chip ptr stat f h \<longleftrightarrow> reg_bus U a chip ptr stat {} \<and> chip h = f"

lemma bus_at_write:
  "yields (bus_at U a chip ptr stat f) (rtlsdr_i2c_write_fn U a [reg, v] 2) 2
     (bus_at U a chip ptr stat (f(reg := v AND NOT (stat reg))))"
proof (rule yieldsI)
  fix h assume "bus_at U a chip ptr stat f h"
  then show "\<exists>h'. run_state (rtlsdr_i2c_write_fn U a [reg, v] 2) h = (2, h') \<and>
      bus_at U a chip ptr stat (f(reg := v AND NOT (stat reg))) h'"
    using reg_bus_write [of U a chip ptr stat "{}" reg v h] unfolding bus_at_def by auto
qed

lemma bus_at_read:
  assumes "bus_at U a chip ptr stat f h"
  obtains h1 x h2 where "run_state (rtlsdr_i2c_write_fn U a [reg] 1) h = (1, h1)"
    and "\<And>b. run_state (rtlsdr_i2c_read_fn U a [b] 1) h1 = ((1, [x]), h2)"
    and "bus_at U a chip ptr stat f h2" and "x AND NOT (stat reg) = f reg"
  using assms reg_bus_read [of U a chip ptr stat "{}" reg h] unfolding bus_at_def by metis

lemma chip_usb_at: "bus_at (chip_usb stat) a (chip_view stat) snd stat (chip_view stat h) h"
  by (simp add: bus_at_def chip_usb_bus)

interpretation fc0012: reg_chip "fc0012_writereg U" "fc0012_readreg U" "bus_at U 0xc6 chip ptr stat" stat 0
  for U :: "'h usb_ops" and chip ptr stat
proof
  show "yields (bus_at U 0xc6 chip ptr stat f) (fc0012_writereg U reg v) 0
      (bus_at U 0xc6 chip ptr stat (f(reg := v AND NOT (stat reg))))" for f reg v
    unfolding fc0012_writereg_def by (rule yields_bind [OF bus_at_write]) (simp add: yields_ret)
  show "\<exists>x h'. run_state (fc0012_readreg U reg) h = ((0, x), h') \<and> bus_at U 0xc6 chip ptr stat f h' \<and>
      x AND NOT (stat reg) = f reg" if "bus_at U 0xc6 chip ptr stat f h" for f h reg
    using that by (rule bus_at_read [where reg = reg]) (auto simp: fc0012_readreg_def)
qed

interpretation fc0013: reg_chip "fc0013_writereg U" "fc0013_readreg U" "bus_at U 0xc6 chip ptr stat" stat 0
  for U :: "'h usb_ops" and chip ptr stat
proof
  show "yields (bus_at U 0xc6 chip ptr stat f) (fc0013_writereg U reg v) 0
      (bus_at U 0xc6 chip ptr stat (f(reg := v AND NOT (stat reg))))" for f reg v
    unfolding fc0013_writereg_def by (rule yields_bind [OF bus_at_write]) (simp add: yields_ret)
  show "\<exists>x h'. run_state (fc0013_readreg U reg) h = ((0, x), h') \<and> bus_at U 0xc6 chip ptr stat f h' \<and>
      x AND NOT (stat reg) = f reg" if "bus_at U 0xc6 chip ptr stat f h" for f h reg
    using that by (rule bus_at_read [where reg = reg]) (auto simp: fc0013_readreg_def)
qed

interpretation fc2580: reg_chip "fc2580_i2c_write U" "fc2580_i2c_read U" "bus_at U 0xac chip ptr stat" stat 1
  for U :: "'h usb_ops" and chip ptr stat
proof
  show "yields (bus_at U 0xac chip ptr stat f) (fc2580_i2c_write U reg v) 1
      (bus_at U 0xac chip ptr stat (f(reg := v AND NOT (stat reg))))" for f reg v
    unfolding fc2580_i2c_write_def by (rule yields_bind [OF bus_at_write]) (simp add: yields_ret)
  show "\<exists>x h'. run_state (fc2580_i2c_read U reg) h = ((1, x), h') \<and> bus_at U 0xac chip ptr stat f h' \<and>
      x AND NOT (stat reg) = f reg" if "bus_at U 0xac chip ptr stat f h" for f h reg
    using that by (rule bus_at_read [where reg = reg]) (auto simp: fc2580_i2c_read_def)
qed

section \<open>The PLL of the FC0012 and FC0013\<close>

lemma mod_add_sub:
  assumes "b \<le> a" and "a < m"
  shows "(a + m - b) mod m = a - (b :: nat)"
proof -
  have "a + m - b = a - b + m" using assms by simp
  then have "(a + m - b) mod m = (a - b) mod m" by (simp only: mod_add_self2)
  then show ?thesis using assms by simp
qed

text \<open>
  The range in which the arithmetic of the drivers does not wrap: \<open>f\<close> is the VCO frequency,
  \<open>q\<close> half the tuner clock in kHz.
\<close>

definition fc_range :: "nat \<Rightarrow> nat \<Rightarrow> bool" where
  "fc_range f q \<longleftrightarrow> f < 2 ^ 32 \<and> even q \<and> 10000 \<le> q \<and> q \<le> 32767"

definition fc_frac :: "nat \<Rightarrow> nat \<Rightarrow> nat" where
  "fc_frac f q = f mod (1000 * q) div 1000 * 32768 div q"

lemma fc_quotient: "fc_range f q \<Longrightarrow> f div (1000 * q) \<le> 429"
proof -
  assume "fc_range f q"
  then have "f div (1000 * q) \<le> f div 10000000" unfolding fc_range_def by (intro div_le_mono2) simp_all
  also have "f div 10000000 \<le> 429"
    using \<open>fc_range f q\<close> div_le_mono [of f "2 ^ 32 - 1" 10000000] by (simp add: fc_range_def)
  finally show ?thesis .
qed

lemma fc_xdiv_range:
  assumes "fc_range f q"
  shows "fc_xdiv f (1000 * q) = (if f mod (1000 * q) \<ge> 500 * q then f div (1000 * q) + 1 else f div (1000 * q))"
proof -
  have le: "f div (1000 * q) * (1000 * q) \<le> f" by (rule div_times_less_eq_dividend)
  then have "f div (1000 * q) * (1000 * q) mod 2 ^ 32 = f div (1000 * q) * (1000 * q)"
    using assms unfolding fc_range_def by (intro mod_less) linarith
  moreover have "(f + 2 ^ 64 - f div (1000 * q) * (1000 * q)) mod 2 ^ 64 = f mod (1000 * q)"
    using assms le by (subst mod_add_sub) (simp_all add: fc_range_def minus_div_mult_eq_mod)
  ultimately have "(f + 2 ^ 64 - f div (1000 * q) * (1000 * q) mod 2 ^ 32) mod 2 ^ 64 = f mod (1000 * q)"
    by (simp only:)
  then show ?thesis
    using fc_quotient [OF assms] by (simp add: fc_xdiv_def Let_def)
qed

lemma fc_khz_less: "fc_range f q \<Longrightarrow> f mod (1000 * q) div 1000 < q"
  using mod_less_divisor [of "1000 * q" f] by (simp add: fc_range_def less_mult_imp_div_less mult.commute)

lemma fc_frac_less: "fc_range f q \<Longrightarrow> fc_frac f q < 32768"
  using mult_strict_right_mono [OF fc_khz_less, of f q 32768]
  by (simp add: fc_frac_def less_mult_imp_div_less mult.commute)

lemma fc_xin_range:
  assumes "fc_range f q"
  shows "fc_xin f (1000 * q) = (if fc_frac f q \<ge> 16384 then fc_frac f q + 32768 else fc_frac f q)"
proof -
  have "f mod (1000 * q) div 1000 < 2 ^ 16" using fc_khz_less [OF assms] assms by (simp add: fc_range_def)
  moreover have "f - f div (1000 * q) * (1000 * q) = f mod (1000 * q)" by (rule minus_div_mult_eq_mod)
  ultimately show ?thesis
    using fc_frac_less [OF assms] by (simp add: fc_xin_def Let_def fc_frac_def)
qed

text \<open>The two rounding decisions of the code, one on Hz and one on the fraction, agree.\<close>

lemma fc_round_agree:
  assumes "fc_range f q"
  shows "16384 \<le> fc_frac f q \<longleftrightarrow> 500 * q \<le> f mod (1000 * q)"
proof -
  obtain p where p: "q = 2 * p" using assms by (auto simp: fc_range_def)
  have "16384 \<le> fc_frac f q \<longleftrightarrow> 16384 * q \<le> f mod (1000 * q) div 1000 * 32768"
    unfolding fc_frac_def using assms by (simp add: less_eq_div_iff_mult_less_eq fc_range_def)
  also have "\<dots> \<longleftrightarrow> p \<le> f mod (1000 * q) div 1000" using p by simp
  also have "\<dots> \<longleftrightarrow> 500 * q \<le> f mod (1000 * q)" using p by (simp add: less_eq_div_iff_mult_less_eq mult.commute)
  finally show ?thesis .
qed

lemma fc_frac_accurate:
  assumes "fc_range f q"
  shows "1000 * q * (32768 * (f div (1000 * q)) + fc_frac f q) \<le> 32768 * f"
    and "32768 * f < 1000 * q * (32768 * (f div (1000 * q)) + fc_frac f q) + 1000 * q + 32768000"
proof -
  define n where "n = f div (1000 * q)"
  define m where "m = f mod (1000 * q)"
  have f: "f = n * (1000 * q) + m" unfolding n_def m_def by (rule div_mult_mod_eq [symmetric])
  have x: "fc_frac f q = m div 1000 * 32768 div q" by (simp add: fc_frac_def m_def)
  have 1: "fc_frac f q * q \<le> m div 1000 * 32768" unfolding x by (rule div_times_less_eq_dividend)
  have 2: "m div 1000 * 32768 < fc_frac f q * q + q"
    using assms mod_less_divisor [of q "m div 1000 * 32768"] div_mult_mod_eq [of "m div 1000 * 32768" q]
    unfolding x fc_range_def by linarith
  have 3: "m div 1000 * 1000 \<le> m" "m < m div 1000 * 1000 + 1000"
    using div_mult_mod_eq [of m 1000] mod_less_divisor [of 1000 m] by linarith+
  have e: "32768 * f = 1000 * q * (32768 * n) + 32768 * m" by (subst f) (simp add: algebra_simps)
  have c: "1000 * q * fc_frac f q = 1000 * (fc_frac f q * q)" by (simp add: algebra_simps)
  show "1000 * q * (32768 * (f div (1000 * q)) + fc_frac f q) \<le> 32768 * f"
    unfolding n_def [symmetric] distrib_left c e using 1 3 by linarith
  show "32768 * f < 1000 * q * (32768 * (f div (1000 * q)) + fc_frac f q) + 1000 * q + 32768000"
    unfolding n_def [symmetric] distrib_left c e using 2 3 by linarith
qed

text \<open>The split of the divider into the two counters, and when the code accepts it.\<close>

lemma fc_am_pm_split:
  assumes "a < 8" and "2 \<le> 8 * k + a" and "k \<le> 53"
  shows "fc_am_pm (8 * k + a) =
    (let (am, pm) = (if a < 2 then (a + 8, k - 1) else (a, k))
     in if pm > 31 then (am + 8 * (pm - 31), 31) else (am, pm))"
proof -
  have "(8 * k + a) div 8 mod 256 = k" using assms by simp
  moreover have "nat ((int (8 * k + a) - 8 * int k) mod 256) = a" using assms by simp
  moreover have "(k + 255) mod 256 = k - 1" if "a < 2"
    using assms that by (subst le_mod_geq) simp_all
  ultimately show ?thesis
    using assms unfolding fc_am_pm_def Let_def by (auto intro!: mod_less)
qed

lemma fc_am_pm_cases:
  assumes "fc_am_pm xdiv = (am, pm)" and "2 \<le> xdiv" and "xdiv \<le> 430"
  shows "8 * pm + am = xdiv" and "90 \<le> xdiv \<and> xdiv \<le> 263 \<longleftrightarrow> am \<le> 15 \<and> 11 \<le> pm"
    and "am < 256" and "pm < 32"
proof -
  define k a where "k = xdiv div 8" and "a = xdiv mod 8"
  have x: "xdiv = 8 * k + a" "a < 8" by (simp_all add: k_def a_def)
  have le: "k \<le> 53" using assms(3) by (simp add: k_def)
  have "(am, pm) = (let (am, pm) = (if a < 2 then (a + 8, k - 1) else (a, k))
     in if pm > 31 then (am + 8 * (pm - 31), 31) else (am, pm))"
    using fc_am_pm_split [of a k] assms x le by simp
  then have *: "am = (if a < 2 then if k > 32 then a + 8 + 8 * (k - 32) else a + 8
                 else if k > 31 then a + 8 * (k - 31) else a)"
    "pm = (if a < 2 then if k > 32 then 31 else k - 1 else if k > 31 then 31 else k)"
    by (auto split: if_splits)
  show "8 * pm + am = xdiv" "90 \<le> xdiv \<and> xdiv \<le> 263 \<longleftrightarrow> am \<le> 15 \<and> 11 \<le> pm" "am < 256" "pm < 32"
    using x le assms(2,3) unfolding * by (simp_all split: if_split) arith+
qed

text \<open>
  The divider that registers 1 to 4 describe, in units of 1/32768: the counters and the
  signed fraction.
\<close>

definition fc_n :: "(u8 \<Rightarrow> u8) \<Rightarrow> int" where
  "fc_n g = 32768 * (8 * uint (g 2) + uint (g 1)) + signed_take_bit 15 (256 * uint (g 3) + uint (g 4))"

lemma uint_byte: "n < 256 \<Longrightarrow> uint (word_of_nat n :: u8) = int n"
  by (simp add: unsigned_of_nat take_bit_nat_eq_self)

lemma signed16_wrap: "signed_take_bit 15 (y + 65536) = signed_take_bit 15 (y :: int)"
  by (simp add: signed_take_bit_eq_iff_take_bit_eq take_bit_eq_mod)

lemma fc_n_regs:
  assumes "fc_range f q" and "2000 * q \<le> f"
    and "fc_am_pm (fc_xdiv f (1000 * q)) = (am, pm)" and "fc_xin f (1000 * q) = xin"
    and "g 1 = word_of_nat am" and "g 2 = word_of_nat pm"
    and "g 3 = word_of_nat (xin div 256)" and "g 4 = word_of_nat (xin mod 256)"
  shows "fc_n g = 32768 * int (f div (1000 * q)) + int (fc_frac f q)"
proof -
  let ?n = "f div (1000 * q)"
  have "2 \<le> ?n" using assms(1,2) by (simp add: less_eq_div_iff_mult_less_eq fc_range_def)
  then have x: "2 \<le> fc_xdiv f (1000 * q)" "fc_xdiv f (1000 * q) \<le> 430"
    using fc_quotient [OF assms(1)] by (simp_all add: fc_xdiv_range [OF assms(1)])
  note ap = fc_am_pm_cases [OF assms(3) x]
  have xin: "xin = (if fc_frac f q \<ge> 16384 then fc_frac f q + 32768 else fc_frac f q)"
    using assms(4) fc_xin_range [OF assms(1)] by simp
  have lt: "fc_frac f q < 32768" by (rule fc_frac_less [OF assms(1)])
  have "256 * uint (g 3) + uint (g 4) = int xin"
    using lt xin unfolding assms(7,8)
    by (subst (1 2) uint_byte) (auto simp: less_mult_imp_div_less zdiv_int zmod_int split: if_splits)
  moreover have "signed_take_bit 15 (int xin) = int (fc_frac f q) - (if fc_frac f q \<ge> 16384 then 32768 else 0)"
  proof (cases "fc_frac f q \<ge> 16384")
    case True
    then have "signed_take_bit 15 (int xin) = signed_take_bit 15 (int (fc_frac f q) - 32768)"
      using xin signed16_wrap [of "int (fc_frac f q) - 32768"] by (simp add: add.commute)
    then show ?thesis using True lt by (simp add: signed_take_bit_int_eq_self)
  next
    case False
    then show ?thesis using xin by (simp add: signed_take_bit_int_eq_self)
  qed
  moreover have "8 * uint (g 2) + uint (g 1) = int (fc_xdiv f (1000 * q))"
    using ap unfolding assms(5,6) by (simp add: uint_byte)
  ultimately show ?thesis
    using fc_round_agree [OF assms(1)] by (simp add: fc_n_def fc_xdiv_range [OF assms(1)])
qed

lemma fc_pll_decision:
  assumes "fc_range (freq * multi) q" and "2000 * q \<le> freq * multi"
    and "fc_am_pm (fc_xdiv (freq * multi) (1000 * q)) = (am, pm)" and "fc_xin (freq * multi) (1000 * q) = xin"
  shows "fc_pll (multi, r5, r6) (2000 * q) freq bandwidth =
    (if 90 \<le> fc_xdiv (freq * multi) (1000 * q) \<and> fc_xdiv (freq * multi) (1000 * q) \<le> 263
     then FC_Pll [0, of_nat am, of_nat pm, of_nat (xin div 256), of_nat (xin mod 256), r5 OR 0x07,
       (((if freq * multi \<ge> 3060000000 then r6 OR 0x08 else r6) OR 0x20) AND 0x3f) OR fc_bandwidth_bits bandwidth]
       (freq * multi \<ge> 3060000000)
     else FC_Invalid)"
proof -
  let ?f = "freq * multi"
  have "2 \<le> ?f div (1000 * q)" using assms(1,2) by (simp add: less_eq_div_iff_mult_less_eq fc_range_def)
  then have x: "2 \<le> fc_xdiv ?f (1000 * q)" "fc_xdiv ?f (1000 * q) \<le> 430"
    using fc_quotient [OF assms(1)] by (simp_all add: fc_xdiv_range [OF assms(1)])
  have "\<not> (15 < am \<or> pm < 11) \<longleftrightarrow> 90 \<le> fc_xdiv ?f (1000 * q) \<and> fc_xdiv ?f (1000 * q) \<le> 263"
    using fc_am_pm_cases(2) [OF assms(3) x] by auto
  moreover have "?f mod 2 ^ 32 = ?f" "1000 * q div 1000 \<noteq> 0" "2000 * q div 2 = 1000 * q"
    using assms(1) by (simp_all add: fc_range_def)
  ultimately show ?thesis
    unfolding fc_pll_def prod.case Let_def assms(3,4) by (simp only: assms(3,4) prod.case if_False if_True) auto
qed

text \<open>The divider of an accepted frequency is in range, whatever the rounding.\<close>

lemma fc_xdiv_accept:
  assumes "fc_range f q" and "90000 * q \<le> f" and "f \<le> 263000 * q"
  shows "90 \<le> fc_xdiv f (1000 * q) \<and> fc_xdiv f (1000 * q) \<le> 263"
proof -
  have "90 \<le> f div (1000 * q)" using assms by (simp add: less_eq_div_iff_mult_less_eq fc_range_def)
  moreover have "f div (1000 * q) \<le> 263"
    using assms div_le_mono [OF assms(3), of "1000 * q"] by (simp add: fc_range_def)
  moreover have "f div (1000 * q) \<noteq> 263" if "500 * q \<le> f mod (1000 * q)"
    using that assms div_mult_mod_eq [of f "1000 * q"] by (auto simp: fc_range_def)
  ultimately show ?thesis by (simp add: fc_xdiv_range [OF assms(1)]) linarith
qed

lemma fc_xdiv_reject:
  assumes "fc_range f q" and "f < 89500 * q \<or> 263500 * q \<le> f"
  shows "\<not> (90 \<le> fc_xdiv f (1000 * q) \<and> fc_xdiv f (1000 * q) \<le> 263)"
proof -
  define n m where "n = f div (1000 * q)" and "m = f mod (1000 * q)"
  have f: "f = 1000 * (n * q) + m" "m < 1000 * q" "0 < q"
    using assms(1) div_mult_mod_eq [of f "1000 * q"] by (simp_all add: n_def m_def fc_range_def)
  consider "f < 89500 * q" | "263500 * q \<le> f" using assms(2) by blast
  then have "(if 500 * q \<le> m then n + 1 else n) < 90 \<or> 263 < (if 500 * q \<le> m then n + 1 else n)"
  proof cases
    case 1
    have "n < 90"
    proof (rule ccontr)
      assume "\<not> n < 90"
      then have "90 * q \<le> n * q" by (intro mult_le_mono1) simp
      then show False using 1 f by linarith
    qed
    moreover have "n \<noteq> 89" if "500 * q \<le> m" using 1 f(1) that by auto
    ultimately show ?thesis by auto
  next
    case 2
    have "263 \<le> n"
    proof (rule ccontr)
      assume "\<not> 263 \<le> n"
      then have "n * q \<le> 262 * q" by (intro mult_le_mono1) simp
      then show False using 2 f by linarith
    qed
    moreover have "500 * q \<le> m" if "n = 263" using 2 f(1) that by auto
    ultimately show ?thesis by (cases "n = 263") auto
  qed
  then show ?thesis by (auto simp: fc_xdiv_range [OF assms(1)] n_def m_def)
qed

lemma fc_pll_accept:
  assumes "fc_range (freq * multi) q" and "90000 * q \<le> freq * multi" and "freq * multi \<le> 263000 * q"
  obtains regs sel where "fc_pll (multi, r5, r6) (2000 * q) freq bandwidth = FC_Pll regs sel"
    and "fc_n (\<lambda>i. regs ! unat i) =
      32768 * int (freq * multi div (1000 * q)) + int (fc_frac (freq * multi) q)"
proof -
  have ge: "2000 * q \<le> freq * multi" using assms(2) by linarith
  obtain am pm where ap: "fc_am_pm (fc_xdiv (freq * multi) (1000 * q)) = (am, pm)" by fastforce
  from fc_pll_decision [OF assms(1) ge ap refl, of r5 r6 bandwidth] fc_xdiv_accept [OF assms]
  show ?thesis by (elim that [OF trans]) (auto intro!: fc_n_regs [OF assms(1) ge ap refl])
qed

text \<open>How far the VCO is from the wanted frequency, in units of 1/32768 Hz.\<close>

definition fc_tuned :: "nat \<Rightarrow> nat \<Rightarrow> (u8 \<Rightarrow> u8) \<Rightarrow> bool" where
  "fc_tuned f_vco x2 g \<longleftrightarrow>
     0 \<le> 32768 * int f_vco - int x2 * fc_n g \<and> 32768 * int f_vco - int x2 * fc_n g < int x2 + 32768000"

lemma fc_tuned_regs:
  assumes "fc_range f q" and "fc_n g = 32768 * int (f div (1000 * q)) + int (fc_frac f q)"
  shows "fc_tuned f (1000 * q) g"
proof -
  have "int (1000 * q) * fc_n g = int (1000 * q * (32768 * (f div (1000 * q)) + fc_frac f q))"
    by (simp only: assms(2) of_nat_mult of_nat_add of_nat_numeral)
  then show ?thesis
    using fc_frac_accurate [OF assms(1)] unfolding fc_tuned_def by linarith
qed

lemma yields_chk_nz: "yields P m 0 Q \<Longrightarrow> yields Q k y R \<Longrightarrow> yields P (chk_nz m k) y R"
  unfolding chk_nz_def by (erule yields_bind) simp

lemma fc_tuned_kept:
  assumes "fc_range f q" and "fc_n (\<lambda>i. regs ! unat i) = 32768 * int (f div (1000 * q)) + int (fc_frac f q)"
    and "bus_at U a chip ptr stat g h" and "\<forall>i. i \<noteq> 0x06 \<and> i \<noteq> 0x0e \<longrightarrow> g i = f' i"
    and "\<forall>i \<in> {1, 2, 3, 4}. f' (of_nat i) = regs ! i"
  shows "fc_tuned f (1000 * q) (chip h)"
proof -
  have "fc_n (chip h) = fc_n (\<lambda>i. regs ! unat i)" using assms(3-5) by (simp add: fc_n_def bus_at_def)
  then show ?thesis using assms(1,2) by (intro fc_tuned_regs) simp_all
qed

lemma fc0012_yields:
  assumes "fc_range (freq * fst (fc0012_divider freq)) q" and "\<forall>i \<in> {1, 2, 3, 4}. stat i = 0"
    and "90000 * q \<le> freq * fst (fc0012_divider freq)" and "freq * fst (fc0012_divider freq) \<le> 263000 * q"
  shows "yields (bus_at U 0xc6 chip ptr stat f) (fc0012_set_params U (2000 * q) freq bandwidth) 0
    (\<lambda>h. fc_tuned (freq * fst (fc0012_divider freq)) (1000 * q) (chip h))"
proof -
  obtain multi r5 r6 where d: "fc0012_divider freq = (multi, r5, r6)" by (metis prod_cases3)
  from assms have a: "fc_range (freq * multi) q" "90000 * q \<le> freq * multi" "freq * multi \<le> 263000 * q"
    by (simp_all add: d)
  obtain regs sel where pll: "fc_pll (multi, r5, r6) (2000 * q) freq bandwidth = FC_Pll regs sel"
    "fc_n (\<lambda>i. regs ! unat i) =
      32768 * int (freq * multi div (1000 * q)) + int (fc_frac (freq * multi) q)"
    by (rule fc_pll_accept [OF a, of r5 r6 bandwidth])
  show ?thesis
    unfolding fc0012_set_params_def d pll(1) fc_pll_result.case fst_conv
    by (rule yields_chk_nz [OF fc0012.write_pll [OF refl]], rule yields_post [OF fc0012.calibrate [OF refl]])
      (elim exE conjE, erule (1) fc_tuned_kept [OF a(1) pll(2)], simp add: wr_all_pll [OF assms(2), simplified])
qed

lemma fc0013_select_band_yields:
  "yields (bus_at U 0xc6 chip ptr stat f) (fc0013_select_band U freq) 0 (\<lambda>h. \<exists>g. bus_at U 0xc6 chip ptr stat g h)"
  unfolding fc0013_select_band_def
  by (intro yields_if; rule fc0013.read_chk [OF refl], rule fc0013.write_chk [OF refl],
      rule yields_post [OF fc0013.read_modify_write [OF refl]], blast)

lemma fc0013_vhf_track_yields:
  "yields (bus_at U 0xc6 chip ptr stat f) (fc0013_set_vhf_track U freq) 0 (\<lambda>h. \<exists>g. bus_at U 0xc6 chip ptr stat g h)"
  unfolding fc0013_set_vhf_track_def
  by (rule yields_post [OF fc0013.read_modify_write [OF refl]]) blast

lemma fc0013_yields:
  assumes "fc_range (freq * fst (fc0013_divider freq)) q" and "\<forall>i \<in> {1, 2, 3, 4}. stat i = 0"
    and "90000 * q \<le> freq * fst (fc0013_divider freq)" and "freq * fst (fc0013_divider freq) \<le> 263000 * q"
  shows "yields (bus_at U 0xc6 chip ptr stat f) (fc0013_set_params U (2000 * q) freq bandwidth) 0
    (\<lambda>h. fc_tuned (freq * fst (fc0013_divider freq)) (1000 * q) (chip h))"
proof -
  obtain multi r5 r6 where d: "fc0013_divider freq = (multi, r5, r6)" by (metis prod_cases3)
  from assms have a: "fc_range (freq * multi) q" "90000 * q \<le> freq * multi" "freq * multi \<le> 263000 * q"
    by (simp_all add: d)
  obtain regs sel where pll: "fc_pll (multi, r5, r6) (2000 * q) freq bandwidth = FC_Pll regs sel"
    "fc_n (\<lambda>i. regs ! unat i) =
      32768 * int (freq * multi div (1000 * q)) + int (fc_frac (freq * multi) q)"
    by (rule fc_pll_accept [OF a, of r5 r6 bandwidth])
  show ?thesis
    unfolding fc0013_set_params_def d pll(1) fc_pll_result.case fst_conv
    by (rule yields_chk_nz [OF fc0013_vhf_track_yields], rule yields_ex,
        rule yields_chk_nz [OF fc0013_select_band_yields], rule yields_ex,
        rule yields_chk_nz [OF fc0013.write_pll [OF refl]],
        rule fc0013.read_chk [OF refl], rule fc0013.write_chk [OF refl],
        rule yields_post [OF fc0013.calibrate [OF refl]])
      (elim exE conjE, erule (1) fc_tuned_kept [OF a(1) pll(2)], simp add: wr_all_pll [OF assms(2), simplified])
qed

section \<open>The FC2580\<close>

lemma fc2580_writes_yields:
  assumes "yields (bus_at U 0xac chip ptr stat (wr_all stat ps f)) (seq_and ms 1) y Q"
  shows "yields (bus_at U 0xac chip ptr stat f) (seq_and (writes U ps @ ms) 1) y Q"
  using fc2580.seq_and_writes [OF refl assms] unfolding writes_def .

lemma fc2580_writes_end:
  "yields (bus_at U 0xac chip ptr stat f) (seq_and (writes U ps) 1) 1
     (bus_at U 0xac chip ptr stat (wr_all stat ps f))"
  using fc2580_writes_yields [of U chip ptr stat ps f "[]"] by (simp add: yields_ret)

lemma filter_cal_yields:
  "yields (bus_at U 0xac chip ptr stat f) (filter_cal U n cal_mon 1) 1 (\<lambda>h. \<exists>g. bus_at U 0xac chip ptr stat g h)"
proof (induction n arbitrary: f cal_mon)
  case 0
  show ?case unfolding filter_cal.simps by (rule yields_exI [OF yields_ret])
next
  case (Suc n)
  show ?case
  proof (rule yieldsI)
    fix h assume "bus_at U 0xac chip ptr stat f h"
    then obtain x h1 where 1: "run_state (fc2580_i2c_read U 0x2F) h = ((1, x), h1)" "bus_at U 0xac chip ptr stat f h1"
      using fc2580.rd [of U chip ptr stat f h "0x2F"] by blast
    have y: "yields (bus_at U 0xac chip ptr stat f)
        (if x AND 0xC0 \<noteq> 0xC0 then do {
           result \<leftarrow> seq_and (writes U [(0x2E, 0x01), (0x2E, 0x09)]) 1; filter_cal U n x result }
         else ret 1) 1 (\<lambda>h. \<exists>g. bus_at U 0xac chip ptr stat g h)"
      by (intro yields_if yields_bind [OF fc2580_writes_end] Suc.IH yields_exI [OF yields_ret])
    moreover have "run_state (filter_cal U (Suc n) cal_mon 1) h = run_state
        (if x AND 0xC0 \<noteq> 0xC0 then do {
           result \<leftarrow> seq_and (writes U [(0x2E, 0x01), (0x2E, 0x09)]) 1; filter_cal U n x result }
         else ret 1) h1"
      using 1(1) by (simp add: Let_def del: seq_and.simps)
    ultimately show "\<exists>h'. run_state (filter_cal U (Suc n) cal_mon 1) h = (1, h') \<and>
        (\<exists>g. bus_at U 0xac chip ptr stat g h')"
      using yieldsD [OF y 1(2)] by (metis prod.collapse)
  qed
qed

lemma fc2580_set_filter_yields:
  "yields (bus_at U 0xac chip ptr stat f) (fc2580_set_filter U bw xtal) 1 (\<lambda>h. \<exists>g. bus_at U 0xac chip ptr stat g h)"
  unfolding fc2580_set_filter_def
  by (rule yields_bind [OF fc2580_writes_end], rule yields_bind [OF filter_cal_yields], rule yields_ex,
      rule yields_post [OF fc2580_writes_end], blast)

lemma seq_and_Cons_yields: "yields P m 1 Q \<Longrightarrow> yields Q (seq_and ms 1) y R \<Longrightarrow> yields P (seq_and (m # ms) 1) y R"
  unfolding seq_and.simps by (erule yields_bind) simp

lemma fc2580_set_freq_yields:
  "yields (bus_at U 0xac chip ptr stat f) (fc2580_set_freq U f_lo xtal) 1
    (\<lambda>h. \<exists>g. bus_at U 0xac chip ptr stat (wr_all stat (pll_script (fc2580_band f_lo) f_lo xtal) g) h)"
  unfolding fc2580_set_freq_def Let_def append_Cons append_Nil
  by (rule fc2580_writes_yields, rule seq_and_Cons_yields [OF fc2580_set_filter_yields], rule yields_ex,
      rule yields_post [OF fc2580_writes_end], blast)

lemma fc2580_set_init_yields:
  "yields (bus_at U 0xac chip ptr stat f) (fc2580_set_init U mode xtal) 1 (\<lambda>h. \<exists>g. bus_at U 0xac chip ptr stat g h)"
  unfolding fc2580_set_init_def
  by (rule fc2580_writes_yields, rule seq_and_Cons_yields [OF fc2580_set_filter_yields])
    (simp add: yields_ret)

text \<open>The frequency that the registers describe, in units of 1/2^20 kHz at the VCO.\<close>

definition fc2580_out_div :: "u8 \<Rightarrow> nat" where
  "fc2580_out_div r2 = (if bit r2 7 then 12 else if bit r2 6 then 2 else 4)"

definition fc2580_ref_div :: "u8 \<Rightarrow> nat" where
  "fc2580_ref_div r18 = (if bit r18 5 then 4 else if bit r18 4 then 2 else 1)"

definition fc2580_k :: "(u8 \<Rightarrow> u8) \<Rightarrow> nat" where
  "fc2580_k g = 65536 * unat (g 0x18 AND 0x0F) + 256 * unat (g 0x1A) + unat (g 0x1B)"

definition fc2580_vco :: "(u8 \<Rightarrow> u8) \<Rightarrow> nat" where
  "fc2580_vco g = 2 * (16384 div fc2580_ref_div (g 0x18)) * (2 ^ 20 * unat (g 0x1C) + fc2580_k g)"

text \<open>One choice of the comparison frequency: it divides all the constants of the computation.\<close>

lemma fc2580_fraction:
  fixes c v :: nat
  assumes "c = 16384 \<or> c = 8192 \<or> c = 4096" and "v < 2 ^ 32"
  defines "n \<equiv> v div 2 div c"
  shows "2 * c * (2 ^ 20 * n + fc2580_k_val v c n) = 2 ^ 20 * v" and "fc2580_k_val v c n < 2 ^ 20"
proof -
  define m where "m = v mod (2 * c)"
  obtain e s where s: "s * e = 2 ^ 16" "2 * c = 16 * s" "0 < s" "2 * c mod 2 ^ 32 div 2 ^ 4 = s"
    using assms(1) by (elim disjE) (rule that [of 2048 32] that [of 1024 64] that [of 512 128]; simp)+
  have n: "n = v div (2 * c)" by (simp add: n_def div_mult2_eq)
  have v: "v = 2 * c * n + m" by (simp add: n m_def)
  have ml: "m < 2 * c" "m < 32768" using assms(1) unfolding m_def by auto
  have "2 * c * n mod 2 ^ 32 = 2 * c * n" using v assms(2) by (intro mod_less) linarith
  then have "(v + 2 ^ 32 - 2 * c * n mod 2 ^ 32) mod 2 ^ 32 = m"
    using mod_add_sub [of "2 * c * n" v "2 ^ 32"] v assms(2) by simp
  moreover have "m * 2 ^ 16 mod 2 ^ 32 = m * 2 ^ 16" using ml by simp
  moreover have k: "m * 2 ^ 16 div s = m * e" using s(3) unfolding s(1) [symmetric] by (simp add: mult.left_commute)
  moreover have "(m * 2 ^ 16 + 2 ^ 32 - m * e * s mod 2 ^ 32) mod 2 ^ 32 = 0"
  proof -
    have e: "m * e * s = m * 2 ^ 16" unfolding s(1) [symmetric] by (simp add: ac_simps)
    have "m * 2 ^ 16 < 2 ^ 32" using ml by simp
    then show ?thesis unfolding e using mod_add_sub [of "m * 2 ^ 16" "m * 2 ^ 16" "2 ^ 32"] by simp
  qed
  moreover have "0 < c div 2 ^ 4" using assms(1) by auto
  ultimately have kv: "fc2580_k_val v c n = m * e"
    unfolding fc2580_k_val_def Let_def s(4) by simp
  have "2 * c * (m * e) = 2 ^ 20 * m"
    using s(1) unfolding s(2) by (simp add: ac_simps)
  then show "2 * c * (2 ^ 20 * n + fc2580_k_val v c n) = 2 ^ 20 * v"
    unfolding kv by (subst v) (simp add: algebra_simps)
  have "m * 2 ^ 16 < s * 2 ^ 20" using ml(1) s(2) by simp
  then show "fc2580_k_val v c n < 2 ^ 20"
    unfolding kv k [symmetric] by (simp add: less_mult_imp_div_less mult.commute)
qed

lemma fc2580_pll_exact:
  assumes "fc2580_pll f_lo 16384 = (f_vco, r, n, k)"
  shows "2 * (16384 div r) * (2 ^ 20 * n + k) = 2 ^ 20 * f_vco" and "k < 2 ^ 20" and "r \<in> {1, 2, 4}"
    and "f_vco < 2 ^ 23 \<Longrightarrow> n < 256" and "f_vco = fc2580_f_vco f_lo"
proof -
  show v: "f_vco = fc2580_f_vco f_lo" using assms by (auto simp: fc2580_pll_def Let_def)
  have r: "r = fc2580_r_val f_vco 16384" using assms by (auto simp: fc2580_pll_def Let_def)
  have n: "n = f_vco div 2 div (16384 div r)" using assms by (auto simp: fc2580_pll_def Let_def)
  have k: "k = fc2580_k_val f_vco (16384 div r) n" using assms by (auto simp: fc2580_pll_def Let_def)
  show rs: "r \<in> {1, 2, 4}" by (simp add: r fc2580_r_val_def)
  then have c: "16384 div r = 16384 \<or> 16384 div r = 8192 \<or> 16384 div r = 4096" by auto
  have lt: "f_vco < 2 ^ 32" unfolding v fc2580_f_vco_def by simp
  show "2 * (16384 div r) * (2 ^ 20 * n + k) = 2 ^ 20 * f_vco" "k < 2 ^ 20"
    using fc2580_fraction [OF c lt] by (simp_all only: n k)
  show "n < 256" if "f_vco < 2 ^ 23"
    unfolding n div_mult2_eq [symmetric]
    using that by (auto simp: r fc2580_r_val_def intro!: less_mult_imp_div_less)
qed


lemma wr_all_pll_script:
  fixes f_lo :: nat and f :: "u8 \<Rightarrow> u8"
  assumes "\<forall>i \<in> {0x02, 0x18, 0x1A, 0x1B, 0x1C}. stat i = 0"
    and "fc2580_pll f_lo 16384 = (f_vco, r, n, k)"
  defines "g \<equiv> wr_all stat (pll_script (fc2580_band f_lo) f_lo 16384) f"
  shows "g 0x02 = data_0x02 (fc2580_band f_lo) f_vco"
    and "g 0x18 = (if r = 1 then 0x00 else if r = 2 then 0x10 else 0x20) + of_nat (k div 2 ^ 16)"
    and "g 0x1A = of_nat (k div 2 ^ 8)" and "g 0x1B = of_nat k" and "g 0x1C = of_nat n"
  using assms(1) unfolding g_def pll_script_def assms(2) by simp_all

lemma ref_div_nibble:
  assumes "j < 16" and "r \<in> {1, 2, 4 :: nat}"
  defines "b \<equiv> (if r = 1 then 0x00 else if r = 2 then 0x10 else 0x20) + (word_of_nat j :: u8)"
  shows "fc2580_ref_div b = r" and "unat (b AND 0x0F) = j"
proof -
  have "j \<in> set [0..<16]" using assms(1) by simp
  then show "fc2580_ref_div b = r" "unat (b AND 0x0F) = j"
    using assms(2) unfolding b_def by (auto simp: fc2580_ref_div_def upt_rec)
qed

lemma out_div_band: "fc2580_out_div (data_0x02 b v) =
    (case b of FC2580_UHF_BAND \<Rightarrow> 4 | FC2580_L_BAND \<Rightarrow> 2 | FC2580_VHF_BAND \<Rightarrow> 12)"
  by (cases b) (simp_all add: fc2580_out_div_def data_0x02_def)

lemma fc2580_vco_exact:
  fixes f :: "u8 \<Rightarrow> u8"
  assumes "\<forall>i \<in> {0x02, 0x18, 0x1A, 0x1B, 0x1C}. stat i = 0" and "f_lo < 4194304"
  defines "g \<equiv> wr_all stat (pll_script (fc2580_band f_lo) f_lo 16384) f"
  shows "fc2580_vco g = 2 ^ 20 * (fc2580_out_div (g 0x02) * f_lo)"
proof -
  obtain v r n k where pll: "fc2580_pll f_lo 16384 = (v, r, n, k)" by (metis prod_cases4)
  note ex = fc2580_pll_exact [OF pll]
  note wr = wr_all_pll_script [OF assms(1) pll, where f = f, folded g_def]
  have v: "v = fc2580_out_div (g 0x02) * f_lo" "v < 2 ^ 23"
    using assms(2) unfolding ex(5) wr(1) out_div_band fc2580_f_vco_def fc2580_band_def by auto
  have j: "k div 2 ^ 16 < 16" using ex(2) by (simp add: less_mult_imp_div_less)
  have k: "fc2580_k g = k"
  proof -
    have "(k div 256 div 256 * 256 + k div 256 mod 256) * 256 + k mod 256 = k" by (simp only: div_mult_mod_eq)
    then have "65536 * (k div 2 ^ 16) + 256 * (k div 2 ^ 8 mod 256) + k mod 256 = k"
      by (simp add: div_mult2_eq [symmetric] distrib_right mult.commute)
    then show ?thesis
      unfolding fc2580_k_def wr ref_div_nibble(2) [OF j ex(3)]
      by (simp add: unat_of_nat)
  qed
  have "fc2580_ref_div (g 0x18) = r" unfolding wr by (rule ref_div_nibble(1) [OF j ex(3)])
  moreover have "unat (g 0x1C) = n" unfolding wr using ex(4) v(2) by (simp add: unat_of_nat)
  ultimately show ?thesis using ex(1) unfolding fc2580_vco_def k v(1) by simp
qed

lemma fc2580_SetRfFreqHz_yields:
  assumes "\<forall>i \<in> {0x02, 0x18, 0x1A, 0x1B, 0x1C}. stat i = 0" and "freq < 4194303500"
  shows "yields (bus_at U 0xac chip ptr stat f) (fc2580_SetRfFreqHz U freq) 0
    (\<lambda>h. fc2580_vco (chip h) = 2 ^ 20 * (fc2580_out_div (chip h 0x02) * ((freq + 500) div 1000)))"
proof -
  have lt: "(freq + 500) div 1000 < 4194304" using assms(2) by simp
  then have "(freq + 500) div 1000 mod 2 ^ 32 = (freq + 500) div 1000" by simp
  moreover have "(16384000 + 500) div 1000 = (16384 :: nat)" by simp
  ultimately show ?thesis
    unfolding fc2580_SetRfFreqHz_def
    using fc2580_vco_exact [OF assms(1) lt]
    by (auto intro!: yields_bind [OF fc2580_set_freq_yields] yields_post [OF yields_ret] simp: bus_at_def)
qed

lemma lna_gain_bits_selects:
  assumes "sorted (map fst es)" and "es \<noteq> []"
  obtains e where "e \<in> set es" and "lna_gain_bits gain es = snd e"
    and "gain \<le> fst (last es) \<Longrightarrow> gain \<le> fst e \<and> (\<forall>e' \<in> set es. gain \<le> fst e' \<longrightarrow> fst e \<le> fst e')"
    and "fst (last es) < gain \<Longrightarrow> e = last es"
  using assms
proof (induction es arbitrary: thesis)
  case Nil
  then show ?case by simp
next
  case (Cons x es)
  show ?case
  proof (cases "gain \<le> fst x \<or> es = []")
    case True
    then show ?thesis
      using Cons.prems(2) by (intro Cons.prems(1) [of x]) (auto dest: bspec [OF _ last_in_set])
  next
    case False
    with Cons.prems(2) have "sorted (map fst es)" "es \<noteq> []" by auto
    then obtain e where "e \<in> set es" "lna_gain_bits gain es = snd e"
      "gain \<le> fst (last es) \<Longrightarrow> gain \<le> fst e \<and> (\<forall>e' \<in> set es. gain \<le> fst e' \<longrightarrow> fst e \<le> fst e')"
      "fst (last es) < gain \<Longrightarrow> e = last es"
      using Cons.IH by blast
    with False show ?thesis by (intro Cons.prems(1) [of e]) auto
  qed
qed

definition lna_choice :: "int \<Rightarrow> (int \<times> u8) \<Rightarrow> bool" where
  "lna_choice gain e \<longleftrightarrow> e \<in> set fc0013_lna_gains \<and>
     (if gain \<le> 197 then gain \<le> fst e \<and> (\<forall>e' \<in> set fc0013_lna_gains. gain \<le> fst e' \<longrightarrow> fst e \<le> fst e')
      else fst e = 197)"

lemma lna_choice_ex: "\<exists>e. lna_choice gain e \<and> lna_gain_bits gain fc0013_lna_gains = snd e"
proof -
  have "sorted (map fst fc0013_lna_gains)" "fc0013_lna_gains \<noteq> []" "fst (last fc0013_lna_gains) = 197"
    by (simp_all add: fc0013_lna_gains_def)
  then show ?thesis
    using lna_gain_bits_selects [of fc0013_lna_gains gain] unfolding lna_choice_def
    by (metis linorder_not_less)
qed

lemma lna_codes_five_bits: "e \<in> set fc0013_lna_gains \<Longrightarrow> snd e AND 0x1f = snd e"
  by (auto simp: fc0013_lna_gains_def)

lemma merge_high_low: "v AND 0x1f = v \<Longrightarrow> ((t AND 0xe0) OR v) AND 0x1f = (v :: u8)"
  by (subst bit.conj_disj_distrib2) (simp add: and.assoc)

lemma fc0013_set_lna_gain_yields:
  assumes "stat 0x14 AND 0x1f = 0"
  shows "yields (bus_at U 0xc6 chip ptr stat f) (fc0013_set_lna_gain U gain) 0
    (\<lambda>h. (\<exists>e. lna_choice gain e \<and> chip h 0x14 AND 0x1f = snd e) \<and> (\<forall>i. i \<noteq> 0x14 \<longrightarrow> chip h i = f i))"
proof (rule yieldsI)
  fix h assume "bus_at U 0xc6 chip ptr stat f h"
  then obtain x h1 where 1: "run_state (fc0013_readreg U 0x14) h = ((0, x), h1)" "bus_at U 0xc6 chip ptr stat f h1"
    using fc0013.rd [of U chip ptr stat f h "0x14"] by blast
  obtain e where e: "lna_choice gain e" "lna_gain_bits gain fc0013_lna_gains = snd e"
    using lna_choice_ex by blast
  let ?v = "(x AND 0xe0) OR snd e"
  let ?g = "f(0x14 := ?v AND NOT (stat 0x14))"
  obtain h2 where w: "run_state (fc0013_writereg U 0x14 ?v) h1 = (0, h2)" "bus_at U 0xc6 chip ptr stat ?g h2"
    using yieldsD [OF fc0013.wr 1(2)] by (metis prod.collapse)
  have "(?v AND NOT (stat 0x14)) AND 0x1f = (?v AND 0x1f) AND NOT (stat 0x14 AND 0x1f)"
    by (rule bit_word_eqI) (auto simp: bit_simps)
  also have "\<dots> = snd e"
    using e(1) assms by (simp add: merge_high_low lna_codes_five_bits lna_choice_def)
  finally have "(?v AND NOT (stat 0x14)) AND 0x1f = snd e" .
  then have "chip h2 0x14 AND 0x1f = snd e" "\<forall>i. i \<noteq> 0x14 \<longrightarrow> chip h2 i = f i"
    using w(2) by (simp_all add: bus_at_def)
  moreover have "run_state (fc0013_set_lna_gain U gain) h = (0, h2)"
    using 1(1) w(1) e(2) by (simp add: fc0013_set_lna_gain_def Let_def)
  ultimately show "\<exists>h'. run_state (fc0013_set_lna_gain U gain) h = (0, h') \<and>
      (\<exists>e. lna_choice gain e \<and> chip h' 0x14 AND 0x1f = snd e) \<and> (\<forall>i. i \<noteq> 0x14 \<longrightarrow> chip h' i = f i)"
    using e(1) by blast
qed

end
