(* ===== verification/Fc_Correct.thy ===== *)
theory Fc_Correct
  imports Fc_Chip
begin

unbundle bit_operations_syntax

text \<open>
  The properties of the FC0012, FC0013 and FC2580 drivers (src/src/tuner_fc0012.c,
  src/src/tuner_fc0013.c, src/src/tuner_fc2580.c): accuracy of tuning, the frequencies that are
  refused and those that should be, and the choice of the gain.
\<close>



text \<open>On an FC0013 that answers, \<open>fc0013_set_params\<close> selects the band and the tracking filter and
  then programs the PLL with the same accuracy, for every frequency in the range of its dividers.\<close>

theorem fc0013_tunes:
  assumes "bus_at U 0xc6 chip ptr stat f h" and "\<forall>i \<in> {1, 2, 3, 4}. stat i = 0"
    and "fc_range (freq * fst (fc0013_divider freq)) q"
    and "90000 * q \<le> freq * fst (fc0013_divider freq)" and "freq * fst (fc0013_divider freq) \<le> 263000 * q"
  shows "case run_state (fc0013_set_params U (2000 * q) freq bandwidth) h of (rc, h') \<Rightarrow>
    rc = 0 \<and> fc_tuned (freq * fst (fc0013_divider freq)) (1000 * q) (chip h')"
  by (rule yields_case [OF fc0013_yields [OF assms(3,2,4,5)] assms(1)])

theorem fc0013_tunes_witness:
  "case run_state (fc0013_set_params (chip_usb (\<lambda>r. if r = 0x0e then 0x3f else 0)) 28800000 1500000000 8000000)
     (\<lambda>_. 0, 0) of (rc, h') \<Rightarrow> rc = 0 \<and>
     fc_tuned 3000000000 14400000 (chip_view (\<lambda>r. if r = 0x0e then 0x3f else 0) h')"
  using fc0013_tunes [OF chip_usb_at [of "\<lambda>r. if r = 0x0e then 0x3f else 0" "0xc6" "(\<lambda>_. 0, 0)"], of 1500000000 14400 8000000]
  by (simp add: fc0013_divider_def fc_range_def)

text \<open>A frequency whose divider does not fit the counters (below 89.5 or from 263.5 times half the
  crystal on, as long as the divider is at least 2) is refused before any register is touched.\<close>

theorem fc0012_rejects:
  assumes "fc_range (freq * fst (fc0012_divider freq)) q"
    and "2000 * q \<le> freq * fst (fc0012_divider freq)"
    and "freq * fst (fc0012_divider freq) < 89500 * q \<or> 263500 * q \<le> freq * fst (fc0012_divider freq)"
  shows "run_state (fc0012_set_params U (2000 * q) freq bandwidth) h = (-1, h)"
proof -
  let ?f = "freq * fst (fc0012_divider freq)"
  obtain multi r5 r6 where d: "fc0012_divider freq = (multi, r5, r6)" by (metis prod_cases3)
  obtain am pm where ap: "fc_am_pm (fc_xdiv (freq * multi) (1000 * q)) = (am, pm)" by fastforce
  have "\<not> (90 \<le> fc_xdiv ?f (1000 * q) \<and> fc_xdiv ?f (1000 * q) \<le> 263)"
    using fc_xdiv_reject [OF assms(1,3)] .
  then have "fc_pll (multi, r5, r6) (2000 * q) freq bandwidth = FC_Invalid"
    using fc_pll_decision [OF _ _ ap refl, of r5 r6 bandwidth] assms(1,2) unfolding d fst_conv
    by (simp only: if_False)
  then show ?thesis by (simp add: fc0012_set_params_def d)
qed

theorem fc0012_rejects_witness:
  "run_state (fc0012_set_params (chip_usb (\<lambda>r. 0)) 28800000 10000000 6000000) (\<lambda>_. 0, 0) = (-1, (\<lambda>_. 0, 0))"
  using fc0012_rejects [of 10000000 14400 "chip_usb (\<lambda>r. 0)" 6000000 "(\<lambda>_. 0, 0)"]
  by (simp add: fc0012_divider_def fc_range_def)

text \<open>Outside the range of the arithmetic the check fails to refuse: at 1.5 GHz the VCO frequency
  wraps at 32 bits and the PLL is programmed for 426.258176 MHz; at 100 kHz the divider is 1, the
  counter \<open>pm\<close> wraps to 255 and the PLL gets a divider above 256.\<close>

theorem fc0012_out_of_range_accepted:
  "(\<exists>regs. fc_pll (fc0012_divider 1500000000) 28800000 1500000000 bandwidth = FC_Pll regs False \<and>
     fc_tuned (426258176 * 4) 14400000 (\<lambda>i. regs ! unat i)) \<and>
   (\<exists>regs. fc_pll (fc0012_divider 100000) 28800000 100000 bandwidth = FC_Pll regs False \<and>
     256 * 32768 \<le> fc_n (\<lambda>i. regs ! unat i))"
proof -
  have "fc_xdiv 1705032704 14400000 = 118" "fc_am_pm 118 = (6, 14)" "fc_xin 1705032704 14400000 = 13271"
    by (simp_all add: fc_xdiv_def fc_am_pm_def fc_xin_def)
  then have 1: "fc_pll (fc0012_divider 1500000000) 28800000 1500000000 bandwidth =
      FC_Pll [0, 6, 14, 51, 215, 0x0a OR 0x07, ((0x02 OR 0x20) AND 0x3f) OR fc_bandwidth_bits bandwidth] False"
    by (simp add: fc0012_divider_def fc_pll_def)
  have "fc_xdiv 9600000 14400000 = 1" "fc_am_pm 1 = (9, 31)" "fc_xin 9600000 14400000 = 54613"
    by (simp_all add: fc_xdiv_def fc_am_pm_def fc_xin_def)
  then have 2: "fc_pll (fc0012_divider 100000) 28800000 100000 bandwidth =
      FC_Pll [0, 9, 31, 213, 85, 0x82 OR 0x07, ((0x00 OR 0x20) AND 0x3f) OR fc_bandwidth_bits bandwidth] False"
    by (simp add: fc0012_divider_def fc_pll_def)
  show ?thesis unfolding 1 2 by (simp add: fc_tuned_def fc_n_def)
qed

text \<open>C32: On an FC2580 that answers, \<open>fc2580_SetRfFreqHz\<close> succeeds for every frequency below
  4.1943035 GHz, and the registers it leaves describe exactly the frequency asked for, rounded to
  kHz: the VCO runs at the output divider of the selected band times it.\<close>

theorem fc2580_tunes:
  assumes "bus_at U 0xac chip ptr stat f h" and "\<forall>i \<in> {0x02, 0x18, 0x1A, 0x1B, 0x1C}. stat i = 0"
    and "freq < 4194303500"
  shows "case run_state (fc2580_SetRfFreqHz U freq) h of (rc, h') \<Rightarrow> rc = 0 \<and>
    fc2580_vco (chip h') = 2 ^ 20 * (fc2580_out_div (chip h' 0x02) * ((freq + 500) div 1000))"
  by (rule yields_case [OF fc2580_SetRfFreqHz_yields [OF assms(2,3)] assms(1)])

theorem fc2580_tunes_witness:
  "case run_state (fc2580_SetRfFreqHz (chip_usb (\<lambda>r. if r = 0x2F then 0xC0 else 0)) 500000000) (\<lambda>_. 0, 0) of (rc, h') \<Rightarrow>
     rc = 0 \<and> fc2580_vco (chip_view (\<lambda>r. if r = 0x2F then 0xC0 else 0) h') =
       2 ^ 20 * (fc2580_out_div (chip_view (\<lambda>r. if r = 0x2F then 0xC0 else 0) h' 0x02) * 500000)"
  using fc2580_tunes [OF chip_usb_at [of "\<lambda>r. if r = 0x2F then 0xC0 else 0" "0xac" "(\<lambda>_. 0, 0)"], of 500000000] by simp

text \<open>\<open>fc0013_set_lna_gain\<close> stores the code of the smallest gain of the table that is at least the
  gain asked for, or of the largest one, and leaves every other register alone.\<close>

theorem fc0013_gain_selects:
  assumes "bus_at U 0xc6 chip ptr stat f h" and "stat 0x14 AND 0x1f = 0"
  shows "case run_state (fc0013_set_lna_gain U gain) h of (rc, h') \<Rightarrow> rc = 0 \<and>
    (\<exists>e. lna_choice gain e \<and> chip h' 0x14 AND 0x1f = snd e) \<and> (\<forall>i. i \<noteq> 0x14 \<longrightarrow> chip h' i = f i)"
  by (rule yields_case [OF fc0013_set_lna_gain_yields [where stat = stat, OF assms(2)] assms(1)])

theorem fc0013_gain_selects_witness:
  "case run_state (fc0013_set_lna_gain (chip_usb (\<lambda>r. 0)) 100) (\<lambda>_. 0, 0) of (rc, h') \<Rightarrow> rc = 0 \<and>
    (\<exists>e. lna_choice 100 e \<and> chip_view (\<lambda>r. 0) h' 0x14 AND 0x1f = snd e) \<and>
    (\<forall>i. i \<noteq> 0x14 \<longrightarrow> chip_view (\<lambda>r. 0) h' i = 0)"
  using fc0013_gain_selects [OF chip_usb_at [of "\<lambda>r. 0" "0xc6" "(\<lambda>_. 0, 0)"], of 100] by (simp add: chip_view_def)

end
