(* ===== verification/Double_Fp.thy ===== *)
theory Double_Fp
  imports Complex_Main "HOL-Library.Log_Nat"
begin

text \<open>
  The \<open>double\<close> arithmetic of the library: IEEE 754 binary64, rounding to nearest with ties to
  even. Values are rationals; \<open>fl\<close> rounds one to 53 significant bits. Overflow, subnormal
  numbers and NaN do not occur: the values the library computes are 0 or between \<open>10\<^sup>-\<^sup>7\<close> and
  \<open>2\<^sup>6\<^sup>0\<close>. The lemmas bound the rounding error and say when a truncated quotient is the integer
  quotient.
\<close>

definition pow2i :: "int \<Rightarrow> rat" where
  "pow2i e = 2 powi e"

definition dbl_exp :: "rat \<Rightarrow> int" where
  "dbl_exp x = (case quotient_of \<bar>x\<bar> of (n, d) \<Rightarrow>
     let k = bitlen n - bitlen d in if \<bar>x\<bar> < pow2i k then k - 1 else k)"

definition round_even :: "rat \<Rightarrow> int" where
  "round_even x =
     (let f = \<lfloor>x\<rfloor>; r = x - of_int f
      in if r < 1 / 2 \<or> r = 1 / 2 \<and> even f then f else f + 1)"

definition fl :: "rat \<Rightarrow> rat" where
  "fl x = (if x = 0 then 0
           else let u = pow2i (dbl_exp x - 52) in of_int (round_even (x / u)) * u)"

text \<open>Conversion to an integer type: truncation towards zero.\<close>

definition dbl_trunc :: "rat \<Rightarrow> int" where
  "dbl_trunc x = (if 0 \<le> x then \<lfloor>x\<rfloor> else - \<lfloor>- x\<rfloor>)"

lemma pow2i_pos [simp]: "0 < pow2i e" "0 \<le> pow2i e" "pow2i e \<noteq> 0"
  by (simp_all add: pow2i_def)

lemma pow2i_0 [simp]: "pow2i 0 = 1"
  by (simp add: pow2i_def)

lemma pow2i_add: "pow2i (a + b) = pow2i a * pow2i b"
  by (simp add: pow2i_def power_int_add)

lemma pow2i_nat: "0 \<le> e \<Longrightarrow> pow2i e = 2 ^ nat e"
  by (simp add: pow2i_def power_int_def)

lemma pow2i_mono: "a \<le> b \<Longrightarrow> pow2i a \<le> pow2i b"
  by (simp add: pow2i_def power_int_increasing)

lemma pow2i_mono_less: "pow2i a \<le> x \<Longrightarrow> x < pow2i b \<Longrightarrow> a < b"
  using pow2i_mono [of b a] by (cases "a < b") auto

lemma bitlen_frac:
  assumes "0 < n" and "0 < d"
  shows "pow2i (bitlen n - bitlen d - 1) < of_int n / of_int d"
    and "of_int n / of_int d < pow2i (bitlen n - bitlen d + 1)"
proof -
  have b: "2 ^ nat (bitlen n - 1) \<le> n" "n < 2 ^ nat (bitlen n)" "2 ^ nat (bitlen d - 1) \<le> d" "d < 2 ^ nat (bitlen d)"
    using bitlen_bounds assms by auto
  have pos: "1 \<le> bitlen n" "1 \<le> bitlen d" using assms bitlen_eq_zero_iff [of n] bitlen_eq_zero_iff [of d] bitlen_nonneg [of n] bitlen_nonneg [of d] by auto
  have e: "(of_int (2 ^ nat k) :: rat) = pow2i k" if "0 \<le> k" for k using that by (simp add: pow2i_nat)
  have r: "pow2i (bitlen n - 1) \<le> of_int n" "of_int n < pow2i (bitlen n)"
    "pow2i (bitlen d - 1) \<le> of_int d" "of_int d < pow2i (bitlen d)"
    using b pos by (simp_all flip: e add: of_int_le_iff of_int_less_iff del: of_int_power)
  have "pow2i (bitlen n - bitlen d - 1) * of_int d < pow2i (bitlen n - bitlen d - 1) * pow2i (bitlen d)"
    using r(4) by (intro mult_strict_left_mono) simp_all
  also have "\<dots> = pow2i (bitlen n - 1)" by (simp flip: pow2i_add)
  finally show "pow2i (bitlen n - bitlen d - 1) < of_int n / of_int d"
    using r(1) assms by (simp add: field_simps)
  have "pow2i (bitlen n) = pow2i (bitlen n - bitlen d + 1) * pow2i (bitlen d - 1)" by (simp flip: pow2i_add)
  also have "\<dots> \<le> pow2i (bitlen n - bitlen d + 1) * of_int d"
    using r(3) by (intro mult_left_mono) simp_all
  finally show "of_int n / of_int d < pow2i (bitlen n - bitlen d + 1)"
    using r(2) assms by (simp add: field_simps)
qed

lemma dbl_exp_bounds:
  assumes "x \<noteq> 0"
  shows "pow2i (dbl_exp x) \<le> \<bar>x\<bar>" and "\<bar>x\<bar> < pow2i (dbl_exp x + 1)"
proof -
  obtain n d where q: "quotient_of \<bar>x\<bar> = (n, d)" by fastforce
  have x: "\<bar>x\<bar> = of_int n / of_int d" using quotient_of_div [OF q] .
  have d: "0 < d" using quotient_of_denom_pos [OF q] .
  have "0 < \<bar>x\<bar>" using assms by simp
  then have n: "0 < n" using d unfolding x by (simp add: zero_less_divide_iff)
  note b = bitlen_frac [OF n d]
  show "pow2i (dbl_exp x) \<le> \<bar>x\<bar>" "\<bar>x\<bar> < pow2i (dbl_exp x + 1)"
    using b unfolding dbl_exp_def q prod.case Let_def by (auto simp: x algebra_simps)
qed

lemma dbl_exp_unique:
  assumes "pow2i e \<le> \<bar>x\<bar>" and "\<bar>x\<bar> < pow2i (e + 1)"
  shows "dbl_exp x = e"
proof -
  have "0 < \<bar>x\<bar>" using assms(1) pow2i_pos(1) [of e] by linarith
  then have "x \<noteq> 0" by simp
  from dbl_exp_bounds [OF this] assms show ?thesis
    using pow2i_mono_less [of "dbl_exp x" "\<bar>x\<bar>" "e + 1"] pow2i_mono_less [of e "\<bar>x\<bar>" "dbl_exp x + 1"] by linarith
qed

lemma round_even_error: "\<bar>of_int (round_even x) - x\<bar> \<le> 1 / 2"
proof -
  have "of_int \<lfloor>x\<rfloor> \<le> x" "x < of_int \<lfloor>x\<rfloor> + 1" by (rule of_int_floor_le) linarith
  then show ?thesis by (auto simp: round_even_def Let_def abs_le_iff)
qed

lemma round_even_ge: "of_int k \<le> x \<Longrightarrow> k \<le> round_even x"
  using le_floor_iff [of k x] by (auto simp: round_even_def Let_def)

lemma round_even_int [simp]: "round_even (of_int k) = k"
  by (simp add: round_even_def)

lemma fl_error: "\<bar>fl x - x\<bar> \<le> pow2i (dbl_exp x - 52) / 2"
proof (cases "x = 0")
  case True
  then show ?thesis by (simp add: fl_def)
next
  case False
  define u where "u = pow2i (dbl_exp x - 52)"
  have u: "0 < u" by (simp add: u_def)
  have "fl x - x = (of_int (round_even (x / u)) - x / u) * u"
    using False u by (simp add: fl_def Let_def u_def [symmetric] field_simps)
  then have "\<bar>fl x - x\<bar> = \<bar>of_int (round_even (x / u)) - x / u\<bar> * u" using u by (simp add: abs_mult)
  also have "\<dots> \<le> 1 / 2 * u" using u by (intro mult_right_mono round_even_error) simp
  finally show ?thesis by (simp add: u_def)
qed

lemma fl_rel_error: "\<bar>fl x - x\<bar> \<le> \<bar>x\<bar> / 2 ^ 53"
proof (cases "x = 0")
  case True
  then show ?thesis by (simp add: fl_def)
next
  case False
  have "pow2i (dbl_exp x - 52) / 2 = pow2i (dbl_exp x) * pow2i (- 53)"
    by (simp add: pow2i_def power_int_diff power_int_minus field_simps)
  also have "\<dots> \<le> \<bar>x\<bar> * pow2i (- 53)" using dbl_exp_bounds(1) [OF False] by (intro mult_right_mono) simp_all
  finally show ?thesis using fl_error [of x] by (simp add: pow2i_def power_int_minus field_simps)
qed

text \<open>A value whose unit in the last place divides it is represented exactly.\<close>

lemma fl_exact: "x = of_int k * pow2i (dbl_exp x - 52) \<Longrightarrow> fl x = x"
  by (auto simp: fl_def Let_def) (metis nonzero_mult_div_cancel_right pow2i_pos less_irrefl round_even_int)

lemma fl_int:
  assumes "\<bar>k\<bar> < 2 ^ 53"
  shows "fl (of_int k) = of_int k"
proof (cases "k = 0")
  case True
  then show ?thesis by (simp add: fl_def)
next
  case False
  let ?e = "dbl_exp (of_int k)"
  have "\<bar>of_int k :: rat\<bar> < of_int (2 ^ 53)" using assms by (simp only: of_int_abs [symmetric] of_int_less_iff)
  then have "\<bar>of_int k :: rat\<bar> < pow2i 53" by (simp add: pow2i_nat)
  then have "?e < 53" using dbl_exp_bounds(1) [of "of_int k"] False pow2i_mono_less by auto
  then have "of_int k = of_int (k * 2 ^ nat (52 - ?e)) * pow2i (?e - 52)"
    by (simp add: pow2i_nat [symmetric] pow2i_add [symmetric] mult.assoc)
  then show ?thesis by (rule fl_exact)
qed


text \<open>
  The quotient of two naturals, computed in double precision and truncated, is their integer
  quotient, as long as the result and the divisor together have at most 54 bits.
\<close>

lemma trunc_div:
  fixes a b :: nat
  assumes "0 < b" and "a < 2 ^ k * b" and "b < 2 ^ (54 - k)" and "k \<le> 53"
  shows "dbl_trunc (fl (of_nat a / of_nat b)) = int (a div b)"
proof (cases "a = 0")
  case True
  then show ?thesis by (simp add: fl_def dbl_trunc_def)
next
  case False
  define x :: rat where "x = of_nat a / of_nat b"
  define u where "u = pow2i (dbl_exp x - 52)"
  have x: "0 < x" "x \<noteq> 0" using False assms(1) by (simp_all add: x_def)
  have "x < pow2i (int k)"
  proof -
    have "rat_of_nat a < rat_of_nat (2 ^ k * b)" using assms(2) by (simp only: of_nat_less_iff)
    then show ?thesis using assms(1) by (simp add: x_def pow2i_nat field_simps)
  qed
  then have e: "dbl_exp x < int k" using dbl_exp_bounds(1) [OF x(2)] x(1) pow2i_mono_less by simp
  have "u / 2 \<le> pow2i (int k - 54)"
  proof -
    have "u \<le> pow2i (int k - 53)" unfolding u_def using e by (intro pow2i_mono) simp
    moreover have "pow2i (int k - 53) = 2 * pow2i (int k - 54)"
      using pow2i_add [of 1 "int k - 54"] by (simp add: pow2i_def)
    ultimately show ?thesis by simp
  qed
  also have "\<dots> < 1 / of_nat b"
  proof -
    have "rat_of_nat b < rat_of_nat (2 ^ (54 - k))" using assms(3) by (simp only: of_nat_less_iff)
    then have "rat_of_nat b < pow2i (54 - int k)" using assms(4) by (simp add: pow2i_nat nat_diff_distrib)
    moreover have "pow2i (int k - 54) * pow2i (54 - int k) = 1" by (simp flip: pow2i_add)
    ultimately have "pow2i (int k - 54) * of_nat b < 1"
      by (metis mult_strict_left_mono pow2i_pos(1))
    then show ?thesis using assms(1) by (simp add: field_simps)
  qed
  finally have err: "fl x - x < 1 / of_nat b" using fl_error [of x] unfolding u_def [symmetric] by linarith
  have "x \<le> of_nat (a div b) + (1 - 1 / of_nat b)"
  proof -
    have "a \<le> a div b * b + (b - 1)"
      using div_mult_mod_eq [of a b] mod_less_divisor [OF assms(1), of a] by linarith
    then have "rat_of_nat a \<le> rat_of_nat (a div b * b + (b - 1))" by (simp only: of_nat_le_iff)
    then show ?thesis using assms(1) by (simp add: x_def field_simps of_nat_diff)
  qed
  with err have up: "fl x < of_nat (a div b) + 1" by linarith
  have lo: "of_nat (a div b) \<le> fl x"
  proof -
    have le: "dbl_exp x \<le> 52" using e assms(4) by simp
    have one: "pow2i (52 - dbl_exp x) * u = 1" by (simp add: u_def flip: pow2i_add)
    have "of_nat (a div b) \<le> x"
      unfolding x_def using assms(1) div_times_less_eq_dividend [of a b]
      by (simp add: field_simps flip: of_nat_mult)
    then have "of_nat (a div b) * pow2i (52 - dbl_exp x) \<le> x / u"
      using one by (simp add: u_def field_simps)
    then have "of_int (int (a div b) * 2 ^ nat (52 - dbl_exp x)) \<le> x / u"
      using le by (simp add: pow2i_nat)
    then have "int (a div b) * 2 ^ nat (52 - dbl_exp x) \<le> round_even (x / u)" by (rule round_even_ge)
    then have "rat_of_int (int (a div b) * 2 ^ nat (52 - dbl_exp x)) * u \<le> of_int (round_even (x / u)) * u"
      by (intro mult_right_mono) (simp_all only: of_int_le_iff, simp add: u_def)
    then show ?thesis using x(2) one le by (simp add: fl_def Let_def u_def [symmetric] pow2i_nat mult.assoc)
  qed
  then have "0 \<le> fl x" by (rule order_trans [rotated]) simp
  moreover have "\<lfloor>fl x\<rfloor> = int (a div b)" using up lo by (intro floor_unique) simp_all
  ultimately show ?thesis unfolding x_def [symmetric] dbl_trunc_def by simp
qed


lemma fl_shift:
  fixes n j :: nat
  assumes "n < 2 ^ 53"
  shows "fl (of_nat n * 2 ^ j) = of_nat n * 2 ^ j"
proof (cases "n = 0")
  case True
  then show ?thesis by (simp add: fl_def)
next
  case False
  let ?x = "rat_of_nat n * 2 ^ j"
  have "rat_of_nat n < rat_of_nat (2 ^ 53)" using assms by (simp only: of_nat_less_iff)
  then have "\<bar>?x\<bar> < pow2i (53 + int j)" using pow2i_add [of 53 "int j"] by (simp add: abs_mult pow2i_nat)
  moreover have "?x \<noteq> 0" using False by simp
  ultimately have e: "dbl_exp ?x < 53 + int j" using dbl_exp_bounds(1) pow2i_mono_less by blast
  have "?x = of_nat n * (pow2i (int j - (dbl_exp ?x - 52)) * pow2i (dbl_exp ?x - 52))"
    by (simp add: pow2i_nat flip: pow2i_add)
  also have "\<dots> = of_int (int n * 2 ^ nat (int j - (dbl_exp ?x - 52))) * pow2i (dbl_exp ?x - 52)"
    using e by (simp add: pow2i_nat mult.assoc)
  finally show ?thesis by (rule fl_exact)
qed

text \<open>The product with a factor \<open>1 + ppm / 10\<^sup>6\<close> computed as the code computes it.\<close>

definition apply_ppm_corr :: "nat \<Rightarrow> int \<Rightarrow> int" where
  "apply_ppm_corr val ppm = dbl_trunc (fl (of_nat val * fl (1 + fl (of_int ppm / 1000000))))"

lemma apply_ppm_corr_0: "val < 2 ^ 53 \<Longrightarrow> apply_ppm_corr val 0 = int val"
  using fl_int [of 1] fl_int [of "int val"] by (simp add: apply_ppm_corr_def fl_def [of 0] dbl_trunc_def)

lemma dbl_trunc_error: "\<bar>of_int (dbl_trunc x) - x\<bar> < 1"
  by (auto simp: dbl_trunc_def abs_if) linarith+

lemma apply_ppm_corr_near:
  assumes "val < 2 ^ 32" and "\<bar>ppm\<bar> \<le> 1000000"
  shows "\<bar>1000000 * apply_ppm_corr val ppm - int val * (1000000 + ppm)\<bar> \<le> 1000100"
proof -
  define p :: rat where "p = of_int ppm / 1000000"
  define v :: rat where "v = of_nat val"
  define c where "c = fl (1 + fl p)"
  have p: "\<bar>p\<bar> \<le> 1" using assms(2) by (simp add: p_def abs_le_iff)  
  have v: "0 \<le> v" "v \<le> 2 ^ 32"
    using assms(1) by (simp_all add: v_def)
  define eps :: rat where "eps = 1 / 2 ^ 53"
  have eps: "0 < eps" "eps \<le> 1 / 1000000" "2 ^ 32 * eps \<le> 1 / 1000000" by (simp_all add: eps_def)
  have rel: "\<bar>fl x - x\<bar> \<le> B * eps" if "\<bar>x\<bar> \<le> B" for x B :: rat
    using fl_rel_error [of x] that by (simp add: eps_def field_simps)
  have 1: "\<bar>fl p - p\<bar> \<le> eps" using rel [OF p] by simp
  then have "\<bar>1 + fl p\<bar> \<le> 3" using p eps by linarith
  from rel [OF this] have 2: "\<bar>c - (1 + fl p)\<bar> \<le> 3 * eps" by (simp add: c_def)
  have c: "\<bar>c - (1 + p)\<bar> \<le> 4 * eps" using 1 2 by linarith
  then have cb: "\<bar>c\<bar> \<le> 3" using p eps by linarith
  have "\<bar>v * c - v * (1 + p)\<bar> = v * \<bar>c - (1 + p)\<bar>"
    using v(1) by (simp flip: right_diff_distrib add: abs_mult)
  also have "\<dots> \<le> 2 ^ 32 * (4 * eps)" using v c by (intro mult_mono) simp_all
  finally have 3: "\<bar>v * c - v * (1 + p)\<bar> \<le> 4 / 1000000" using eps by simp
  have "\<bar>v * c\<bar> \<le> 2 ^ 32 * 3" using v cb unfolding abs_mult by (intro mult_mono) simp_all
  from rel [OF this] have 4: "\<bar>fl (v * c) - v * c\<bar> \<le> 3 / 1000000" using eps by simp
  have "\<bar>of_int (apply_ppm_corr val ppm) - fl (v * c)\<bar> < 1"
    using dbl_trunc_error by (simp add: apply_ppm_corr_def v_def c_def p_def)
  with 3 4 have "\<bar>of_int (apply_ppm_corr val ppm) - v * (1 + p)\<bar> \<le> 1 + 7 / 1000000" by linarith
  then have "\<bar>1000000 * of_int (apply_ppm_corr val ppm) - v * (1000000 + of_int ppm)\<bar> \<le> 1000100"
    unfolding p_def by (simp add: abs_le_iff field_simps)
  then have "\<bar>of_int (1000000 * apply_ppm_corr val ppm - int val * (1000000 + ppm)) :: rat\<bar> \<le> of_int 1000100"
    by (simp add: v_def)
  then show ?thesis by (simp only: of_int_abs [symmetric] of_int_le_iff)
qed

end
