(* ===== verification/Librtlsdr.thy ===== *)
theory Librtlsdr
  imports Double_Fp Tuner_r82xx Tuner_e4k Tuner_fc001x Tuner_fc2580
begin

unbundle bit_operations_syntax

text \<open>
  The core of the library (src/src/librtlsdr.c): the device structure, the table of tuner
  drivers, baseband setup, clocks, sampling rate, tuning, direct sampling, gains, EEPROM,
  device selection and opening.

  The state \<open>'h rtlsdr\<close> is \<open>struct rtlsdr_dev\<close> without the fields of the asynchronous transfers
  (theory \<open>Async\<close>), together with the device \<open>d_hw\<close> behind the USB handle. The tuner structures
  have a device field of their own; it is brought up to date when a driver function is called
  (\<open>d_e4k_io\<close>, \<open>d_r82xx_io\<close>). The pointer \<open>dev->tuner\<close> into the table \<open>tuners[]\<close> is an optional
  tuner type, a column of the table is a function from tuner types to optional operations.
  \<open>d_fault\<close> is not in the C code: it records a conversion or division the C code has undefined
  behaviour for. The null checks on \<open>dev\<close> are not modelled; there is always a device.
\<close>

section \<open>The device structure\<close>

datatype rtlsdr_tuner =
  RTLSDR_TUNER_UNKNOWN | RTLSDR_TUNER_E4000 | RTLSDR_TUNER_FC0012 | RTLSDR_TUNER_FC0013
| RTLSDR_TUNER_FC2580 | RTLSDR_TUNER_R820T | RTLSDR_TUNER_R828D

abbreviation (input) DEF_RTL_XTAL_FREQ :: nat where "DEF_RTL_XTAL_FREQ \<equiv> 28800000"
abbreviation (input) MIN_RTL_XTAL_FREQ :: nat where "MIN_RTL_XTAL_FREQ \<equiv> 28799000"
abbreviation (input) MAX_RTL_XTAL_FREQ :: nat where "MAX_RTL_XTAL_FREQ \<equiv> 28801000"
abbreviation (input) R82XX_IF_FREQ :: nat where "R82XX_IF_FREQ \<equiv> 3570000"
abbreviation (input) R828D_XTAL_FREQ :: nat where "R828D_XTAL_FREQ \<equiv> 16000000"
abbreviation (input) EEPROM_ADDR :: u16 where "EEPROM_ADDR \<equiv> 0xa0"
abbreviation (input) EEPROM_SIZE :: nat where "EEPROM_SIZE \<equiv> 256"

definition fir_default :: "int list" where
  "fir_default = [-54, -36, -41, -40, -32, -14, 14, 53, 101, 156, 215, 273, 327, 372, 404, 421]"

record 'h rtlsdr =
  d_hw :: 'h
  d_rate :: nat
  d_rtl_xtal :: nat
  d_fir :: "int list"
  d_direct_sampling :: int
  d_tuner_type :: rtlsdr_tuner
  d_tuner :: "rtlsdr_tuner option"
  d_tun_xtal :: nat
  d_freq :: nat
  d_bw :: nat
  d_offs_freq :: nat
  d_corr :: int
  d_gain :: int
  d_e4k :: "'h e4k"
  d_r82xx :: "'h r82xx"
  d_dev_lost :: bool
  d_driver_active :: bool
  d_manufact :: string
  d_product :: string
  d_force_bt :: bool
  d_ds_mode :: int
  d_fault :: bool

definition d_io :: "('h, 'a) prog \<Rightarrow> ('h rtlsdr, 'a) prog" where
  "d_io m = State (\<lambda>s. case run_state m (d_hw s) of (x, h) \<Rightarrow> (x, s\<lparr>d_hw := h\<rparr>))"

definition d_e4k_io :: "('h e4k, 'a) prog \<Rightarrow> ('h rtlsdr, 'a) prog" where
  "d_e4k_io m = State (\<lambda>s. case run_state m ((d_e4k s)\<lparr>e_hw := d_hw s\<rparr>) of
     (x, e) \<Rightarrow> (x, s\<lparr>d_e4k := e, d_hw := e_hw e\<rparr>))"

definition d_r82xx_io :: "('h r82xx, 'a) prog \<Rightarrow> ('h rtlsdr, 'a) prog" where
  "d_r82xx_io m = State (\<lambda>s.
     case run_state m ((d_r82xx s)\<lparr>r_hw := d_hw s, r_manufact := d_manufact s, r_product := d_product s\<rparr>) of
       (x, r) \<Rightarrow> (x, s\<lparr>d_r82xx := r, d_hw := r_hw r\<rparr>))"

text \<open>\<open>d_ensure b\<close> records undefined behaviour unless \<open>b\<close> holds.\<close>

definition d_ensure :: "bool \<Rightarrow> ('h rtlsdr, unit) prog" where
  "d_ensure b = modify (\<lambda>s. if b then s else s\<lparr>d_fault := True\<rparr>)"

abbreviation demod_write :: "'h usb_ops \<Rightarrow> u8 \<Rightarrow> u16 \<Rightarrow> u16 \<Rightarrow> u8 \<Rightarrow> ('h rtlsdr, int) prog" where
  "demod_write U page addr val len \<equiv> d_io (rtlsdr_demod_write_reg U page addr val len)"

abbreviation i2c_repeater :: "'h usb_ops \<Rightarrow> bool \<Rightarrow> ('h rtlsdr, unit) prog" where
  "i2c_repeater U on \<equiv> d_io (rtlsdr_set_i2c_repeater U on)"

section \<open>Clocks\<close>

text \<open>
  \<open>rtlsdr_get_xtal_freq\<close> applied to one of the two crystals; a corrected value outside the
  range of \<open>uint32_t\<close> is undefined behaviour.
\<close>

definition corr_xtal :: "nat \<Rightarrow> int \<Rightarrow> nat" where
  "corr_xtal val ppm = nat (apply_ppm_corr val ppm mod 2 ^ 32)"

definition corr_in_range :: "nat \<Rightarrow> int \<Rightarrow> bool" where
  "corr_in_range val ppm \<longleftrightarrow> 0 \<le> apply_ppm_corr val ppm \<and> apply_ppm_corr val ppm < 2 ^ 32"

definition get_rtl_xtal :: "('h rtlsdr, nat) prog" where
  "get_rtl_xtal = do {
     val \<leftarrow> gets d_rtl_xtal;
     ppm \<leftarrow> gets d_corr;
     _ \<leftarrow> d_ensure (corr_in_range val ppm);
     ret (corr_xtal val ppm) }"

definition rtlsdr_get_tuner_clock :: "('h rtlsdr, nat) prog" where
  "rtlsdr_get_tuner_clock = do {
     val \<leftarrow> gets d_tun_xtal;
     ppm \<leftarrow> gets d_corr;
     _ \<leftarrow> d_ensure (corr_in_range val ppm);
     ret (corr_xtal val ppm) }"

section \<open>Baseband\<close>

text \<open>The 20 bytes of \<open>rtlsdr_set_fir\<close>: eight 8-bit coefficients, then eight 12-bit ones, two in
  three bytes. \<open>None\<close>: a coefficient is out of range.\<close>

definition fir_pair :: "int \<Rightarrow> int \<Rightarrow> u8 list option" where
  "fir_pair val0 val1 =
     (if val0 < -2048 \<or> val0 > 2047 \<or> val1 < -2048 \<or> val1 > 2047 then None
      else Some [word_of_int (drop_bit 4 val0),
                 word_of_int (push_bit 4 val0 OR (drop_bit 8 val1 AND 0x0f)),
                 word_of_int val1])"

fun fir_pairs :: "int list \<Rightarrow> u8 list option" where
  "fir_pairs (v0 # v1 # vs) = (case fir_pair v0 v1 of
     None \<Rightarrow> None | Some bs \<Rightarrow> map_option ((@) bs) (fir_pairs vs))"
| "fir_pairs _ = Some []"

definition fir_bytes :: "int list \<Rightarrow> u8 list option" where
  "fir_bytes fir =
     (if \<exists>v \<in> set (take 8 fir). v < -128 \<or> v > 127 then None
      else map_option ((@) (map word_of_int (take 8 fir))) (fir_pairs (drop 8 fir)))"

text \<open>The writes stop at the first one that fails.\<close>

primrec fir_write :: "'h usb_ops \<Rightarrow> u16 \<Rightarrow> u8 list \<Rightarrow> ('h rtlsdr, int) prog" where
  "fir_write U addr [] = ret 0"
| "fir_write U addr (b # bs) = do {
     r \<leftarrow> demod_write U 1 addr (ucast b) 1;
     if r \<noteq> 0 then ret (-1) else fir_write U (addr + 1) bs }"

definition rtlsdr_set_fir :: "'h usb_ops \<Rightarrow> ('h rtlsdr, int) prog" where
  "rtlsdr_set_fir U = do {
     fir \<leftarrow> gets d_fir;
     case fir_bytes fir of None \<Rightarrow> ret (-1) | Some bs \<Rightarrow> fir_write U 0x1c bs }"

definition rtlsdr_init_baseband :: "'h usb_ops \<Rightarrow> ('h rtlsdr, unit) prog" where
  "rtlsdr_init_baseband U = do {
     _ \<leftarrow> d_io (seq_ign
       [rtlsdr_write_reg U USBB USB_SYSCTL 0x09 1,
        rtlsdr_write_reg U USBB USB_EPA_MAXPKT 0x0002 2,
        rtlsdr_write_reg U USBB USB_EPA_CTL 0x1002 2,
        rtlsdr_write_reg U SYSB DEMOD_CTL_1 0x22 1,
        rtlsdr_write_reg U SYSB DEMOD_CTL 0xe8 1,
        rtlsdr_demod_write_reg U 1 0x01 0x14 1,
        rtlsdr_demod_write_reg U 1 0x01 0x10 1,
        rtlsdr_demod_write_reg U 1 0x15 0x00 1,
        rtlsdr_demod_write_reg U 1 0x16 0x0000 2]);
     _ \<leftarrow> d_io (seq_ign (map (\<lambda>i. rtlsdr_demod_write_reg U 1 (0x16 + of_nat i) 0x00 1) [0..<6]));
     _ \<leftarrow> rtlsdr_set_fir U;
     d_io (seq_ign
       [rtlsdr_demod_write_reg U 0 0x19 0x05 1,
        rtlsdr_demod_write_reg U 1 0x93 0xf0 1,
        rtlsdr_demod_write_reg U 1 0x94 0x0f 1,
        rtlsdr_demod_write_reg U 1 0x11 0x00 1,
        rtlsdr_demod_write_reg U 1 0x04 0x00 1,
        rtlsdr_demod_write_reg U 0 0x61 0x60 1,
        rtlsdr_demod_write_reg U 0 0x06 0x80 1,
        rtlsdr_demod_write_reg U 1 0xb1 0x1b 1,
        rtlsdr_demod_write_reg U 0 0x0d 0x83 1]) }"

text \<open>The value of \<open>if_freq\<close>: minus the truncated quotient.\<close>

definition if_freq_val :: "nat \<Rightarrow> nat \<Rightarrow> int" where
  "if_freq_val freq rtl_xtal =
     dbl_trunc (fl (fl (of_nat freq * 2 ^ 22) / of_nat rtl_xtal) * (-1))"

definition if_freq_bytes :: "int \<Rightarrow> u16 list" where
  "if_freq_bytes if_freq =
     [word_of_int (drop_bit 16 if_freq AND 0x3f), word_of_int (drop_bit 8 if_freq AND 0xff),
      word_of_int (if_freq AND 0xff)]"

definition rtlsdr_set_if_freq :: "'h usb_ops \<Rightarrow> nat \<Rightarrow> ('h rtlsdr, int) prog" where
  "rtlsdr_set_if_freq U freq = do {
     rtl_xtal \<leftarrow> get_rtl_xtal;
     let if_freq = if_freq_val freq rtl_xtal;
     _ \<leftarrow> d_ensure (rtl_xtal \<noteq> 0 \<and> - (2 ^ 31) \<le> if_freq);
     let tmp = if_freq_bytes if_freq;
     seq_or [demod_write U 1 0x19 (tmp ! 0) 1,
             demod_write U 1 0x1a (tmp ! 1) 1,
             demod_write U 1 0x1b (tmp ! 2) 1] 0 }"

text \<open>The value of the \<open>int16_t\<close> \<open>offs\<close>; outside its range the conversion is undefined.\<close>

definition sample_corr_val :: "int \<Rightarrow> int" where
  "sample_corr_val ppm = dbl_trunc (fl (fl (of_int (- ppm) * 2 ^ 24) / 1000000))"

definition rtlsdr_set_sample_freq_correction :: "'h usb_ops \<Rightarrow> int \<Rightarrow> ('h rtlsdr, int) prog" where
  "rtlsdr_set_sample_freq_correction U ppm = do {
     let offs = sample_corr_val ppm;
     _ \<leftarrow> d_ensure (- (2 ^ 15) \<le> offs \<and> offs < 2 ^ 15);
     seq_or [demod_write U 1 0x3f (word_of_int (offs AND 0xff)) 1,
             demod_write U 1 0x3e (word_of_int (drop_bit 8 offs AND 0x3f)) 1] 0 }"

section \<open>GPIO\<close>

definition rtlsdr_set_bias_tee_gpio :: "'h usb_ops \<Rightarrow> int \<Rightarrow> bool \<Rightarrow> ('h rtlsdr, int) prog" where
  "rtlsdr_set_bias_tee_gpio U gpio on = do {
     force_bt \<leftarrow> gets d_force_bt;
     let on = (if gpio = 0 \<and> force_bt then True else on);
     _ \<leftarrow> d_io (rtlsdr_set_gpio_output U (word_of_int gpio));
     _ \<leftarrow> d_io (rtlsdr_set_gpio_bit U (word_of_int gpio) on);
     ret 0 }"

definition rtlsdr_set_bias_tee :: "'h usb_ops \<Rightarrow> bool \<Rightarrow> ('h rtlsdr, int) prog" where
  "rtlsdr_set_bias_tee U on = rtlsdr_set_bias_tee_gpio U 0 on"

section \<open>Tuner drivers\<close>

subsection \<open>Elonics E4000\<close>

definition e4000_init :: "'h usb_ops \<Rightarrow> ('h rtlsdr, int) prog" where
  "e4000_init U = do {
     fosc \<leftarrow> rtlsdr_get_tuner_clock;
     _ \<leftarrow> modify (\<lambda>s. s\<lparr>d_e4k := (d_e4k s)\<lparr>e_i2c_addr := 0xc8, e_vco := (e_vco (d_e4k s))\<lparr>p_fosc := fosc\<rparr>\<rparr>\<rparr>);
     d_e4k_io (e4k_init U) }"

definition e4000_exit :: "'h usb_ops \<Rightarrow> ('h rtlsdr, int) prog" where
  "e4000_exit U = d_e4k_io (e4k_standby U True)"

text \<open>The uninitialised local of \<open>e4k_tune_freq\<close> is overwritten before it is used; the current
  parameters stand for it.\<close>

definition e4000_set_freq :: "'h usb_ops \<Rightarrow> nat \<Rightarrow> ('h rtlsdr, int) prog" where
  "e4000_set_freq U freq = do {
     oscp \<leftarrow> gets (\<lambda>s. e_vco (d_e4k s));
     d_e4k_io (e4k_tune_freq U oscp freq) }"

definition e4000_set_bw :: "'h usb_ops \<Rightarrow> int \<Rightarrow> ('h rtlsdr, int) prog" where
  "e4000_set_bw U bw =
     (let bw = nat (bw mod 2 ^ 32)
      in seq_or [d_e4k_io (e4k_if_filter_bw_set U E4K_IF_FILTER_MIX bw),
                 d_e4k_io (e4k_if_filter_bw_set U E4K_IF_FILTER_RC bw),
                 d_e4k_io (e4k_if_filter_bw_set U E4K_IF_FILTER_CHAN bw)] 0)"

definition e4000_set_gain :: "'h usb_ops \<Rightarrow> int \<Rightarrow> ('h rtlsdr, int) prog" where
  "e4000_set_gain U gain = do {
     let mixgain = (if gain > 340 then 12 else 4);
     r \<leftarrow> d_e4k_io (e4k_set_lna_gain U (min 300 (gain - mixgain * 10)));
     if r = - EINVAL then ret (-1)
     else do {
       r \<leftarrow> d_e4k_io (e4k_mixer_gain_set U mixgain);
       if r = - EINVAL then ret (-1) else ret 0 } }"

text \<open>The stage is converted to \<open>uint8_t\<close>, the gain in dB to \<open>int8_t\<close>.\<close>

definition e4000_set_if_gain :: "'h usb_ops \<Rightarrow> int \<Rightarrow> int \<Rightarrow> ('h rtlsdr, int) prog" where
  "e4000_set_if_gain U stage gain =
     d_e4k_io (e4k_if_gain_set U (nat (stage mod 256)) (signed_take_bit 7 (gain sdiv 10)))"

definition e4000_set_gain_mode :: "'h usb_ops \<Rightarrow> bool \<Rightarrow> ('h rtlsdr, int) prog" where
  "e4000_set_gain_mode U manual = d_e4k_io (e4k_enable_manual_gain U manual)"

subsection \<open>Fitipower FC0012, FC0013 and FCI FC2580\<close>

definition fc0012_set_freq :: "'h usb_ops \<Rightarrow> nat \<Rightarrow> ('h rtlsdr, int) prog" where
  "fc0012_set_freq U freq = do {
     _ \<leftarrow> d_io (rtlsdr_set_gpio_bit U 6 (freq > 300000000));
     clk \<leftarrow> rtlsdr_get_tuner_clock;
     d_io (fc0012_set_params U clk freq 6000000) }"

definition fc0013_set_freq :: "'h usb_ops \<Rightarrow> nat \<Rightarrow> ('h rtlsdr, int) prog" where
  "fc0013_set_freq U freq = do {
     clk \<leftarrow> rtlsdr_get_tuner_clock;
     d_io (fc0013_set_params U clk freq 6000000) }"

definition fc2580_set_bw :: "'h usb_ops \<Rightarrow> int \<Rightarrow> ('h rtlsdr, int) prog" where
  "fc2580_set_bw U bw = d_io (fc2580_SetBandwidthMode U 1)"

subsection \<open>Rafael Micro R820T and R828D\<close>

definition r820t_init :: "'h usb_ops \<Rightarrow> ('h rtlsdr, int) prog" where
  "r820t_init U = do {
     type \<leftarrow> gets d_tuner_type;
     clk \<leftarrow> rtlsdr_get_tuner_clock;
     _ \<leftarrow> modify (\<lambda>s. s\<lparr>d_r82xx := (d_r82xx s)\<lparr>r_cfg :=
       (if type = RTLSDR_TUNER_R828D
        then \<lparr>i2c_addr = 0x74, xtal = clk, rafael_chip = CHIP_R828D, max_i2c_msg_len = 8, use_predetect = False\<rparr>
        else \<lparr>i2c_addr = 0x34, xtal = clk, rafael_chip = CHIP_R820T, max_i2c_msg_len = 8, use_predetect = False\<rparr>)\<rparr>\<rparr>);
     d_r82xx_io (r82xx_init U) }"

definition r820t_exit :: "'h usb_ops \<Rightarrow> ('h rtlsdr, int) prog" where
  "r820t_exit U = d_r82xx_io (r82xx_standby U)"

definition r820t_set_freq :: "'h usb_ops \<Rightarrow> nat \<Rightarrow> ('h rtlsdr, int) prog" where
  "r820t_set_freq U freq = d_r82xx_io (r82xx_set_freq U freq)"

definition r820t_set_gain :: "'h usb_ops \<Rightarrow> int \<Rightarrow> ('h rtlsdr, int) prog" where
  "r820t_set_gain U gain = d_r82xx_io (r82xx_set_gain U True gain)"

definition r820t_set_gain_mode :: "'h usb_ops \<Rightarrow> bool \<Rightarrow> ('h rtlsdr, int) prog" where
  "r820t_set_gain_mode U manual = d_r82xx_io (r82xx_set_gain U manual 0)"

subsection \<open>The columns of the table\<close>

text \<open>The bandwidth column follows the tuning functions, which \<open>r820t_set_bw\<close> calls.\<close>

fun tuner_init :: "rtlsdr_tuner \<Rightarrow> 'h usb_ops \<Rightarrow> ('h rtlsdr, int) prog option" where
  "tuner_init RTLSDR_TUNER_UNKNOWN U = None"
| "tuner_init RTLSDR_TUNER_E4000 U = Some (e4000_init U)"
| "tuner_init RTLSDR_TUNER_FC0012 U = Some (d_io (fc0012_init U))"
| "tuner_init RTLSDR_TUNER_FC0013 U = Some (d_io (fc0013_init U))"
| "tuner_init RTLSDR_TUNER_FC2580 U = Some (d_io (fc2580_Initialize U))"
| "tuner_init RTLSDR_TUNER_R820T U = Some (r820t_init U)"
| "tuner_init RTLSDR_TUNER_R828D U = Some (r820t_init U)"

fun tuner_exit :: "rtlsdr_tuner \<Rightarrow> 'h usb_ops \<Rightarrow> ('h rtlsdr, int) prog option" where
  "tuner_exit RTLSDR_TUNER_UNKNOWN U = None"
| "tuner_exit RTLSDR_TUNER_E4000 U = Some (e4000_exit U)"
| "tuner_exit RTLSDR_TUNER_FC0012 U = Some (ret 0)"
| "tuner_exit RTLSDR_TUNER_FC0013 U = Some (ret 0)"
| "tuner_exit RTLSDR_TUNER_FC2580 U = Some (ret 0)"
| "tuner_exit RTLSDR_TUNER_R820T U = Some (r820t_exit U)"
| "tuner_exit RTLSDR_TUNER_R828D U = Some (r820t_exit U)"

fun tuner_set_freq :: "rtlsdr_tuner \<Rightarrow> 'h usb_ops \<Rightarrow> (nat \<Rightarrow> ('h rtlsdr, int) prog) option" where
  "tuner_set_freq RTLSDR_TUNER_UNKNOWN U = None"
| "tuner_set_freq RTLSDR_TUNER_E4000 U = Some (e4000_set_freq U)"
| "tuner_set_freq RTLSDR_TUNER_FC0012 U = Some (fc0012_set_freq U)"
| "tuner_set_freq RTLSDR_TUNER_FC0013 U = Some (fc0013_set_freq U)"
| "tuner_set_freq RTLSDR_TUNER_FC2580 U = Some (\<lambda>freq. d_io (fc2580_SetRfFreqHz U freq))"
| "tuner_set_freq RTLSDR_TUNER_R820T U = Some (r820t_set_freq U)"
| "tuner_set_freq RTLSDR_TUNER_R828D U = Some (r820t_set_freq U)"

fun tuner_set_gain :: "rtlsdr_tuner \<Rightarrow> 'h usb_ops \<Rightarrow> (int \<Rightarrow> ('h rtlsdr, int) prog) option" where
  "tuner_set_gain RTLSDR_TUNER_UNKNOWN U = None"
| "tuner_set_gain RTLSDR_TUNER_E4000 U = Some (e4000_set_gain U)"
| "tuner_set_gain RTLSDR_TUNER_FC0012 U = Some (\<lambda>gain. d_io (fc0012_set_gain U gain))"
| "tuner_set_gain RTLSDR_TUNER_FC0013 U = Some (\<lambda>gain. d_io (fc0013_set_lna_gain U gain))"
| "tuner_set_gain RTLSDR_TUNER_FC2580 U = Some (\<lambda>gain. ret 0)"
| "tuner_set_gain RTLSDR_TUNER_R820T U = Some (r820t_set_gain U)"
| "tuner_set_gain RTLSDR_TUNER_R828D U = Some (r820t_set_gain U)"

fun tuner_set_if_gain :: "rtlsdr_tuner \<Rightarrow> 'h usb_ops \<Rightarrow> (int \<Rightarrow> int \<Rightarrow> ('h rtlsdr, int) prog) option" where
  "tuner_set_if_gain RTLSDR_TUNER_E4000 U = Some (e4000_set_if_gain U)"
| "tuner_set_if_gain _ U = None"

fun tuner_set_gain_mode :: "rtlsdr_tuner \<Rightarrow> 'h usb_ops \<Rightarrow> (bool \<Rightarrow> ('h rtlsdr, int) prog) option" where
  "tuner_set_gain_mode RTLSDR_TUNER_UNKNOWN U = None"
| "tuner_set_gain_mode RTLSDR_TUNER_E4000 U = Some (e4000_set_gain_mode U)"
| "tuner_set_gain_mode RTLSDR_TUNER_FC0012 U = Some (\<lambda>manual. ret 0)"
| "tuner_set_gain_mode RTLSDR_TUNER_FC0013 U = Some (\<lambda>manual. d_io (fc0013_set_gain_mode U manual))"
| "tuner_set_gain_mode RTLSDR_TUNER_FC2580 U = Some (\<lambda>manual. ret 0)"
| "tuner_set_gain_mode RTLSDR_TUNER_R820T U = Some (r820t_set_gain_mode U)"
| "tuner_set_gain_mode RTLSDR_TUNER_R828D U = Some (r820t_set_gain_mode U)"

text \<open>\<open>dev->tuner->f\<close> for a column \<open>f\<close>: \<open>None\<close> when either pointer is null.\<close>

definition tuner_op :: "(rtlsdr_tuner \<Rightarrow> 'h usb_ops \<Rightarrow> 'a option) \<Rightarrow> 'h usb_ops \<Rightarrow> ('h rtlsdr, 'a option) prog" where
  "tuner_op column U = gets (\<lambda>s. Option.bind (d_tuner s) (\<lambda>t. column t U))"

text \<open>\<open>with_repeater\<close> is the call of a tuner function between the two repeater settings.\<close>

definition with_repeater :: "'h usb_ops \<Rightarrow> ('h rtlsdr, int) prog option \<Rightarrow> ('h rtlsdr, int) prog" where
  "with_repeater U f = (case f of None \<Rightarrow> ret 0
     | Some m \<Rightarrow> do { _ \<leftarrow> i2c_repeater U True; r \<leftarrow> m; _ \<leftarrow> i2c_repeater U False; ret r })"

definition rtlsdr_deinit_baseband :: "'h usb_ops \<Rightarrow> ('h rtlsdr, int) prog" where
  "rtlsdr_deinit_baseband U = do {
     f \<leftarrow> tuner_op tuner_exit U;
     r \<leftarrow> with_repeater U f;
     _ \<leftarrow> d_io (rtlsdr_write_reg U SYSB DEMOD_CTL 0x20 1);
     ret r }"

section \<open>Tuning and direct sampling\<close>

text \<open>
  \<open>rtlsdr_set_center_freq\<close> and \<open>_rtlsdr_set_direct_sampling\<close> call each other. Each is given with
  the other one as an argument; \<open>center_freq_fuel n\<close> allows \<open>n\<close> nested calls of the first, and
  \<open>None\<close> says that they were not enough. (Three are always enough, see \<open>center_freq_terminates\<close>.)
\<close>

definition apply_freq :: "'h usb_ops \<Rightarrow> nat \<Rightarrow> ('h rtlsdr, int) prog" where
  "apply_freq U freq = do {
     ds \<leftarrow> gets d_direct_sampling;
     set_freq \<leftarrow> tuner_op tuner_set_freq U;
     if ds \<noteq> 0 then do { _ \<leftarrow> i2c_repeater U False; rtlsdr_set_if_freq U freq }
     else case set_freq of None \<Rightarrow> ret (-1)
       | Some f \<Rightarrow> do {
           _ \<leftarrow> i2c_repeater U True;
           offs_freq \<leftarrow> gets d_offs_freq;
           f ((freq + 2 ^ 32 - offs_freq) mod 2 ^ 32) } }"

definition center_freq_with ::
  "'h usb_ops \<Rightarrow> (int \<Rightarrow> ('h rtlsdr, int option) prog) \<Rightarrow> nat \<Rightarrow> ('h rtlsdr, int option) prog" where
  "center_freq_with U set_ds freq = do {
     tuner \<leftarrow> gets d_tuner;
     last_ds \<leftarrow> gets d_direct_sampling;
     if tuner = None then ret (Some (-1))
     else if last_ds < 0 then ret (Some 1)
     else do {
       _ \<leftarrow> modify (\<lambda>s. if d_ds_mode s = 0
              then s\<lparr>d_direct_sampling := (if freq < 24000000 \<and> d_tuner_type s = RTLSDR_TUNER_R820T then 2 else 0)\<rparr>
              else s);
       r \<leftarrow> apply_freq U freq;
       _ \<leftarrow> modify (\<lambda>s. s\<lparr>d_freq := (if r = 0 then freq else 0)\<rparr>);
       ds \<leftarrow> gets d_direct_sampling;
       if last_ds \<noteq> ds then set_ds ds else ret (Some r) } }"

definition enable_ds :: "'h usb_ops \<Rightarrow> int \<Rightarrow> ('h rtlsdr, int) prog" where
  "enable_ds U on = do {
     f \<leftarrow> tuner_op tuner_exit U;
     r \<leftarrow> with_repeater U f;
     seq_or [demod_write U 1 0xb1 0x1a 1, demod_write U 1 0x15 0x00 1,
             demod_write U 0 0x08 0x4d 1, demod_write U 0 0x06 (if on > 1 then 0x90 else 0x80) 1] r }"

definition disable_ds :: "'h usb_ops \<Rightarrow> ('h rtlsdr, int) prog" where
  "disable_ds U = do {
     f \<leftarrow> tuner_op tuner_init U;
     r \<leftarrow> with_repeater U f;
     type \<leftarrow> gets d_tuner_type;
     r \<leftarrow> (if type = RTLSDR_TUNER_R820T \<or> type = RTLSDR_TUNER_R828D
          then seq_or [rtlsdr_set_if_freq U R82XX_IF_FREQ, demod_write U 1 0x15 0x01 1] r
          else seq_or [rtlsdr_set_if_freq U 0, demod_write U 0 0x08 0xcd 1, demod_write U 1 0xb1 0x1b 1] r);
     seq_or [demod_write U 0 0x06 0x80 1] r }"

definition direct_sampling_with ::
  "'h usb_ops \<Rightarrow> (nat \<Rightarrow> ('h rtlsdr, int option) prog) \<Rightarrow> int \<Rightarrow> ('h rtlsdr, int option) prog" where
  "direct_sampling_with U set_freq on = do {
     r \<leftarrow> (if on \<noteq> 0 then enable_ds U on else disable_ds U);
     _ \<leftarrow> modify (\<lambda>s. s\<lparr>d_direct_sampling := on\<rparr>);
     freq \<leftarrow> gets d_freq;
     r' \<leftarrow> set_freq freq;
     ret (map_option (\<lambda>r'. r OR r') r') }"

fun center_freq_fuel :: "nat \<Rightarrow> 'h usb_ops \<Rightarrow> nat \<Rightarrow> ('h rtlsdr, int option) prog" where
  "center_freq_fuel 0 U freq = ret None"
| "center_freq_fuel (Suc n) U freq =
     center_freq_with U (direct_sampling_with U (center_freq_fuel n U)) freq"

definition or_fault :: "('h rtlsdr, int option) prog \<Rightarrow> ('h rtlsdr, int) prog" where
  "or_fault m = do { r \<leftarrow> m; _ \<leftarrow> d_ensure (r \<noteq> None); ret (case r of None \<Rightarrow> 0 | Some r \<Rightarrow> r) }"

definition rtlsdr_set_center_freq :: "'h usb_ops \<Rightarrow> nat \<Rightarrow> ('h rtlsdr, int) prog" where
  "rtlsdr_set_center_freq U freq = or_fault (center_freq_fuel 3 U freq)"

definition rtlsdr_set_direct_sampling_raw :: "'h usb_ops \<Rightarrow> int \<Rightarrow> ('h rtlsdr, int) prog" where
  "rtlsdr_set_direct_sampling_raw U on = or_fault (direct_sampling_with U (center_freq_fuel 3 U) on)"

definition rtlsdr_set_direct_sampling :: "'h usb_ops \<Rightarrow> int \<Rightarrow> ('h rtlsdr, int) prog" where
  "rtlsdr_set_direct_sampling U on = do {
     _ \<leftarrow> modify (\<lambda>s. s\<lparr>d_ds_mode := on\<rparr>);
     rtlsdr_set_direct_sampling_raw U on }"

section \<open>Bandwidth, gain and frequency\<close>

definition r820t_set_bw :: "'h usb_ops \<Rightarrow> int \<Rightarrow> ('h rtlsdr, int) prog" where
  "r820t_set_bw U bw = do {
     r \<leftarrow> d_r82xx_io (r82xx_set_bandwidth U bw);
     if r < 0 then ret r
     else do {
       r \<leftarrow> rtlsdr_set_if_freq U (nat r);
       if r \<noteq> 0 then ret r
       else do {
         freq \<leftarrow> gets d_freq;
         rtlsdr_set_center_freq U freq } } }"

fun tuner_set_bw :: "rtlsdr_tuner \<Rightarrow> 'h usb_ops \<Rightarrow> (int \<Rightarrow> ('h rtlsdr, int) prog) option" where
  "tuner_set_bw RTLSDR_TUNER_UNKNOWN U = None"
| "tuner_set_bw RTLSDR_TUNER_E4000 U = Some (e4000_set_bw U)"
| "tuner_set_bw RTLSDR_TUNER_FC0012 U = Some (\<lambda>bw. ret 0)"
| "tuner_set_bw RTLSDR_TUNER_FC0013 U = Some (\<lambda>bw. ret 0)"
| "tuner_set_bw RTLSDR_TUNER_FC2580 U = Some (fc2580_set_bw U)"
| "tuner_set_bw RTLSDR_TUNER_R820T U = Some (r820t_set_bw U)"
| "tuner_set_bw RTLSDR_TUNER_R828D U = Some (r820t_set_bw U)"

definition rtlsdr_set_tuner_bandwidth :: "'h usb_ops \<Rightarrow> nat \<Rightarrow> ('h rtlsdr, int) prog" where
  "rtlsdr_set_tuner_bandwidth U bw = do {
     tuner \<leftarrow> gets d_tuner;
     if tuner = None then ret (-1)
     else do {
       f \<leftarrow> tuner_op tuner_set_bw U;
       rate \<leftarrow> gets d_rate;
       r \<leftarrow> with_repeater U (map_option (\<lambda>f. f (to_int32 (int (if bw > 0 then bw else rate)))) f);
       if r \<noteq> 0 \<or> f = None then ret r
       else do { _ \<leftarrow> modify (\<lambda>s. s\<lparr>d_bw := bw\<rparr>); ret r } } }"

text \<open>The three gain functions: repeater on, the operation of the column, the repeater stays on.\<close>

definition call_tuner :: "'h usb_ops \<Rightarrow> ('h rtlsdr, int) prog option \<Rightarrow> ('h rtlsdr, int) prog" where
  "call_tuner U f = (case f of None \<Rightarrow> ret 0 | Some m \<Rightarrow> do { _ \<leftarrow> i2c_repeater U True; m })"

definition rtlsdr_set_tuner_gain :: "'h usb_ops \<Rightarrow> int \<Rightarrow> ('h rtlsdr, int) prog" where
  "rtlsdr_set_tuner_gain U gain = do {
     tuner \<leftarrow> gets d_tuner;
     if tuner = None then ret (-1)
     else do {
       f \<leftarrow> tuner_op tuner_set_gain U;
       r \<leftarrow> call_tuner U (map_option (\<lambda>f. f gain) f);
       _ \<leftarrow> modify (\<lambda>s. s\<lparr>d_gain := (if r = 0 then gain else 0)\<rparr>);
       ret r } }"

definition rtlsdr_set_tuner_if_gain :: "'h usb_ops \<Rightarrow> int \<Rightarrow> int \<Rightarrow> ('h rtlsdr, int) prog" where
  "rtlsdr_set_tuner_if_gain U stage gain = do {
     tuner \<leftarrow> gets d_tuner;
     if tuner = None then ret (-1)
     else do {
       f \<leftarrow> tuner_op tuner_set_if_gain U;
       call_tuner U (map_option (\<lambda>f. f stage gain) f) } }"

definition rtlsdr_set_tuner_gain_mode :: "'h usb_ops \<Rightarrow> bool \<Rightarrow> ('h rtlsdr, int) prog" where
  "rtlsdr_set_tuner_gain_mode U mode = do {
     tuner \<leftarrow> gets d_tuner;
     if tuner = None then ret (-1)
     else do {
       f \<leftarrow> tuner_op tuner_set_gain_mode U;
       call_tuner U (map_option (\<lambda>f. f mode) f) } }"

fun tuner_gains :: "rtlsdr_tuner \<Rightarrow> int list" where
  "tuner_gains RTLSDR_TUNER_UNKNOWN = [0]"
| "tuner_gains RTLSDR_TUNER_E4000 = [-10, 15, 40, 65, 90, 115, 140, 165, 190, 215, 240, 290, 340, 420]"
| "tuner_gains RTLSDR_TUNER_FC0012 = [-99, -40, 71, 179, 192]"
| "tuner_gains RTLSDR_TUNER_FC0013 =
     [-99, -73, -65, -63, -60, -58, -54, 58, 61, 63, 65, 67, 68, 70, 71, 179, 181, 182,
      184, 186, 188, 191, 197]"
| "tuner_gains RTLSDR_TUNER_FC2580 = [0]"
| "tuner_gains RTLSDR_TUNER_R820T =
     [0, 9, 14, 27, 37, 77, 87, 125, 144, 157, 166, 197, 207, 229, 254, 280, 297, 328,
      338, 364, 372, 386, 402, 421, 434, 439, 445, 480, 496]"
| "tuner_gains RTLSDR_TUNER_R828D =
     [0, 9, 14, 27, 37, 77, 87, 125, 144, 157, 166, 197, 207, 229, 254, 280, 297, 328,
      338, 364, 372, 386, 402, 421, 434, 439, 445, 480, 496]"

text \<open>With a buffer the list is copied, in both cases the number of values is returned.\<close>

definition rtlsdr_get_tuner_gains :: "('h rtlsdr, int \<times> int list) prog" where
  "rtlsdr_get_tuner_gains = gets (\<lambda>s. let gs = tuner_gains (d_tuner_type s) in (int (length gs), gs))"

definition rtlsdr_set_offset_tuning :: "'h usb_ops \<Rightarrow> bool \<Rightarrow> ('h rtlsdr, int) prog" where
  "rtlsdr_set_offset_tuning U on = do {
     type \<leftarrow> gets d_tuner_type;
     ds \<leftarrow> gets d_direct_sampling;
     if type = RTLSDR_TUNER_R820T \<or> type = RTLSDR_TUNER_R828D
     then do { _ \<leftarrow> rtlsdr_set_bias_tee U on; ret (-2) }
     else if ds \<noteq> 0 then ret (-3)
     else do {
       _ \<leftarrow> modify (\<lambda>s. s\<lparr>d_offs_freq := (if on then (d_rate s div 2) * 170 mod 2 ^ 32 div 100 else 0)\<rparr>);
       offs_freq \<leftarrow> gets d_offs_freq;
       r \<leftarrow> rtlsdr_set_if_freq U offs_freq;
       f \<leftarrow> tuner_op tuner_set_bw U;
       bw \<leftarrow> gets (\<lambda>s. if on then 2 * d_offs_freq s else if d_bw s > 0 then d_bw s else d_rate s);
       _ \<leftarrow> with_repeater U (map_option (\<lambda>f. f (to_int32 (int (bw mod 2 ^ 32)))) f);
       freq \<leftarrow> gets d_freq;
       offs_freq \<leftarrow> gets d_offs_freq;
       if freq > offs_freq then do { r' \<leftarrow> rtlsdr_set_center_freq U freq; ret (r OR r') } else ret r } }"

section \<open>Sampling rate and clock correction\<close>

definition rate_supported :: "nat \<Rightarrow> bool" where
  "rate_supported samp_rate \<longleftrightarrow>
     \<not> (samp_rate \<le> 225000 \<or> samp_rate > 3200000 \<or> (samp_rate > 300000 \<and> samp_rate \<le> 900000))"

definition rsamp_ratio :: "nat \<Rightarrow> nat \<Rightarrow> u32" where
  "rsamp_ratio rtl_xtal samp_rate =
     word_of_int (dbl_trunc (fl (fl (of_nat rtl_xtal * 2 ^ 22) / of_nat samp_rate))) AND 0x0ffffffc"

definition real_rsamp_ratio :: "u32 \<Rightarrow> u32" where
  "real_rsamp_ratio ratio = ratio OR push_bit 1 (ratio AND 0x08000000)"

text \<open>\<open>None\<close>: a division by zero or a rate outside the range of \<open>uint32_t\<close>.\<close>

definition real_rate :: "nat \<Rightarrow> u32 \<Rightarrow> nat option" where
  "real_rate rtl_xtal ratio =
     (let r = unat (real_rsamp_ratio ratio);
          rate = dbl_trunc (fl (fl (of_nat rtl_xtal * 2 ^ 22) / of_nat r))
      in if r = 0 \<or> rate \<ge> 2 ^ 32 then None else Some (nat rate))"

text \<open>\<open>rtlsdr_set_sample_rate\<close> from the assignment of \<open>dev->rate\<close> on.\<close>

definition apply_sample_rate :: "'h usb_ops \<Rightarrow> u32 \<Rightarrow> ('h rtlsdr, int) prog" where
  "apply_sample_rate U ratio = do {
     f \<leftarrow> tuner_op tuner_set_bw U;
     bw \<leftarrow> gets (\<lambda>s. if d_bw s > 0 then d_bw s else d_rate s);
     _ \<leftarrow> with_repeater U (map_option (\<lambda>f. f (to_int32 (int bw))) f);
     corr \<leftarrow> gets d_corr;
     r \<leftarrow> seq_or [demod_write U 1 0x9f (ucast (drop_bit 16 ratio)) 2,
                 demod_write U 1 0xa1 (ucast (ratio AND 0xffff)) 2,
                 rtlsdr_set_sample_freq_correction U corr,
                 demod_write U 1 0x01 0x14 1,
                 demod_write U 1 0x01 0x10 1] 0;
     offs_freq \<leftarrow> gets d_offs_freq;
     if offs_freq \<noteq> 0 then do { _ \<leftarrow> rtlsdr_set_offset_tuning U True; ret r } else ret r }"

definition rtlsdr_set_sample_rate :: "'h usb_ops \<Rightarrow> nat \<Rightarrow> ('h rtlsdr, int) prog" where
  "rtlsdr_set_sample_rate U samp_rate =
     (if \<not> rate_supported samp_rate then ret (- EINVAL)
      else do {
        rtl_xtal \<leftarrow> gets d_rtl_xtal;
        let ratio = rsamp_ratio rtl_xtal samp_rate;
        _ \<leftarrow> d_ensure (real_rate rtl_xtal ratio \<noteq> None);
        _ \<leftarrow> modify (\<lambda>s. s\<lparr>d_rate := (case real_rate rtl_xtal ratio of None \<Rightarrow> 0 | Some rate \<Rightarrow> rate)\<rparr>);
        apply_sample_rate U ratio })"

text \<open>The corrected tuner clock is copied into the structures of both tuner drivers.\<close>

definition update_tuner_clocks :: "('h rtlsdr, unit) prog" where
  "update_tuner_clocks = do {
     clk \<leftarrow> rtlsdr_get_tuner_clock;
     modify (\<lambda>s. s\<lparr>d_e4k := (d_e4k s)\<lparr>e_vco := (e_vco (d_e4k s))\<lparr>p_fosc := clk\<rparr>\<rparr>,
                   d_r82xx := (d_r82xx s)\<lparr>r_cfg := (r_cfg (d_r82xx s))\<lparr>xtal := clk\<rparr>\<rparr>\<rparr>) }"

definition rtlsdr_set_xtal_freq :: "'h usb_ops \<Rightarrow> nat \<Rightarrow> nat \<Rightarrow> ('h rtlsdr, int) prog" where
  "rtlsdr_set_xtal_freq U rtl_freq tuner_freq =
     (if rtl_freq > 0 \<and> (rtl_freq < MIN_RTL_XTAL_FREQ \<or> rtl_freq > MAX_RTL_XTAL_FREQ) then ret (-2)
      else do {
        rtl_xtal \<leftarrow> gets d_rtl_xtal;
        r \<leftarrow> (if rtl_freq > 0 \<and> rtl_xtal \<noteq> rtl_freq then do {
               _ \<leftarrow> modify (\<lambda>s. s\<lparr>d_rtl_xtal := rtl_freq\<rparr>);
               rate \<leftarrow> gets d_rate;
               if rate \<noteq> 0 then rtlsdr_set_sample_rate U rate else ret 0 }
             else ret 0);
        tun_xtal \<leftarrow> gets d_tun_xtal;
        if tun_xtal \<noteq> tuner_freq then do {
          _ \<leftarrow> modify (\<lambda>s. s\<lparr>d_tun_xtal := (if tuner_freq = 0 then d_rtl_xtal s else tuner_freq)\<rparr>);
          _ \<leftarrow> update_tuner_clocks;
          freq \<leftarrow> gets d_freq;
          if freq \<noteq> 0 then rtlsdr_set_center_freq U freq else ret r }
        else ret r })"

definition rtlsdr_set_freq_correction :: "'h usb_ops \<Rightarrow> int \<Rightarrow> ('h rtlsdr, int) prog" where
  "rtlsdr_set_freq_correction U ppm = do {
     corr \<leftarrow> gets d_corr;
     if corr = ppm then ret (-2)
     else do {
       _ \<leftarrow> modify (\<lambda>s. s\<lparr>d_corr := ppm\<rparr>);
       r \<leftarrow> rtlsdr_set_sample_freq_correction U ppm;
       _ \<leftarrow> update_tuner_clocks;
       freq \<leftarrow> gets d_freq;
       if freq \<noteq> 0 then do { r' \<leftarrow> rtlsdr_set_center_freq U freq; ret (r OR r') } else ret r } }"

section \<open>Modes and buffers\<close>

definition rtlsdr_set_testmode :: "'h usb_ops \<Rightarrow> bool \<Rightarrow> ('h rtlsdr, int) prog" where
  "rtlsdr_set_testmode U on = demod_write U 0 0x19 (if on then 0x03 else 0x05) 1"

definition rtlsdr_set_agc_mode :: "'h usb_ops \<Rightarrow> bool \<Rightarrow> ('h rtlsdr, int) prog" where
  "rtlsdr_set_agc_mode U on = demod_write U 0 0x19 (if on then 0x25 else 0x05) 1"

definition rtlsdr_reset_buffer :: "'h usb_ops \<Rightarrow> ('h rtlsdr, int) prog" where
  "rtlsdr_reset_buffer U = do {
     _ \<leftarrow> d_io (seq_ign [rtlsdr_write_reg U USBB USB_EPA_CTL 0x1002 2, rtlsdr_write_reg U USBB USB_EPA_CTL 0x0000 2]);
     ret 0 }"

section \<open>Reading the device structure\<close>

definition rtlsdr_get_center_freq :: "('h rtlsdr, nat) prog" where
  "rtlsdr_get_center_freq = gets d_freq"

definition rtlsdr_get_freq_correction :: "('h rtlsdr, int) prog" where
  "rtlsdr_get_freq_correction = gets d_corr"

definition rtlsdr_get_tuner_type :: "('h rtlsdr, rtlsdr_tuner) prog" where
  "rtlsdr_get_tuner_type = gets d_tuner_type"

definition rtlsdr_get_tuner_gain :: "('h rtlsdr, int) prog" where
  "rtlsdr_get_tuner_gain = gets d_gain"

definition rtlsdr_get_sample_rate :: "('h rtlsdr, nat) prog" where
  "rtlsdr_get_sample_rate = gets d_rate"

definition rtlsdr_get_direct_sampling :: "('h rtlsdr, int) prog" where
  "rtlsdr_get_direct_sampling = gets d_direct_sampling"

definition rtlsdr_get_offset_tuning :: "('h rtlsdr, int) prog" where
  "rtlsdr_get_offset_tuning = gets (\<lambda>s. if d_offs_freq s \<noteq> 0 then 1 else 0)"

section \<open>EEPROM\<close>

text \<open>One byte of \<open>rtlsdr_write_eeprom\<close>: \<open>cmd[1]\<close> keeps its value when the read fails.\<close>

primrec eeprom_write_bytes :: "'h usb_ops \<Rightarrow> nat \<Rightarrow> u8 list \<Rightarrow> u8 \<Rightarrow> ('h, int) prog" where
  "eeprom_write_bytes U addr [] cmd1 = ret 0"
| "eeprom_write_bytes U addr (b # bs) cmd1 = do {
     _ \<leftarrow> rtlsdr_write_array U IICB EEPROM_ADDR [of_nat addr] 1;
     (_, data) \<leftarrow> rtlsdr_read_array U IICB EEPROM_ADDR [cmd1] 1;
     if data ! 0 = b then eeprom_write_bytes U (Suc addr) bs (data ! 0)
     else do {
       r \<leftarrow> rtlsdr_write_array U IICB EEPROM_ADDR [of_nat addr, b] 2;
       if r \<noteq> 2 then ret (-3) else eeprom_write_bytes U (Suc addr) bs b } }"

definition rtlsdr_write_eeprom :: "'h usb_ops \<Rightarrow> u8 list \<Rightarrow> u8 \<Rightarrow> ('h, int) prog" where
  "rtlsdr_write_eeprom U data offset =
     (if length data + unat offset > 256 then ret (-2)
      else do {
        cmd1 \<leftarrow> gets (\<lambda>h. indet U h 0);
        eeprom_write_bytes U (unat offset) data cmd1 })"

text \<open>The bytes read; a byte whose read fails keeps what the caller's buffer holds.\<close>

primrec eeprom_read_bytes :: "'h usb_ops \<Rightarrow> u8 list \<Rightarrow> int \<Rightarrow> ('h, int \<times> u8 list) prog" where
  "eeprom_read_bytes U [] r = ret (r, [])"
| "eeprom_read_bytes U (b # bs) r = do {
     (r, data) \<leftarrow> rtlsdr_read_array U IICB EEPROM_ADDR [b] 1;
     if r < 0 then ret (-3, data ! 0 # bs)
     else do { (r, ds) \<leftarrow> eeprom_read_bytes U bs r; ret (r, data ! 0 # ds) } }"

definition rtlsdr_read_eeprom :: "'h usb_ops \<Rightarrow> u8 list \<Rightarrow> u8 \<Rightarrow> ('h, int \<times> u8 list) prog" where
  "rtlsdr_read_eeprom U data offset =
     (if length data + unat offset > 256 then ret (-2, data)
      else do {
        r \<leftarrow> rtlsdr_write_array U IICB EEPROM_ADDR [offset] 1;
        if r < 0 then ret (-3, data) else eeprom_read_bytes U data r })"

section \<open>Device selection\<close>

text \<open>
  What libusb and the C library report is the parameter \<open>'h usb_host\<close>: whether an allocation
  succeeds, the result of \<open>libusb_init\<close>, the vendor and product numbers of the devices on the
  bus, the result of opening the device at a position of the list, whether a kernel driver is
  active, the result of claiming the interface, what a reset does to the device, and the
  strings of the device at a position (\<open>None\<close>: no descriptor).
\<close>

record 'h usb_host =
  alloc_ok :: bool
  init_rc :: int
  dev_list :: "(u16 \<times> u16) list"
  open_rc :: "nat \<Rightarrow> int"
  kernel_active :: bool
  claim_rc :: int
  reset_dev :: "'h \<Rightarrow> 'h"
  dev_strings :: "nat \<Rightarrow> (string \<times> string \<times> string) option"

definition known_devices :: "(u16 \<times> u16 \<times> string) list" where
  "known_devices =
     [(0x0bda, 0x2832, ''Generic RTL2832U''),
      (0x0bda, 0x2838, ''Generic RTL2832U OEM''),
      (0x0413, 0x6680, ''DigitalNow Quad DVB-T PCI-E card''),
      (0x0413, 0x6f0f, ''Leadtek WinFast DTV Dongle mini D''),
      (0x0458, 0x707f, ''Genius TVGo DVB-T03 USB dongle (Ver. B)''),
      (0x0ccd, 0x00a9, ''Terratec Cinergy T Stick Black (rev 1)''),
      (0x0ccd, 0x00b3, ''Terratec NOXON DAB/DAB+ USB dongle (rev 1)''),
      (0x0ccd, 0x00b4, ''Terratec Deutschlandradio DAB Stick''),
      (0x0ccd, 0x00b5, ''Terratec NOXON DAB Stick - Radio Energy''),
      (0x0ccd, 0x00b7, ''Terratec Media Broadcast DAB Stick''),
      (0x0ccd, 0x00b8, ''Terratec BR DAB Stick''),
      (0x0ccd, 0x00b9, ''Terratec WDR DAB Stick''),
      (0x0ccd, 0x00c0, ''Terratec MuellerVerlag DAB Stick''),
      (0x0ccd, 0x00c6, ''Terratec Fraunhofer DAB Stick''),
      (0x0ccd, 0x00d3, ''Terratec Cinergy T Stick RC (Rev.3)''),
      (0x0ccd, 0x00d7, ''Terratec T Stick PLUS''),
      (0x0ccd, 0x00e0, ''Terratec NOXON DAB/DAB+ USB dongle (rev 2)''),
      (0x1554, 0x5020, ''PixelView PV-DT235U(RN)''),
      (0x15f4, 0x0131, ''Astrometa DVB-T/DVB-T2''),
      (0x15f4, 0x0133, ''HanfTek DAB+FM+DVB-T''),
      (0x185b, 0x0620, ''Compro Videomate U620F''),
      (0x185b, 0x0650, ''Compro Videomate U650F''),
      (0x185b, 0x0680, ''Compro Videomate U680F''),
      (0x1b80, 0xd393, ''GIGABYTE GT-U7300''),
      (0x1b80, 0xd394, ''DIKOM USB-DVBT HD''),
      (0x1b80, 0xd395, ''Peak 102569AGPK''),
      (0x1b80, 0xd397, ''KWorld KW-UB450-T USB DVB-T Pico TV''),
      (0x1b80, 0xd398, ''Zaapa ZT-MINDVBZP''),
      (0x1b80, 0xd39d, ''SVEON STV20 DVB-T USB & FM''),
      (0x1b80, 0xd3a4, ''Twintech UT-40''),
      (0x1b80, 0xd3a8, ''ASUS U3100MINI_PLUS_V2''),
      (0x1b80, 0xd3af, ''SVEON STV27 DVB-T USB & FM''),
      (0x1b80, 0xd3b0, ''SVEON STV21 DVB-T USB & FM''),
      (0x1d19, 0x1101, ''Dexatek DK DVB-T Dongle (Logilink VG0002A)''),
      (0x1d19, 0x1102, ''Dexatek DK DVB-T Dongle (MSI DigiVox mini II V3.0)''),
      (0x1d19, 0x1103, ''Dexatek Technology Ltd. DK 5217 DVB-T Dongle''),
      (0x1d19, 0x1104, ''MSI DigiVox Micro HD''),
      (0x1f4d, 0xa803, ''Sweex DVB-T USB''),
      (0x1f4d, 0xb803, ''GTek T803''),
      (0x1f4d, 0xc803, ''Lifeview LV5TDeluxe''),
      (0x1f4d, 0xd286, ''MyGica TD312''),
      (0x1f4d, 0xd803, ''PROlectrix DV107669'')]"

fun find_known_in :: "(u16 \<times> u16 \<times> string) list \<Rightarrow> u16 \<times> u16 \<Rightarrow> string option" where
  "find_known_in [] d = None"
| "find_known_in ((vid, pid, name) # ks) d =
     (if vid = fst d \<and> pid = snd d then Some name else find_known_in ks d)"

definition find_known_device :: "u16 \<times> u16 \<Rightarrow> string option" where
  "find_known_device = find_known_in known_devices"

primrec count_loop :: "(u16 \<times> u16) list \<Rightarrow> nat \<Rightarrow> nat" where
  "count_loop [] device_count = device_count"
| "count_loop (d # ds) device_count =
     count_loop ds (if find_known_device d \<noteq> None then (device_count + 1) mod 2 ^ 32 else device_count)"

definition rtlsdr_get_device_count :: "'h usb_host \<Rightarrow> nat" where
  "rtlsdr_get_device_count H = (if init_rc H < 0 then 0 else count_loop (dev_list H) 0)"

text \<open>\<open>device\<close> is the local variable of the C code, which the loop leaves at its last value.\<close>

fun name_loop :: "nat \<Rightarrow> (u16 \<times> u16) list \<Rightarrow> nat \<Rightarrow> string option \<Rightarrow> string option" where
  "name_loop index [] device_count device = device"
| "name_loop index (d # ds) device_count device =
     (let device = find_known_device d
      in if device \<noteq> None
         then let device_count = (device_count + 1) mod 2 ^ 32
              in if index = (device_count + 2 ^ 32 - 1) mod 2 ^ 32 then device
                 else name_loop index ds device_count device
         else name_loop index ds device_count device)"

definition rtlsdr_get_device_name :: "'h usb_host \<Rightarrow> nat \<Rightarrow> string" where
  "rtlsdr_get_device_name H index =
     (if init_rc H < 0 then []
      else case name_loop index (dev_list H) 0 None of None \<Rightarrow> [] | Some name \<Rightarrow> name)"

fun strings_loop :: "nat \<Rightarrow> (u16 \<times> u16) list \<Rightarrow> nat \<Rightarrow> nat \<Rightarrow> nat option" where
  "strings_loop index [] i device_count = None"
| "strings_loop index (d # ds) i device_count =
     (if find_known_device d \<noteq> None
      then let device_count = (device_count + 1) mod 2 ^ 32
           in if index = (device_count + 2 ^ 32 - 1) mod 2 ^ 32 then Some i
              else strings_loop index ds (Suc i) device_count
      else strings_loop index ds (Suc i) device_count)"

text \<open>The result code and the three strings, \<open>None\<close> when they are not filled in.\<close>

definition rtlsdr_get_device_usb_strings ::
  "'h usb_host \<Rightarrow> nat \<Rightarrow> int \<times> (string \<times> string \<times> string) option" where
  "rtlsdr_get_device_usb_strings H index =
     (if init_rc H < 0 then (init_rc H, None)
      else case strings_loop index (dev_list H) 0 0 of
        None \<Rightarrow> (init_rc H, None)
      | Some i \<Rightarrow>
          if open_rc H i \<noteq> 0 then (open_rc H i, None)
          else case dev_strings H i of None \<Rightarrow> (-1, None) | Some strs \<Rightarrow> (0, Some strs))"

text \<open>\<open>str\<close> is the buffer of the C code, which keeps its contents from one call to the next.\<close>

primrec serial_loop :: "'h usb_host \<Rightarrow> string \<Rightarrow> nat list \<Rightarrow> string \<Rightarrow> int" where
  "serial_loop H serial [] str = -3"
| "serial_loop H serial (i # is) str =
     (case rtlsdr_get_device_usb_strings H i of (r, strs) \<Rightarrow>
        let str = (case strs of None \<Rightarrow> str | Some (_, _, s) \<Rightarrow> s)
        in if r = 0 \<and> serial = str then int i else serial_loop H serial is str)"

definition rtlsdr_get_index_by_serial :: "'h usb_host \<Rightarrow> string \<Rightarrow> string \<Rightarrow> int" where
  "rtlsdr_get_index_by_serial H str serial =
     (let cnt = rtlsdr_get_device_count H
      in if cnt = 0 then -2 else serial_loop H serial [0..<cnt] str)"

section \<open>Opening and closing\<close>

fun open_loop :: "nat \<Rightarrow> (u16 \<times> u16) list \<Rightarrow> nat \<Rightarrow> nat \<Rightarrow> nat option" where
  "open_loop index [] i device_count = None"
| "open_loop index (d # ds) i device_count =
     (let device_count = (if find_known_device d \<noteq> None then (device_count + 1) mod 2 ^ 32 else device_count)
      in if index = (device_count + 2 ^ 32 - 1) mod 2 ^ 32 then Some i
         else open_loop index ds (Suc i) device_count)"

definition probe_tuner :: "'h usb_ops \<Rightarrow> ('h, rtlsdr_tuner) prog" where
  "probe_tuner U = do {
     reg \<leftarrow> rtlsdr_i2c_read_reg U 0xc8 0x02;
     if reg = 0x40 then ret RTLSDR_TUNER_E4000 else do {
     reg \<leftarrow> rtlsdr_i2c_read_reg U FC0013_I2C_ADDR 0x00;
     if reg = 0xa3 then ret RTLSDR_TUNER_FC0013 else do {
     reg \<leftarrow> rtlsdr_i2c_read_reg U 0x34 0x00;
     if reg = 0x69 then ret RTLSDR_TUNER_R820T else do {
     reg \<leftarrow> rtlsdr_i2c_read_reg U 0x74 0x00;
     if reg = 0x69 then ret RTLSDR_TUNER_R828D else do {
     _ \<leftarrow> rtlsdr_set_gpio_output U 4;
     _ \<leftarrow> rtlsdr_set_gpio_bit U 4 True;
     _ \<leftarrow> rtlsdr_set_gpio_bit U 4 False;
     reg \<leftarrow> rtlsdr_i2c_read_reg U FC2580_I2C_ADDR 0x01;
     if reg AND 0x7f = 0x56 then ret RTLSDR_TUNER_FC2580 else do {
     reg \<leftarrow> rtlsdr_i2c_read_reg U FC0012_I2C_ADDR 0x00;
     if reg = 0xa1 then do { _ \<leftarrow> rtlsdr_set_gpio_output U 6; ret RTLSDR_TUNER_FC0012 }
     else ret RTLSDR_TUNER_UNKNOWN } } } } } }"

definition setup_tuner :: "'h usb_ops \<Rightarrow> ('h rtlsdr, unit) prog" where
  "setup_tuner U = do {
     type \<leftarrow> gets d_tuner_type;
     _ \<leftarrow> modify (\<lambda>s. s\<lparr>d_tun_xtal := d_rtl_xtal s, d_tuner := Some type\<rparr>);
     _ \<leftarrow> modify (\<lambda>s. if type = RTLSDR_TUNER_R828D \<and> \<not> is_blog_v4 (d_manufact s) (d_product s)
            then s\<lparr>d_tun_xtal := R828D_XTAL_FREQ\<rparr> else s);
     if type = RTLSDR_TUNER_R828D \<or> type = RTLSDR_TUNER_R820T then do {
       _ \<leftarrow> demod_write U 1 0xb1 0x1a 1;
       _ \<leftarrow> demod_write U 0 0x08 0x4d 1;
       _ \<leftarrow> rtlsdr_set_if_freq U R82XX_IF_FREQ;
       _ \<leftarrow> demod_write U 1 0x15 0x01 1;
       ret () }
     else if type = RTLSDR_TUNER_UNKNOWN then do { _ \<leftarrow> rtlsdr_set_direct_sampling U 1; ret () }
     else ret () }"

text \<open>\<open>rtlsdr_open\<close> from the claimed interface on; \<open>i\<close> is the position of the device.\<close>

definition open_setup :: "'h usb_ops \<Rightarrow> 'h usb_host \<Rightarrow> nat \<Rightarrow> ('h rtlsdr, int) prog" where
  "open_setup U H i = do {
     _ \<leftarrow> modify (\<lambda>s. s\<lparr>d_rtl_xtal := DEF_RTL_XTAL_FREQ\<rparr>);
     r \<leftarrow> d_io (rtlsdr_write_reg U USBB USB_SYSCTL 0x09 1);
     _ \<leftarrow> (if r < 0 then modify (\<lambda>s. s\<lparr>d_hw := reset_dev H (d_hw s)\<rparr>) else ret ());
     _ \<leftarrow> rtlsdr_init_baseband U;
     _ \<leftarrow> modify (\<lambda>s. s\<lparr>d_dev_lost := False\<rparr>);
     _ \<leftarrow> modify (\<lambda>s. case dev_strings H i of None \<Rightarrow> s
            | Some (manufact, product, serial) \<Rightarrow> s\<lparr>d_manufact := manufact, d_product := product\<rparr>);
     _ \<leftarrow> i2c_repeater U True;
     type \<leftarrow> d_io (probe_tuner U);
     _ \<leftarrow> modify (\<lambda>s. s\<lparr>d_tuner_type := type\<rparr>);
     _ \<leftarrow> setup_tuner U;
     buf \<leftarrow> gets (\<lambda>s. map (indet U (d_hw s)) [0..<EEPROM_SIZE]);
     (r, buf) \<leftarrow> d_io (rtlsdr_read_eeprom U buf 0);
     let force_bt = (buf ! 7 AND 0x02 = 0);
     _ \<leftarrow> modify (\<lambda>s. s\<lparr>d_force_bt := force_bt\<rparr>);
     _ \<leftarrow> (if force_bt then rtlsdr_set_bias_tee U True else ret 0);
     f \<leftarrow> tuner_op tuner_init U;
     _ \<leftarrow> (case f of None \<Rightarrow> ret 0 | Some m \<Rightarrow> m);
     _ \<leftarrow> i2c_repeater U False;
     ret 0 }"

text \<open>The structure after \<open>memset\<close> and the copy of the default filter.\<close>

definition e4k_zero :: "'h \<Rightarrow> 'h e4k" where
  "e4k_zero h = \<lparr>e_hw = h, e_i2c_addr = 0, e_band = E4K_BAND_VHF2,
     e_vco = \<lparr>p_fosc = 0, p_intended_flo = 0, p_flo = 0, p_x = 0, p_z = 0, p_r = 0, p_r_idx = 0,
       p_threephase = False\<rparr>\<rparr>"

definition r82xx_zero :: "'h \<Rightarrow> 'h r82xx" where
  "r82xx_zero h = \<lparr>r_hw = h,
     r_cfg = \<lparr>i2c_addr = 0, xtal = 0, rafael_chip = CHIP_R820T, max_i2c_msg_len = 0, use_predetect = False\<rparr>,
     r_regs = replicate NUM_REGS 0, r_buf = replicate (NUM_REGS + 1) 0,
     r_xtal_cap_sel = XTAL_LOW_CAP_30P, r_int_freq = 0, r_fil_cal_code = 0, r_input = 0,
     r_has_lock = False, r_init_done = False, r_delsys = SYS_UNDEFINED, r_type = 0, r_bw = 0,
     r_manufact = [], r_product = [], r_fault = False\<rparr>"

definition dev_zero :: "'h \<Rightarrow> 'h rtlsdr" where
  "dev_zero h = \<lparr>d_hw = h, d_rate = 0, d_rtl_xtal = 0, d_fir = fir_default, d_direct_sampling = 0,
     d_tuner_type = RTLSDR_TUNER_UNKNOWN, d_tuner = None, d_tun_xtal = 0, d_freq = 0, d_bw = 0,
     d_offs_freq = 0, d_corr = 0, d_gain = 0, d_e4k = e4k_zero h, d_r82xx = r82xx_zero h,
     d_dev_lost = True, d_driver_active = False, d_manufact = [], d_product = [],
     d_force_bt = False, d_ds_mode = 0, d_fault = False\<rparr>"

text \<open>
  The result code and, on success, the opened device; \<open>h\<close> gives the state of the USB device at
  a position of the list. The build without \<open>DETACH_KERNEL_DRIVER\<close>, the default, is modelled.
\<close>

definition rtlsdr_open :: "'h usb_ops \<Rightarrow> 'h usb_host \<Rightarrow> (nat \<Rightarrow> 'h) \<Rightarrow> nat \<Rightarrow> int \<times> 'h rtlsdr option" where
  "rtlsdr_open U H h index =
     (if \<not> alloc_ok H then (- ENOMEM, None)
      else if init_rc H < 0 then (-1, None)
      else case open_loop index (dev_list H) 0 0 of
        None \<Rightarrow> (-1, None)
      | Some i \<Rightarrow>
          if open_rc H i < 0 then (open_rc H i, None)
          else if claim_rc H < 0 then (claim_rc H, None)
          else case run_state (open_setup U H i) ((dev_zero (h i))\<lparr>d_driver_active := kernel_active H\<rparr>) of
            (r, s) \<Rightarrow> (r, Some s))"

text \<open>The part of \<open>rtlsdr_close\<close> that talks to the device, after any streaming has ended.\<close>

definition rtlsdr_close :: "'h usb_ops \<Rightarrow> ('h rtlsdr, int) prog" where
  "rtlsdr_close U = do {
     lost \<leftarrow> gets d_dev_lost;
     _ \<leftarrow> (if lost then ret 0 else rtlsdr_deinit_baseband U);
     ret 0 }"

end
