(* ===== verification/Librtlsdr_Num.thy ===== *)
theory Librtlsdr_Num
  imports Librtlsdr
begin

unbundle bit_operations_syntax

text \<open>
  The arithmetic of the library: the resampler ratio and the rate it gives, the registers of the
  intermediate frequency, the packing of the FIR coefficients and the corrected crystal.
\<close>

section \<open>Quotients\<close>

lemma fl_quotient:
  assumes "n < 2 ^ 53" and "0 < b" and "n * 2 ^ 22 < 2 ^ k * b" and "b < 2 ^ (54 - k)" and "k \<le> 53"
  shows "dbl_trunc (fl (fl (of_nat n * 2 ^ 22) / of_nat b)) = int (n * 2 ^ 22 div b)"
proof -
  have "rat_of_nat n * 2 ^ 22 = rat_of_nat (n * 2 ^ 22)" by simp
  then show ?thesis
    using trunc_div [OF assms(2-5)] fl_shift [OF assms(1), of 22] by (simp only:)
qed

section \<open>Sampling rate\<close>

lemma word_div_mask:
  fixes q :: nat
  assumes "q < 2 ^ 32" and "q div 2 ^ 27 = 0 \<or> q div 2 ^ 27 = 3"
  shows "real_rsamp_ratio (word_of_nat q AND 0x0ffffffc) = word_of_nat q AND NOT 3"
proof (rule bit_word_eqI)
  fix n assume "n < LENGTH(32)"
  have m: "(0x0ffffffc :: u32) = mask 28 AND NOT (mask 2)" "(0x08000000 :: u32) = push_bit 27 1" "(3 :: u32) = mask 2"
    by (simp_all add: mask_eq_exp_minus_1)
  have hi: "bit q j \<longleftrightarrow> False" if "29 \<le> j" for j
  proof -
    have "q < 2 ^ 29" using assms(2) by (auto simp: div_eq_0_iff) 
    also have "(2::nat) ^ 29 \<le> 2 ^ j" using that by (rule power_increasing) simp
    finally show ?thesis by (simp add: bit_iff_odd)
  qed
  have eq: "bit q 28 = bit q 27"
  proof -
    have "bit q 27 = odd (q div 2 ^ 27)" "bit q 28 = odd (q div 2 ^ 27 div 2)"
      by (simp_all add: bit_iff_odd div_mult2_eq [symmetric])
    then show ?thesis using assms(2) by auto
  qed
  show "bit (real_rsamp_ratio (word_of_nat q AND 0x0ffffffc)) n = bit (word_of_nat q AND NOT 3 :: u32) n"
    unfolding real_rsamp_ratio_def m bit_or_iff bit_and_iff bit_not_iff bit_push_bit_iff bit_mask_iff
      bit_1_iff bit_of_nat_iff possible_bit_word
    using \<open>n < LENGTH(32)\<close> eq hi [of n] by (cases "n = 28") auto
qed

lemma unat_ratio:
  fixes q :: nat
  assumes "q < 2 ^ 32"
  shows "unat (word_of_nat q AND NOT 3 :: u32) = 4 * (q div 4)"
proof -
  have e: "4 * (q div 4) = push_bit 2 (drop_bit 2 q)" by (simp add: push_bit_eq_mult drop_bit_eq_div)
  have "word_of_nat q AND NOT 3 = (word_of_nat (push_bit 2 (drop_bit 2 q)) :: u32)"
  proof (rule bit_word_eqI)
    have m: "(3 :: u32) = mask 2" by (simp add: mask_eq_exp_minus_1)
    fix n assume "n < LENGTH(32)"
    then show "bit (word_of_nat q AND NOT 3 :: u32) n = bit (word_of_nat (push_bit 2 (drop_bit 2 q)) :: u32) n"
      unfolding m bit_and_iff bit_not_iff bit_of_nat_iff bit_push_bit_iff bit_drop_bit_eq bit_mask_iff possible_bit_word
      by (cases "n < 2") (auto dest!: le_Suc_ex simp: not_less)
  qed
  moreover have "4 * (q div 4) < 2 ^ 32" using assms div_times_less_eq_dividend [of q 4] by linarith
  ultimately show ?thesis unfolding e [symmetric] by (simp only: unat_of_nat) simp
qed

text \<open>The ratio for a supported rate, with the crystal at its nominal frequency.\<close>

lemma nominal_ratio:
  assumes "rate_supported rate"
  defines "q \<equiv> 28800000 * 2 ^ 22 div rate"
  shows "rsamp_ratio 28800000 rate = word_of_nat q AND 0x0ffffffc"
    and "unat (real_rsamp_ratio (rsamp_ratio 28800000 rate)) = 4 * (q div 4)"
    and "4 * rate + 4 \<le> q" and "28800000 * 2 ^ 22 < rate * (q + 1)" and "rate * q \<le> 28800000 * 2 ^ 22"
proof -
  have r: "225000 < rate" "rate \<le> 3200000" "rate \<le> 300000 \<or> 900000 < rate"
    using assms(1) by (auto simp: rate_supported_def)
  have q: "q < 2 ^ 29" unfolding q_def using r(1) by (intro less_mult_imp_div_less) simp
  have "q div 2 ^ 27 = 0 \<or> q div 2 ^ 27 = 3"
    using r(3)
  proof
    assume le: "rate \<le> 300000"
    have "3 * 2 ^ 27 \<le> q" unfolding q_def using le r(1) by (simp add: less_eq_div_iff_mult_less_eq)
    then have "3 \<le> q div 2 ^ 27" by (simp add: less_eq_div_iff_mult_less_eq)
    moreover have "q div 2 ^ 27 < 4" using q by (intro less_mult_imp_div_less) simp
    ultimately show ?thesis by simp
  next
    assume "900000 < rate"
    then have "q < 2 ^ 27" unfolding q_def by (intro less_mult_imp_div_less) simp
    then show ?thesis by simp
  qed
  then have w: "real_rsamp_ratio (word_of_nat q AND 0x0ffffffc) = word_of_nat q AND NOT 3"
    using q by (intro word_div_mask) simp_all
  have "dbl_trunc (fl (fl (of_nat 28800000 * 2 ^ 22) / of_nat rate)) = int q"
    unfolding q_def using r by (intro fl_quotient [where k = 29]) simp_all
  then show ratio: "rsamp_ratio 28800000 rate = word_of_nat q AND 0x0ffffffc"
    by (simp add: rsamp_ratio_def)
  show "unat (real_rsamp_ratio (rsamp_ratio 28800000 rate)) = 4 * (q div 4)"
    unfolding ratio w using q by (intro unat_ratio) simp
  have "12800004 \<le> q" unfolding q_def using r by (simp add: less_eq_div_iff_mult_less_eq)
  then show "4 * rate + 4 \<le> q" using r(2) by simp
  show "28800000 * 2 ^ 22 < rate * (q + 1)" unfolding q_def using r(1) dividend_less_times_div [of rate "28800000 * 2 ^ 22"] by simp
  show "rate * q \<le> 28800000 * 2 ^ 22" unfolding q_def by (rule times_div_less_eq_dividend)
qed

lemma nominal_rate:
  assumes "rate_supported rate"
  shows "real_rate 28800000 (rsamp_ratio 28800000 rate) = Some rate"
proof -
  define q where "q = 28800000 * 2 ^ 22 div rate"
  define r where "r = 4 * (q div 4)"
  note n = nominal_ratio [OF assms, folded q_def]
  have rate: "225000 < rate" "rate \<le> 3200000" using assms by (auto simp: rate_supported_def)
  have r: "r \<le> q" "q \<le> r + 3" "r < 2 ^ 29"
  proof -
    show "r \<le> q" "q \<le> r + 3"
      unfolding r_def using div_mult_mod_eq [of q 4] mod_less_divisor [of 4 q] by linarith+
    moreover have "q < 2 ^ 29" unfolding q_def using rate by (intro less_mult_imp_div_less) simp
    ultimately show "r < 2 ^ 29" by simp
  qed
  have r0: "0 < r" using n(3) r(2) by linarith
  have lo: "rate * r \<le> 28800000 * 2 ^ 22" using n(5) r(1) by (meson le_trans mult_le_mono2)
  have hi: "28800000 * 2 ^ 22 < Suc rate * r"
  proof -
    have "rate * q \<le> rate * (r + 3)" using r(2) by (rule mult_le_mono2)
    then have "28800000 * 2 ^ 22 < rate * r + 4 * rate" using n(4) by (simp add: distrib_left)
    also have "\<dots> \<le> Suc rate * r" using n(3) r(2) by simp
    finally show ?thesis .
  qed
  have "28800000 * 2 ^ 22 div r = rate" using lo hi r0 by (intro div_nat_eqI) (simp_all add: mult.commute)
  moreover have "37748736 \<le> q" unfolding q_def using rate by (simp add: less_eq_div_iff_mult_less_eq)
  with r have "28800000 < r" by linarith
  then have "dbl_trunc (fl (fl (of_nat 28800000 * 2 ^ 22) / of_nat r)) = int (28800000 * 2 ^ 22 div r)"
    using r r0 hi rate by (intro fl_quotient [where k = 22]) simp_all
  ultimately show ?thesis
    using rate r0 unfolding real_rate_def n(2) r_def [symmetric] by (simp add: Let_def)
qed

section \<open>Intermediate frequency\<close>

lemma dbl_trunc_minus: "dbl_trunc (x * (- 1)) = - dbl_trunc x"
  by (auto simp: dbl_trunc_def)

lemma if_freq_val_exact:
  assumes "freq < 2 ^ 32" and "2 ^ 24 \<le> rtl_xtal" and "rtl_xtal < 2 ^ 26" and "freq < 64 * rtl_xtal"
  shows "if_freq_val freq rtl_xtal = - int (freq * 2 ^ 22 div rtl_xtal)"
proof -
  have "dbl_trunc (fl (fl (of_nat freq * 2 ^ 22) / of_nat rtl_xtal)) = int (freq * 2 ^ 22 div rtl_xtal)"
    using assms by (intro fl_quotient [where k = 28]) simp_all
  then show ?thesis unfolding if_freq_val_def by (simp only: dbl_trunc_minus)
qed

text \<open>The three registers hold the value modulo \<open>2 ^ 22\<close>.\<close>

definition if_freq_regs :: "u16 list \<Rightarrow> int" where
  "if_freq_regs bs = uint (bs ! 0) * 65536 + uint (bs ! 1) * 256 + uint (bs ! 2)"

lemma uint_u16_small: "0 \<le> x \<Longrightarrow> x < 65536 \<Longrightarrow> uint (word_of_int x :: u16) = x"
  by (simp add: uint_word_of_int_eq take_bit_int_eq_self)

lemma and_mask_mod: "x AND 0x3f = x mod 64" "x AND 0xff = x mod 256" "x AND 0x0f = x mod (16 :: int)" for x :: int
  using take_bit_eq_mask [of 6 x] take_bit_eq_mask [of 8 x] take_bit_eq_mask [of 4 x]
  by (simp_all add: mask_eq_exp_minus_1 take_bit_eq_mod)

lemma if_freq_regs_mod: "if_freq_regs (if_freq_bytes v) = v mod 2 ^ 22"
proof -
  have "v mod 4194304 = (v div 65536 mod 64) * 65536 + v mod 65536"
    using mod_mult2_eq' [of v 65536 64] by (simp add: mult.commute)
  moreover have "v mod 65536 = (v div 256 mod 256) * 256 + v mod 256"
    using mod_mult2_eq' [of v 256 256] by (simp add: mult.commute)
  ultimately show ?thesis
    unfolding if_freq_regs_def if_freq_bytes_def and_mask_mod drop_bit_eq_div
    by (simp add: uint_u16_small pos_mod_bound [THEN less_trans])
qed

section \<open>Filter coefficients\<close>

text \<open>What the demodulator makes of three bytes of the filter registers.\<close>

definition fir_unpair :: "u8 \<Rightarrow> u8 \<Rightarrow> u8 \<Rightarrow> int list" where
  "fir_unpair a b c =
     [signed_take_bit 11 (uint a * 16 + uint b div 16), signed_take_bit 11 (uint b mod 16 * 256 + uint c)]"

fun fir_unpairs :: "u8 list \<Rightarrow> int list" where
  "fir_unpairs (a # b # c # bs) = fir_unpair a b c @ fir_unpairs bs"
| "fir_unpairs _ = []"

definition fir_decode :: "u8 list \<Rightarrow> int list" where
  "fir_decode bs = map sint (take 8 bs) @ fir_unpairs (drop 8 bs)"

lemma uint_u8: "uint (word_of_int x :: u8) = x mod 256"
  by (simp add: uint_word_of_int)

lemma signed12: "- 2048 \<le> x \<Longrightarrow> x \<le> 2047 \<Longrightarrow> signed_take_bit 11 (x mod 4096) = (x :: int)"
proof -
  assume "- 2048 \<le> x" "x \<le> 2047"
  have "signed_take_bit 11 (x mod 4096) = signed_take_bit 11 x"
    by (simp add: signed_take_bit_eq_iff_take_bit_eq take_bit_eq_mod)
  then show ?thesis using \<open>- 2048 \<le> x\<close> \<open>x \<le> 2047\<close> by (simp add: signed_take_bit_int_eq_self)
qed

lemma fir_pair_unpair:
  assumes "fir_pair v0 v1 = Some [a, b, c]"
  shows "fir_unpair a b c = [v0, v1]"
proof -
  have r: "- 2048 \<le> v0" "v0 \<le> 2047" "- 2048 \<le> v1" "v1 \<le> 2047"
    using assms by (auto simp: fir_pair_def split: if_splits)
  have o: "push_bit 4 v0 OR (drop_bit 8 v1 AND 0x0f) = v0 * 16 + v1 div 256 mod 16"
  proof -
    have "push_bit 4 v0 AND (drop_bit 8 v1 AND 0x0f) = 0"
    proof (rule bit_eqI)
      have m: "(0x0f :: int) = mask 4" by (simp add: mask_eq_exp_minus_1)
      show "bit (push_bit 4 v0 AND (drop_bit 8 v1 AND 0x0f)) n = bit (0 :: int) n" for n
        unfolding m bit_and_iff bit_push_bit_iff bit_mask_iff by auto
    qed
    then have "push_bit 4 v0 OR (drop_bit 8 v1 AND 0x0f) = push_bit 4 v0 + (drop_bit 8 v1 AND 0x0f)"
      by (simp add: disjunctive_add_eq_or)
    then show ?thesis unfolding and_mask_mod by (simp add: push_bit_eq_mult drop_bit_eq_div)
  qed
  have abc: "uint a = v0 div 16 mod 256" "uint b = (v0 * 16 + v1 div 256 mod 16) mod 256" "uint c = v1 mod 256"
  proof -
    have "a = word_of_int (drop_bit 4 v0)" "b = word_of_int (push_bit 4 v0 OR (drop_bit 8 v1 AND 0x0f))"
      "c = word_of_int v1"
      using assms r by (simp_all add: fir_pair_def)
    then show "uint a = v0 div 16 mod 256" "uint b = (v0 * 16 + v1 div 256 mod 16) mod 256" "uint c = v1 mod 256"
      by (simp_all only: uint_u8 o) (simp_all add: drop_bit_eq_div)
  qed
  define y where "y = v1 div 256 mod 16"
  have y: "0 \<le> y" "y < 16" by (simp_all add: y_def)
  have "(v0 * 16 + y) mod 256 = v0 mod 16 * 16 + y"
  proof -
    have "(v0 * 16 + y) mod 256 = (v0 * 16 mod 256 + y) mod 256" by (simp add: mod_add_left_eq)
    also have "v0 * 16 mod 256 = v0 mod 16 * 16" using mult_mod_right [of 16 v0 16] by (simp add: mult.commute)
    also have "(v0 mod 16 * 16 + y) mod 256 = v0 mod 16 * 16 + y"
      using y pos_mod_bound [of 16 v0] pos_mod_sign [of 16 v0] by (intro mod_pos_pos_trivial) linarith+
    finally show ?thesis .
  qed
  then have b: "uint b = v0 mod 16 * 16 + y" unfolding abc y_def .
  have "uint b div 16 = v0 mod 16" "uint b mod 16 = y" using y unfolding b by simp_all
  moreover have "v mod 4096 = v div 16 mod 256 * 16 + v mod 16" "v mod 4096 = v div 256 mod 16 * 256 + v mod 256" for v :: int
    using mod_mult2_eq' [of v 16 256] mod_mult2_eq' [of v 256 16] by (simp_all add: mult.commute)
  ultimately have "uint a * 16 + uint b div 16 = v0 mod 4096" "uint b mod 16 * 256 + uint c = v1 mod 4096"
    unfolding abc(1,3) y_def by simp_all
  then show ?thesis using r by (simp add: fir_unpair_def signed12)
qed

lemma fir_pairs_unpairs:
  assumes "even (length vs)" and "fir_pairs vs = Some bs"
  shows "fir_unpairs bs = vs"
  using assms
proof (induction vs arbitrary: bs rule: fir_pairs.induct)
  case (1 v0 v1 vs)
  obtain ps rest where p: "fir_pair v0 v1 = Some ps" "fir_pairs vs = Some rest" "bs = ps @ rest"
    using "1.prems"(2) by (auto split: option.splits)
  obtain a b c where abc: "ps = [a, b, c]" using p(1) by (auto simp: fir_pair_def split: if_splits)
  have "fir_unpair a b c = [v0, v1]" using p(1) abc by (simp add: fir_pair_unpair)
  moreover have "fir_unpairs rest = vs" using 1 p by simp
  ultimately show ?case by (simp add: p(3) abc)
qed simp_all

lemma fir_bytes_decode:
  assumes "length fir = 16" and "fir_bytes fir = Some bs"
  shows "fir_decode bs = fir" and "length bs = 20"
proof -
  obtain rest where r: "fir_pairs (drop 8 fir) = Some rest" "bs = map word_of_int (take 8 fir) @ rest"
    "\<forall>v \<in> set (take 8 fir). - 128 \<le> v \<and> v \<le> 127"
    using assms(2) by (auto simp: fir_bytes_def not_less split: if_splits)
  have "map (sint \<circ> (word_of_int :: int \<Rightarrow> u8)) (take 8 fir) = take 8 fir"
    using r(3) by (intro map_idI) (auto simp: signed_of_int intro!: signed_take_bit_int_eq_self)
  moreover have "fir_unpairs rest = drop 8 fir" using r(1) assms(1) by (intro fir_pairs_unpairs) simp_all
  ultimately show "fir_decode bs = fir" using assms(1) r(2) by (simp add: fir_decode_def)
  have "length rest = 3 * (length vs div 2)" if "fir_pairs vs = Some rest" for vs rest
    using that by (induction vs arbitrary: rest rule: fir_pairs.induct)
      (auto simp: fir_pair_def split: option.splits if_splits)
  from this [OF r(1)] show "length bs = 20" using assms(1) r(2) by simp
qed

lemma fir_bytes_None:
  assumes "length fir = 16"
  shows "fir_bytes fir = None \<longleftrightarrow>
    (\<exists>v \<in> set (take 8 fir). v < - 128 \<or> v > 127) \<or> (\<exists>v \<in> set (drop 8 fir). v < - 2048 \<or> v > 2047)"
proof -
  have "fir_pairs vs = None \<longleftrightarrow> (\<exists>v \<in> set vs. v < - 2048 \<or> v > 2047)" if "even (length vs)" for vs
    using that by (induction vs rule: fir_pairs.induct) (auto simp: fir_pair_def split: option.splits if_splits)
  from this [of "drop 8 fir"] show ?thesis using assms by (auto simp: fir_bytes_def)
qed

section \<open>Clock correction\<close>

lemma corr_xtal_range:
  assumes "1000000 \<le> val" "val < 2 ^ 31" and "\<bar>ppm\<bar> \<le> 1000"
  shows "corr_in_range val ppm" and "\<bar>1000000 * int (corr_xtal val ppm) - int val * (1000000 + ppm)\<bar> \<le> 1000100"
proof -
  let ?c = "apply_ppm_corr val ppm"
  have near: "\<bar>1000000 * ?c - int val * (1000000 + ppm)\<bar> \<le> 1000100"
    using assms by (intro apply_ppm_corr_near) simp_all
  have "int val * (1000000 + ppm) \<le> (2 ^ 31 - 1) * 1001000"
    using assms by (intro mult_mono) simp_all
  moreover have "1000000 * 999000 \<le> int val * (1000000 + ppm)" using assms by (intro mult_mono) simp_all
  ultimately have c: "0 \<le> ?c" "?c < 2 ^ 32" using near by (simp_all add: abs_le_iff)
  then show "corr_in_range val ppm" by (simp add: corr_in_range_def)
  show "\<bar>1000000 * int (corr_xtal val ppm) - int val * (1000000 + ppm)\<bar> \<le> 1000100"
    using near c by (simp add: corr_xtal_def)
qed

end
