(* ===== verification/Librtlsdr_State.thy ===== *)
theory Librtlsdr_State
  imports Librtlsdr
begin

unbundle bit_operations_syntax

text \<open>
  Which fields of the device structure an operation can change, and that the mutual recursion of
  tuning and direct sampling ends.
\<close>

section \<open>What the tuner drivers cannot change\<close>

text \<open>The part of the device structure that only the library functions assign.\<close>

definition d_env :: "'h rtlsdr \<Rightarrow> _" where
  "d_env s = (d_rate s, d_rtl_xtal s, d_fir s, d_direct_sampling s, d_tuner_type s, d_tuner s, d_tun_xtal s,
     d_freq s, d_bw s, d_offs_freq s, d_corr s, d_gain s, d_manufact s, d_product s, d_force_bt s, d_ds_mode s)"

definition at_env :: "_ \<Rightarrow> 'h rtlsdr \<Rightarrow> bool" where
  "at_env e s \<longleftrightarrow> d_env s = e"

named_theorems env_rules \<open>computations that keep the environment\<close>

lemma envD: "(\<And>e. always (at_env e) m) \<Longrightarrow> run_state m s = (x, s') \<Longrightarrow> d_env s' = d_env s"
  by (metis alwaysD at_env_def)

lemma env_I: "(\<And>s x s'. run_state m s = (x, s') \<Longrightarrow> d_env s' = d_env s) \<Longrightarrow> always (at_env e) m"
  unfolding always_def at_env_def by (metis prod.collapse)

lemma env_io [env_rules]: "always (at_env e) (d_io m)"
  by (rule env_I) (auto simp: d_io_def d_env_def split: prod.splits)

lemma env_e4k_io [env_rules]: "always (at_env e) (d_e4k_io m)"
  by (rule env_I) (auto simp: d_e4k_io_def d_env_def split: prod.splits)

lemma env_r82xx_io [env_rules]: "always (at_env e) (d_r82xx_io m)"
  by (rule env_I) (auto simp: d_r82xx_io_def d_env_def split: prod.splits)

lemma env_ensure [env_rules]: "always (at_env e) (d_ensure b)"
  unfolding d_ensure_def by (rule always_modify) (simp add: at_env_def d_env_def)

lemma always_seq_or_rules [always_rules]:
  "always I (seq_or [] r)"
  "always I m \<Longrightarrow> (\<And>r. always I (seq_or ms r)) \<Longrightarrow> always I (seq_or (m # ms) r)"
  by (auto intro: always_rules)

declare seq_or.simps [simp del]

lemma env_clock [env_rules]: "always (at_env e) get_rtl_xtal" "always (at_env e) rtlsdr_get_tuner_clock"
  unfolding get_rtl_xtal_def rtlsdr_get_tuner_clock_def by (intro always_rules env_rules)+

lemma env_if_freq [env_rules]: "always (at_env e) (rtlsdr_set_if_freq U freq)"
  unfolding rtlsdr_set_if_freq_def by (intro always_rules env_rules)

lemma env_sample_corr [env_rules]: "always (at_env e) (rtlsdr_set_sample_freq_correction U ppm)"
  unfolding rtlsdr_set_sample_freq_correction_def by (intro always_rules env_rules)

lemma env_tuner_init: "tuner_init t U = Some m \<Longrightarrow> always (at_env e) m"
  by (cases t) (auto simp: e4000_init_def r820t_init_def at_env_def d_env_def intro!: always_rules env_rules always_modify)

lemma env_tuner_exit: "tuner_exit t U = Some m \<Longrightarrow> always (at_env e) m"
  by (cases t) (auto simp: e4000_exit_def r820t_exit_def intro!: always_rules env_rules)

lemma env_tuner_set_freq: "tuner_set_freq t U = Some f \<Longrightarrow> always (at_env e) (f freq)"
  by (cases t) (auto simp: e4000_set_freq_def fc0012_set_freq_def fc0013_set_freq_def r820t_set_freq_def intro!: always_rules env_rules)

section \<open>Tuning and direct sampling end\<close>

definition auto_ds :: "'h rtlsdr \<Rightarrow> nat \<Rightarrow> int" where
  "auto_ds s freq = (if d_ds_mode s \<noteq> 0 then d_direct_sampling s
     else if freq < 24000000 \<and> d_tuner_type s = RTLSDR_TUNER_R820T then 2 else 0)"

lemma env_tuner_op [env_rules]: "always (at_env e) (tuner_op c U)"
  unfolding tuner_op_def by (intro always_rules env_rules)

lemma always_tuner_op_bind:
  assumes "\<And>f. (\<And>m. f = Some m \<Longrightarrow> \<exists>t. c t U = Some m) \<Longrightarrow> always I (k f)"
  shows "always I (State_Monad.bind (tuner_op c U) k)"
  unfolding tuner_op_def
  by (rule always_gets_bind) (auto simp: bind_eq_Some_conv intro!: assms)

lemma env_apply_freq: "always (at_env e) (apply_freq U freq)"
  unfolding apply_freq_def
  by (intro always_gets_bind always_tuner_op_bind always_rules env_rules) (auto dest: env_tuner_set_freq)

lemma env_with_repeater: "(\<And>m. f = Some m \<Longrightarrow> always (at_env e) m) \<Longrightarrow> always (at_env e) (with_repeater U f)"
  unfolding with_repeater_def by (cases f) (auto intro!: always_rules env_rules)

lemma env_enable_ds: "always (at_env e) (enable_ds U on)"
  unfolding enable_ds_def
  by (intro always_tuner_op_bind always_rules env_rules env_with_repeater) (auto dest: env_tuner_exit)

lemma env_disable_ds: "always (at_env e) (disable_ds U)"
  unfolding disable_ds_def
  by (intro always_tuner_op_bind always_rules env_rules env_with_repeater) (auto dest: env_tuner_init)

text \<open>What a call does before it may call its partner.\<close>

lemma center_freq_run:
  obtains r s' where "\<forall>set_ds. run_state (center_freq_with U set_ds freq) s = (Some r, s')"
  | s' where "\<forall>set_ds. run_state (center_freq_with U set_ds freq) s = run_state (set_ds (auto_ds s freq)) s'"
    and "d_ds_mode s = 0" and "d_ds_mode s' = 0" and "d_direct_sampling s' = auto_ds s freq"
    and "d_tuner_type s' = d_tuner_type s" and "d_freq s' = freq \<or> d_freq s' = 0"
    and "auto_ds s freq \<noteq> d_direct_sampling s"
proof -
  define s0 where "s0 = (if d_ds_mode s = 0 then s\<lparr>d_direct_sampling := auto_ds s freq\<rparr> else s)"
  obtain r s1 where 1: "run_state (apply_freq U freq) s0 = (r, s1)" by fastforce
  have env: "d_env s1 = d_env s0" using envD [OF env_apply_freq 1] .
  let ?s2 = "s1\<lparr>d_freq := (if r = 0 then freq else 0)\<rparr>"
  have ds: "d_direct_sampling s1 = auto_ds s freq" "d_ds_mode s1 = d_ds_mode s" "d_tuner_type s1 = d_tuner_type s"
    using env by (auto simp: d_env_def s0_def auto_ds_def)
  have run: "run_state (center_freq_with U set_ds freq) s =
    (if d_tuner s = None then (Some (-1), s) else if d_direct_sampling s < 0 then (Some 1, s)
     else if d_direct_sampling s \<noteq> auto_ds s freq then run_state (set_ds (auto_ds s freq)) ?s2 else (Some r, ?s2))" for set_ds
  proof -
    have "(if d_ds_mode s = 0
           then s\<lparr>d_direct_sampling := (if freq < 24000000 \<and> d_tuner_type s = RTLSDR_TUNER_R820T then 2 else 0)\<rparr> else s) = s0"
      by (auto simp: s0_def auto_ds_def)
    then show ?thesis using 1 ds(1) by (simp add: center_freq_with_def)
  qed
  show ?thesis
  proof (cases "d_tuner s = None \<or> d_direct_sampling s < 0 \<or> d_direct_sampling s = auto_ds s freq")
    case True
    let ?x = "if d_tuner s = None then (-1, s) else if d_direct_sampling s < 0 then (1, s) else (r, ?s2)"
    have "\<forall>set_ds. run_state (center_freq_with U set_ds freq) s = (Some (fst ?x), snd ?x)"
      using True by (auto simp: run)
    then show ?thesis by (rule that(1))
  next
    case False
    then have "d_ds_mode s = 0" by (auto simp: auto_ds_def split: if_splits)
    then show ?thesis using False run ds by (intro that(2) [of ?s2]) auto
  qed
qed

lemma direct_sampling_run:
  obtains r s' where "\<forall>set_freq. run_state (direct_sampling_with U set_freq on) s =
      (case run_state (set_freq (d_freq s)) s' of (x, s'') \<Rightarrow> (map_option ((OR) r) x, s''))"
    and "d_direct_sampling s' = on" and "d_ds_mode s' = d_ds_mode s" and "d_tuner_type s' = d_tuner_type s"
    and "d_freq s' = d_freq s"
proof -
  obtain r s1 where 1: "run_state (if on \<noteq> 0 then enable_ds U on else disable_ds U) s = (r, s1)" by fastforce
  have "always (at_env e) (if on \<noteq> 0 then enable_ds U on else disable_ds U)" for e
    by (simp add: env_enable_ds env_disable_ds)
  from envD [OF this 1]
  have "d_ds_mode s1 = d_ds_mode s" "d_tuner_type s1 = d_tuner_type s" "d_freq s1 = d_freq s" by (auto simp: d_env_def)
  then show ?thesis
    using 1 by (intro that [of r "s1\<lparr>d_direct_sampling := on\<rparr>"]) (simp_all add: direct_sampling_with_def)
qed

definition finishes :: "('s, 'a option) prog \<Rightarrow> 's \<Rightarrow> bool" where
  "finishes m s \<longleftrightarrow> fst (run_state m s) \<noteq> None"

lemma direct_sampling_finishes:
  assumes "\<And>s'. d_direct_sampling s' = on \<Longrightarrow> d_ds_mode s' = d_ds_mode s \<Longrightarrow> d_tuner_type s' = d_tuner_type s \<Longrightarrow>
    finishes (set_freq (d_freq s)) s'"
  shows "finishes (direct_sampling_with U set_freq on) s"
proof -
  obtain r s' where "\<forall>set_freq. run_state (direct_sampling_with U set_freq on) s =
      (case run_state (set_freq (d_freq s)) s' of (x, s'') \<Rightarrow> (map_option ((OR) r) x, s''))"
    "d_direct_sampling s' = on" "d_ds_mode s' = d_ds_mode s" "d_tuner_type s' = d_tuner_type s"
    by (rule direct_sampling_run)
  then show ?thesis using assms [of s'] by (auto simp: finishes_def split: prod.splits)
qed

lemma center_freq_finishes:
  assumes "\<And>s'. d_ds_mode s = 0 \<Longrightarrow> d_ds_mode s' = 0 \<Longrightarrow> d_direct_sampling s' = auto_ds s freq \<Longrightarrow>
    d_tuner_type s' = d_tuner_type s \<Longrightarrow> d_freq s' = freq \<or> d_freq s' = 0 \<Longrightarrow> auto_ds s freq \<noteq> d_direct_sampling s \<Longrightarrow>
    finishes (set_ds (auto_ds s freq)) s'"
  shows "finishes (center_freq_with U set_ds freq) s"
  by (rule center_freq_run [of U freq s]) (use assms in \<open>auto simp: finishes_def\<close>)

lemma fuel1: "auto_ds s freq = d_direct_sampling s \<Longrightarrow> finishes (center_freq_fuel (Suc n) U freq) s"
  unfolding center_freq_fuel.simps by (rule center_freq_finishes) simp

lemma fuel2:
  assumes "auto_ds s 0 = auto_ds s freq"
  shows "finishes (center_freq_fuel (Suc (Suc n)) U freq) s"
  unfolding center_freq_fuel.simps(2) [of "Suc n"]
proof (rule center_freq_finishes, rule direct_sampling_finishes, rule fuel1)
  fix s1 s2 :: "'a rtlsdr"
  assume "d_ds_mode s = 0" "d_ds_mode s1 = 0" "d_tuner_type s1 = d_tuner_type s" "d_freq s1 = freq \<or> d_freq s1 = 0"
    "d_direct_sampling s2 = auto_ds s freq" "d_ds_mode s2 = d_ds_mode s1" "d_tuner_type s2 = d_tuner_type s1"
  then show "auto_ds s2 (d_freq s1) = d_direct_sampling s2"
    using assms by (auto simp: auto_ds_def split: if_splits)
qed

theorem center_freq_finishes_3: "finishes (center_freq_fuel (Suc (Suc (Suc n))) U freq) s"
  unfolding center_freq_fuel.simps(2) [of "Suc (Suc n)"]
proof (rule center_freq_finishes, rule direct_sampling_finishes)
  fix s1 s2 :: "'a rtlsdr"
  assume a: "d_ds_mode s = 0" "d_ds_mode s1 = 0" "d_tuner_type s1 = d_tuner_type s" "d_freq s1 = freq \<or> d_freq s1 = 0"
    "d_direct_sampling s2 = auto_ds s freq" "d_ds_mode s2 = d_ds_mode s1" "d_tuner_type s2 = d_tuner_type s1"
  show "finishes (center_freq_fuel (Suc (Suc n)) U (d_freq s1)) s2"
  proof (cases "d_freq s1 = 0")
    case True
    then show ?thesis by (intro fuel2) simp
  next
    case False
    then show ?thesis using a by (intro fuel1) (auto simp: auto_ds_def)
  qed
qed

text \<open>More fuel does not change a result.\<close>

lemma center_freq_fuel_mono:
  "finishes (center_freq_fuel n U freq) s \<Longrightarrow>
    run_state (center_freq_fuel (Suc n) U freq) s = run_state (center_freq_fuel n U freq) s"
proof (induction n arbitrary: freq s)
  case 0
  then show ?case by (simp add: finishes_def)
next
  case (Suc n)
  have IH: "run_state (direct_sampling_with U (center_freq_fuel (Suc n) U) on) s' =
      run_state (direct_sampling_with U (center_freq_fuel n U) on) s'"
    if "finishes (direct_sampling_with U (center_freq_fuel n U) on) s'" for on s'
    by (rule direct_sampling_run [of U on s'])
      (use that Suc.IH in \<open>auto simp: finishes_def split: prod.splits\<close>)
  have *: "finishes (center_freq_with U (direct_sampling_with U (center_freq_fuel n U)) freq) s"
    using Suc.prems unfolding center_freq_fuel.simps(2) .
  show ?case
    unfolding center_freq_fuel.simps(2) [of "Suc n" U freq] center_freq_fuel.simps(2) [of n U freq]
    by (rule center_freq_run [of U freq s])
      (use * IH in \<open>simp_all add: finishes_def del: center_freq_fuel.simps\<close>)
qed

lemma center_freq_fuel_enough:
  "run_state (center_freq_fuel (3 + n) U freq) s = run_state (center_freq_fuel 3 U freq) s"
proof (induction n)
  case (Suc n)
  have "finishes (center_freq_fuel (3 + n) U freq) s"
    using center_freq_finishes_3 [of n U freq s] by (simp add: eval_nat_numeral)
  from center_freq_fuel_mono [OF this] show ?case using Suc by simp
qed simp

section \<open>What tuning and the choice of a bandwidth cannot change\<close>

text \<open>Without the frequency, the offset and the sampling mode, which tuning changes.\<close>

definition d_conf :: "'h rtlsdr \<Rightarrow> _" where
  "d_conf s = (d_rate s, d_rtl_xtal s, d_tuner_type s, d_tuner s, d_tun_xtal s, d_bw s, d_corr s, d_gain s, d_ds_mode s)"

definition at_conf :: "_ \<Rightarrow> 'h rtlsdr \<Rightarrow> bool" where
  "at_conf c s \<longleftrightarrow> d_conf s = c"

named_theorems conf_rules \<open>computations that keep the configuration\<close>

lemma d_conf_env: "d_env s' = d_env s \<Longrightarrow> d_conf s' = d_conf s"
  by (simp add: d_env_def d_conf_def)

lemma conf_env: "(\<And>e. always (at_env e) m) \<Longrightarrow> always (at_conf c) m"
  unfolding always_def [of "at_conf c"] at_conf_def using d_conf_env envD by (metis prod.collapse)

lemma conf_io [conf_rules]:
  "always (at_conf c) (d_io m1)" "always (at_conf c) (d_e4k_io m2)" "always (at_conf c) (d_r82xx_io m3)"
  "always (at_conf c) (d_ensure b)" "always (at_conf c) (rtlsdr_set_if_freq U freq)"
  "always (at_conf c) (rtlsdr_set_sample_freq_correction U ppm)" "always (at_conf c) (tuner_op col U)"
  by (rule conf_env, rule env_rules)+

lemma conf_with_repeater: "(\<And>m. f = Some m \<Longrightarrow> always (at_conf c) m) \<Longrightarrow> always (at_conf c) (with_repeater U f)"
  unfolding with_repeater_def by (cases f) (auto intro!: always_rules conf_rules)

lemma conf_center_freq_with:
  assumes "\<And>on. always (at_conf c) (set_ds on)"
  shows "always (at_conf c) (center_freq_with U set_ds freq)"
  unfolding center_freq_with_def
  by (intro always_rules assms always_modify conf_env env_apply_freq) (auto simp: at_conf_def d_conf_def)

lemma conf_direct_sampling_with:
  assumes "\<And>freq. always (at_conf c) (set_freq freq)"
  shows "always (at_conf c) (direct_sampling_with U set_freq on)"
  unfolding direct_sampling_with_def
  by (intro always_rules assms always_modify conf_env env_enable_ds env_disable_ds) (auto simp: at_conf_def d_conf_def)

lemma conf_center_freq_fuel: "always (at_conf c) (center_freq_fuel n U freq)"
proof (induction n arbitrary: freq)
  case 0
  then show ?case by (simp add: always_rules)
next
  case (Suc n)
  then show ?case by (simp add: conf_center_freq_with conf_direct_sampling_with)
qed

lemma conf_or_fault: "always (at_conf c) m \<Longrightarrow> always (at_conf c) (or_fault m)"
  unfolding or_fault_def by (intro always_rules conf_rules)

lemma conf_center_freq [conf_rules]: "always (at_conf c) (rtlsdr_set_center_freq U freq)"
  unfolding rtlsdr_set_center_freq_def by (intro conf_or_fault conf_center_freq_fuel)

lemma conf_tuner_set_bw: "tuner_set_bw t U = Some f \<Longrightarrow> always (at_conf c) (f bw)"
  by (cases t) (auto simp: e4000_set_bw_def fc2580_set_bw_def r820t_set_bw_def Let_def intro!: always_rules conf_rules)

lemma conf_bias_tee: "always (at_conf c) (rtlsdr_set_bias_tee U on)"
  unfolding rtlsdr_set_bias_tee_def rtlsdr_set_bias_tee_gpio_def by (intro always_rules conf_rules)

lemma conf_offset_tuning: "always (at_conf c) (rtlsdr_set_offset_tuning U on)"
  unfolding rtlsdr_set_offset_tuning_def
  by (intro always_tuner_op_bind always_rules conf_rules conf_bias_tee always_modify conf_with_repeater)
    (auto simp: at_conf_def d_conf_def dest: conf_tuner_set_bw)

lemma conf_apply_sample_rate: "always (at_conf c) (apply_sample_rate U ratio)"
  unfolding apply_sample_rate_def
  by (intro always_tuner_op_bind always_rules conf_rules conf_offset_tuning conf_with_repeater)
    (auto dest: conf_tuner_set_bw)

text \<open>What \<open>rtlsdr_set_sample_rate\<close> leaves of the configuration.\<close>

lemma sample_rate_conf:
  assumes "rate_supported rate" and "real_rate (d_rtl_xtal s) (rsamp_ratio (d_rtl_xtal s) rate) = Some x"
    and "run_state (rtlsdr_set_sample_rate U rate) s = (r, s')"
  shows "d_conf s' = d_conf (s\<lparr>d_rate := x\<rparr>)"
proof -
  have "run_state (apply_sample_rate U (rsamp_ratio (d_rtl_xtal s) rate)) (s\<lparr>d_rate := x\<rparr>) = (r, s')"
    using assms by (simp add: rtlsdr_set_sample_rate_def d_ensure_def Let_def)
  with conf_apply_sample_rate show ?thesis by (metis alwaysD at_conf_def)
qed

end
