(* ===== verification/Librtlsdr_Inv.thy ===== *)
theory Librtlsdr_Inv
  imports Librtlsdr_Num Librtlsdr_State
begin

unbundle bit_operations_syntax

text \<open>
  The invariant of an opened device (\<open>lib_inv\<close>): the conversions and divisions of the library
  and of the R82xx driver stay in range. Every operation of the library keeps it, and
  \<open>rtlsdr_open\<close> establishes it, whatever the USB device answers.
\<close>

section \<open>Conversions in range\<close>

lemma dbl_trunc_le: "\<bar>x\<bar> < of_int B + 1 \<Longrightarrow> \<bar>dbl_trunc x\<bar> \<le> B"
proof -
  assume x: "\<bar>x\<bar> < of_int B + 1"
  have "\<lfloor>\<bar>x\<bar>\<rfloor> < B + 1" using x by (subst floor_less_iff) simp
  moreover have "0 \<le> \<lfloor>\<bar>x\<bar>\<rfloor>" by simp
  moreover have "\<bar>dbl_trunc x\<bar> = \<lfloor>\<bar>x\<bar>\<rfloor>" by (cases "0 \<le> x") (simp_all add: dbl_trunc_def)
  ultimately show ?thesis by simp
qed

lemma trunc_fl_le:
  assumes "\<bar>x\<bar> \<le> of_int B" and "B < 2 ^ 53"
  shows "\<bar>dbl_trunc (fl x)\<bar> \<le> B"
proof (rule dbl_trunc_le)
  have "\<bar>x\<bar> / 2 ^ 53 < 1"
  proof -
    have "(of_int B :: rat) < of_int (2 ^ 53)" using assms(2) by (simp only: of_int_less_iff)
    then have "\<bar>x\<bar> < 2 ^ 53" using assms(1) by simp
    then show ?thesis by simp
  qed
  then show "\<bar>fl x\<bar> < of_int B + 1" using fl_rel_error [of x] assms(1) by linarith
qed

lemma if_freq_val_range:
  assumes "freq < 2 ^ 32" and "2 ^ 24 \<le> rtl_xtal"
  shows "- (2 ^ 31) \<le> if_freq_val freq rtl_xtal"
proof -
  define f :: rat where "f = of_nat freq"
  define x :: rat where "x = of_nat rtl_xtal"
  have f: "0 \<le> f" "f \<le> 2 ^ 32" and x: "2 ^ 24 \<le> x"
  proof -
    have "(of_nat freq :: rat) \<le> of_nat (2 ^ 32)" "(of_nat (2 ^ 24) :: rat) \<le> of_nat rtl_xtal"
      using assms by (simp_all only: of_nat_le_iff)
    then show "0 \<le> f" "f \<le> 2 ^ 32" "2 ^ 24 \<le> x" by (simp_all add: f_def x_def)
  qed
  have fl: "fl (of_nat freq * 2 ^ 22) = f * 2 ^ 22"
    using assms(1) by (simp add: f_def fl_shift [of freq 22, simplified])
  have "f * 2 ^ 22 \<le> 2 ^ 30 * x" using f x by simp
  then have "f * 2 ^ 22 / x \<le> 2 ^ 30" using x by (simp add: divide_le_eq)
  then have "\<bar>f * 2 ^ 22 / x\<bar> \<le> of_int (2 ^ 30)" using f x by simp
  then have "\<bar>dbl_trunc (fl (f * 2 ^ 22 / x))\<bar> \<le> 2 ^ 30" by (rule trunc_fl_le) simp
  then show ?thesis unfolding if_freq_val_def fl dbl_trunc_minus by (simp add: x_def)
qed

lemma sample_corr_range:
  assumes "\<bar>ppm\<bar> \<le> 1000"
  shows "\<bar>sample_corr_val ppm\<bar> \<le> 16778"
proof -
  have "fl (of_int (- ppm * 2 ^ 24)) = of_int (- ppm * 2 ^ 24)" using assms by (intro fl_int) (simp add: abs_mult)
  then have *: "fl (of_int (- ppm) * 2 ^ 24) = of_int (- ppm) * 2 ^ 24" by simp
  have "(of_int \<bar>ppm\<bar> :: rat) \<le> of_int 1000" using assms by (simp only: of_int_le_iff)
  then have "\<bar>of_int (- ppm) * 2 ^ 24 / 1000000\<bar> \<le> (of_int 16778 :: rat)" by (simp add: abs_mult)
  then show ?thesis unfolding sample_corr_val_def * by (rule trunc_fl_le) simp
qed

section \<open>The invariant of the device structure\<close>

definition is_r82xx :: "rtlsdr_tuner \<Rightarrow> bool" where
  "is_r82xx t \<longleftrightarrow> t = RTLSDR_TUNER_R820T \<or> t = RTLSDR_TUNER_R828D"

definition lib_inv :: "bool \<Rightarrow> rtlsdr_tuner \<Rightarrow> 'h rtlsdr \<Rightarrow> bool" where
  "lib_inv ready t s \<longleftrightarrow> \<not> d_fault s \<and> d_tuner s = Some t \<and> d_tuner_type s = t \<and>
     d_rtl_xtal s = DEF_RTL_XTAL_FREQ \<and> 1000000 \<le> d_tun_xtal s \<and> d_tun_xtal s \<le> 32000000 \<and> \<bar>d_corr s\<bar> \<le> 1000 \<and>
     d_freq s < 2 ^ 32 \<and> d_bw s < 2 ^ 32 \<and> d_rate s < 2 ^ 32 \<and> d_offs_freq s < 2 ^ 32 \<and>
     length (r_regs (d_r82xx s)) = NUM_REGS \<and> length (r_buf (d_r82xx s)) = NUM_REGS + 1 \<and> \<not> r_fault (d_r82xx s) \<and>
     (ready \<and> is_r82xx t \<longrightarrow> r_inv (d_r82xx s))"

named_theorems lib_rules \<open>computations that keep the invariant of the device structure\<close>

lemma lib_io [lib_rules]: "always (lib_inv b t) (d_io m)"
  by (auto simp: always_def d_io_def lib_inv_def split: prod.splits)

lemma lib_e4k_io [lib_rules]: "always (lib_inv b t) (d_e4k_io m)"
  by (auto simp: always_def d_e4k_io_def lib_inv_def split: prod.splits)

lemma lib_r82xx_io [lib_rules]:
  assumes "always r_inv m" and "is_r82xx t"
  shows "always (lib_inv True t) (d_r82xx_io m)"
  unfolding always_def
proof (intro allI impI)
  fix s :: "'a rtlsdr" assume I: "lib_inv True t s"
  let ?r = "(d_r82xx s)\<lparr>r_hw := d_hw s, r_manufact := d_manufact s, r_product := d_product s\<rparr>"
  obtain x r where 1: "run_state m ?r = (x, r)" by fastforce
  have "r_inv ?r" using I assms(2) by (simp add: lib_inv_def r_inv_def)
  then have "r_inv r" using alwaysD [OF assms(1) _ 1] by simp
  then show "lib_inv True t (snd (run_state (d_r82xx_io m) s))"
    using I 1 by (simp add: d_r82xx_io_def lib_inv_def r_inv_def)
qed

lemma lib_tuner_op_bind:
  assumes "always (lib_inv b t) (k (c t U))"
  shows "always (lib_inv b t) (State_Monad.bind (tuner_op c U) k)"
  unfolding tuner_op_def by (rule always_gets_bind) (simp add: lib_inv_def assms)

lemma corr_xtal_bounds:
  assumes "lib_inv b t s"
  shows "corr_in_range (d_rtl_xtal s) (d_corr s)" "2 ^ 24 \<le> corr_xtal (d_rtl_xtal s) (d_corr s)"
    "corr_in_range (d_tun_xtal s) (d_corr s)" "0 < corr_xtal (d_tun_xtal s) (d_corr s)"
    "corr_xtal (d_tun_xtal s) (d_corr s) < 32767500"
proof -
  have c: "\<bar>d_corr s\<bar> \<le> 1000" "1000000 \<le> d_tun_xtal s" "d_tun_xtal s \<le> 32000000" "d_rtl_xtal s = 28800000"
    using assms by (simp_all add: lib_inv_def)
  have r: "1000000 \<le> d_rtl_xtal s" "d_rtl_xtal s < 2 ^ 31" "d_tun_xtal s < 2 ^ 31" using c by simp_all
  note R = corr_xtal_range [OF r(1,2) c(1)] and T = corr_xtal_range [OF c(2) r(3) c(1)]
  show "corr_in_range (d_rtl_xtal s) (d_corr s)" "corr_in_range (d_tun_xtal s) (d_corr s)"
    using R(1) T(1) by simp_all
  show "2 ^ 24 \<le> corr_xtal (d_rtl_xtal s) (d_corr s)" using R(2) c by simp
  have lo: "int (d_tun_xtal s) * 999000 \<le> int (d_tun_xtal s) * (1000000 + d_corr s)"
    and hi: "int (d_tun_xtal s) * (1000000 + d_corr s) \<le> int (d_tun_xtal s) * 1001000"
    using c by (intro mult_left_mono; simp)+
  show "0 < corr_xtal (d_tun_xtal s) (d_corr s)" "corr_xtal (d_tun_xtal s) (d_corr s) < 32767500"
    using T(2) c(2,3) lo hi by linarith+
qed

lemma lib_clock [lib_rules]: "always (lib_inv b t) get_rtl_xtal" "always (lib_inv b t) rtlsdr_get_tuner_clock"
  by (simp_all add: always_def get_rtl_xtal_def rtlsdr_get_tuner_clock_def d_ensure_def corr_xtal_bounds)

lemma lib_if_freq [lib_rules]: "freq < 2 ^ 32 \<Longrightarrow> always (lib_inv b t) (rtlsdr_set_if_freq U freq)"
proof -
  assume f: "freq < 2 ^ 32"
  have "run_state (rtlsdr_set_if_freq U freq) s = run_state (seq_or
      [demod_write U 1 0x19 (if_freq_bytes (if_freq_val freq (corr_xtal (d_rtl_xtal s) (d_corr s))) ! 0) 1,
       demod_write U 1 0x1a (if_freq_bytes (if_freq_val freq (corr_xtal (d_rtl_xtal s) (d_corr s))) ! 1) 1,
       demod_write U 1 0x1b (if_freq_bytes (if_freq_val freq (corr_xtal (d_rtl_xtal s) (d_corr s))) ! 2) 1] 0) s"
    if "lib_inv b t s" for s :: "'a rtlsdr"
    using corr_xtal_bounds [OF that] if_freq_val_range [OF f corr_xtal_bounds(2) [OF that]]
    by (simp add: rtlsdr_set_if_freq_def get_rtl_xtal_def d_ensure_def Let_def)
  moreover have "always (lib_inv b t) (seq_or [demod_write U 1 0x19 x 1, demod_write U 1 0x1a y 1, demod_write U 1 0x1b z 1] 0)" for x y z
    by (intro always_rules lib_rules)
  ultimately show ?thesis unfolding always_def by metis
qed

lemma lib_sample_corr [lib_rules]:
  "\<bar>ppm\<bar> \<le> 1000 \<Longrightarrow> always (lib_inv b t) (rtlsdr_set_sample_freq_correction U ppm)"
proof -
  assume "\<bar>ppm\<bar> \<le> 1000"
  then have "- (2 ^ 15) \<le> sample_corr_val ppm \<and> sample_corr_val ppm < 2 ^ 15" using sample_corr_range [of ppm] by auto
  then show ?thesis
    unfolding rtlsdr_set_sample_freq_correction_def Let_def d_ensure_def
    by (intro always_rules always_modify lib_rules) simp
qed

lemma lib_with_repeater: "(\<And>m. f = Some m \<Longrightarrow> always (lib_inv b t) m) \<Longrightarrow> always (lib_inv b t) (with_repeater U f)"
  unfolding with_repeater_def by (cases f) (auto intro!: always_rules lib_rules)

lemma lib_call_tuner: "(\<And>m. f = Some m \<Longrightarrow> always (lib_inv b t) m) \<Longrightarrow> always (lib_inv b t) (call_tuner U f)"
  unfolding call_tuner_def by (cases f) (auto intro!: always_rules lib_rules)

lemma r820t_init_establishes:
  assumes "lib_inv b t s" and "is_r82xx t"
  shows "lib_inv True t (snd (run_state (r820t_init U) s))"
proof -
  define cfg where "cfg = (if t = RTLSDR_TUNER_R828D
     then \<lparr>i2c_addr = 0x74, xtal = corr_xtal (d_tun_xtal s) (d_corr s), rafael_chip = CHIP_R828D, max_i2c_msg_len = 8, use_predetect = False\<rparr>
     else \<lparr>i2c_addr = 0x34, xtal = corr_xtal (d_tun_xtal s) (d_corr s), rafael_chip = CHIP_R820T, max_i2c_msg_len = 8, use_predetect = False\<rparr>)"
  let ?s = "s\<lparr>d_r82xx := (d_r82xx s)\<lparr>r_cfg := cfg\<rparr>\<rparr>"
  have "run_state (r820t_init U) s = run_state (d_r82xx_io (r82xx_init U)) ?s"
    using corr_xtal_bounds [OF assms(1)] assms(1)
    by (simp add: r820t_init_def rtlsdr_get_tuner_clock_def d_ensure_def lib_inv_def cfg_def)
  moreover have "lib_inv True t ?s"
    using assms corr_xtal_bounds(4,5) [OF assms(1)] by (auto simp: lib_inv_def r_inv_def cfg_def)
  ultimately show ?thesis using lib_r82xx_io [OF r_inv_init [of U] assms(2)] by (simp add: always_def)
qed

lemma lib_weaken: "lib_inv b t s \<Longrightarrow> \<not> is_r82xx t \<Longrightarrow> lib_inv c t s"
  by (auto simp: lib_inv_def)

lemma lib_e4000_init: "always (lib_inv b t) (e4000_init U)"
  unfolding e4000_init_def by (intro always_rules lib_rules always_modify) (simp add: lib_inv_def)

lemma tuner_init_establishes:
  assumes "tuner_init t U = Some m" and "lib_inv b t s"
  shows "lib_inv True t (snd (run_state m s))"
proof (cases "is_r82xx t")
  case True
  then have "m = r820t_init U" using assms(1) by (auto simp: is_r82xx_def)
  then show ?thesis using r820t_init_establishes [OF assms(2) True] by simp
next
  case False
  have "always (lib_inv b t) m"
    using assms(1) False by (cases t) (auto simp: is_r82xx_def intro: lib_rules lib_e4000_init)
  then show ?thesis using assms(2) False lib_weaken unfolding always_def by blast
qed

lemma lib_tuner_init: "tuner_init t U = Some m \<Longrightarrow> always (lib_inv True t) m"
  using tuner_init_establishes unfolding always_def by blast

lemma lib_tuner_exit: "tuner_exit t U = Some m \<Longrightarrow> always (lib_inv True t) m"
  by (cases t) (auto simp: e4000_exit_def r820t_exit_def is_r82xx_def intro!: always_rules lib_rules)

lemma lib_tuner_set_freq: "tuner_set_freq t U = Some f \<Longrightarrow> always (lib_inv True t) (f freq)"
  by (cases t) (auto simp: e4000_set_freq_def fc0012_set_freq_def fc0013_set_freq_def r820t_set_freq_def is_r82xx_def
    intro!: always_rules lib_rules)

lemma lib_apply_freq: "freq < 2 ^ 32 \<Longrightarrow> always (lib_inv True t) (apply_freq U freq)"
  unfolding apply_freq_def
  by (rule always_bind, rule always_gets, rule lib_tuner_op_bind, intro always_rules lib_rules) (auto dest: lib_tuner_set_freq)

lemma lib_enable_ds: "always (lib_inv True t) (enable_ds U on)"
  unfolding enable_ds_def
  by (rule lib_tuner_op_bind, intro always_rules lib_rules lib_with_repeater) (auto dest: lib_tuner_exit)

lemma lib_disable_ds: "always (lib_inv True t) (disable_ds U)"
  unfolding disable_ds_def
  by (rule lib_tuner_op_bind, intro always_rules lib_rules lib_with_repeater) (auto dest: lib_tuner_init)

lemma lib_center_freq_with:
  assumes "\<And>on. always (lib_inv True t) (set_ds on)" and "freq < 2 ^ 32"
  shows "always (lib_inv True t) (center_freq_with U set_ds freq)"
  unfolding center_freq_with_def
  by (intro always_rules assms always_modify lib_apply_freq) (use assms(2) in \<open>auto simp: lib_inv_def\<close>)

lemma lib_direct_sampling_with:
  assumes "\<And>freq. freq < 2 ^ 32 \<Longrightarrow> always (lib_inv True t) (set_freq freq)"
  shows "always (lib_inv True t) (direct_sampling_with U set_freq on)"
  unfolding direct_sampling_with_def
  by (intro always_bind always_if lib_enable_ds lib_disable_ds always_modify always_ret always_gets_bind assms)
    (auto simp: lib_inv_def)

lemma lib_center_freq_fuel: "freq < 2 ^ 32 \<Longrightarrow> always (lib_inv True t) (center_freq_fuel n U freq)"
proof (induction n arbitrary: freq)
  case 0
  then show ?case by (simp add: always_rules)
next
  case (Suc n)
  then show ?case
    unfolding center_freq_fuel.simps by (intro lib_center_freq_with lib_direct_sampling_with Suc)
qed

lemma lib_or_fault:
  assumes "always (lib_inv b t) m" and "\<And>s. finishes m s"
  shows "always (lib_inv b t) (or_fault m)"
  unfolding always_def
proof (intro allI impI)
  fix s :: "'a rtlsdr" assume I: "lib_inv b t s"
  obtain r s' where 1: "run_state m s = (Some r, s')" using assms(2) [of s] by (metis finishes_def option.exhaust prod.collapse)
  from alwaysD [OF assms(1) I 1] 1 show "lib_inv b t (snd (run_state (or_fault m) s))"
    by (simp add: or_fault_def d_ensure_def)
qed

lemma lib_center_freq [lib_rules]: "freq < 2 ^ 32 \<Longrightarrow> always (lib_inv True t) (rtlsdr_set_center_freq U freq)"
  unfolding rtlsdr_set_center_freq_def
  by (intro lib_or_fault lib_center_freq_fuel) (simp_all add: center_freq_finishes_3 numeral_3_eq_3 del: center_freq_fuel.simps)

lemma lib_direct_sampling [lib_rules]: "always (lib_inv True t) (rtlsdr_set_direct_sampling U on)"
  unfolding rtlsdr_set_direct_sampling_def rtlsdr_set_direct_sampling_raw_def
  by (intro always_bind always_modify lib_or_fault lib_direct_sampling_with lib_center_freq_fuel direct_sampling_finishes)
    (simp_all add: lib_inv_def center_freq_finishes_3 numeral_3_eq_3 del: center_freq_fuel.simps)

section \<open>The remaining operations\<close>

lemma int_freq_send_chunk: "always (\<lambda>s. r_int_freq s = x) (send_chunk U ch)"
  unfolding send_chunk_def Let_def by (intro always_rules always_modify always_r_io) simp_all

lemma int_freq_write: "always (\<lambda>s. r_int_freq s = x) (r82xx_write U reg val)"
  unfolding r82xx_write_def store_shadow_def r_raise_fault_def
  by (intro always_rules always_modify always_seq_chk) (auto simp: int_freq_send_chunk split: option.split)

lemma int_freq_write_mask: "always (\<lambda>s. r_int_freq s = x) (r82xx_write_reg_mask U reg val m)"
  unfolding r82xx_write_reg_mask_def by (intro always_rules int_freq_write)

lemma low_pass_index_le: "low_pass_index bw ts \<le> length ts"
  by (induction ts) auto

lemma bandwidth_vals_le: "bandwidth_vals bw = Some (a, b, f) \<Longrightarrow> f \<le> 4570000"
proof -
  assume *: "bandwidth_vals bw = Some (a, b, f)"
  let ?T = r82xx_if_low_pass_bw_table
  have nn: "0 \<le> ?T ! i" if "i < 10" for i
    using that by (auto simp: r82xx_if_low_pass_bw_table_def less_Suc_eq numeral_eq_Suc)
  have "0 \<le> (x + ?T ! (low_pass_index c ?T - Suc 0)) sdiv 2" if "0 \<le> x" "0 < low_pass_index c ?T" for x c
    using that nn [of "low_pass_index c ?T - Suc 0"] low_pass_index_le [of c ?T]
    by (simp add: signed_divide_int_def r82xx_if_low_pass_bw_table_def sgn_if)
  then show ?thesis using *
    by (auto simp: bandwidth_vals_def Let_def split: if_splits prod.splits) (smt (verit))+
qed

lemma set_bandwidth_le: "fst (run_state (r82xx_set_bandwidth U bw) s) \<le> 4570000"
proof -
  obtain a b f where v: "bandwidth_vals bw = Some (a, b, f)" using bandwidth_vals_Some [of bw] by (metis prod_cases3)
  have "always (\<lambda>s. r_int_freq s = nat f) (seq_chk [r82xx_write_reg_mask U 0x0a a 0x10, r82xx_write_reg_mask U 0x0b b 0xef])"
    by (intro always_rules int_freq_write_mask)
  from alwaysD [OF this, of "s\<lparr>r_int_freq := nat f\<rparr>"] show ?thesis using bandwidth_vals_le [OF v]
    by (auto simp: r82xx_set_bandwidth_def v chk_def split: prod.splits simp del: seq_chk.simps)
qed

lemma lib_r820t_set_bw:
  assumes "is_r82xx t"
  shows "always (lib_inv True t) (r820t_set_bw U bw)"
  unfolding always_def
proof (intro allI impI)
  fix s :: "'a rtlsdr" assume I: "lib_inv True t s"
  let ?m = "d_r82xx_io (r82xx_set_bandwidth U bw)"
  obtain r s1 where 1: "run_state ?m s = (r, s1)" by fastforce
  have I1: "lib_inv True t s1" using alwaysD [OF lib_r82xx_io [OF r_inv_set_bandwidth assms] I 1] .
  have "r \<le> 4570000"
    using 1 set_bandwidth_le [of U bw] by (auto simp: d_r82xx_io_def split: prod.splits) (metis fst_conv)
  then have "always (lib_inv True t) (if r < 0 then ret r else do {
       r \<leftarrow> rtlsdr_set_if_freq U (nat r);
       if r \<noteq> 0 then ret r else do { freq \<leftarrow> gets d_freq; rtlsdr_set_center_freq U freq } })"
    by (intro always_if always_ret always_bind lib_rules always_gets_bind) (auto simp: lib_inv_def)
  then show "lib_inv True t (snd (run_state (r820t_set_bw U bw) s))"
    using 1 I1 by (simp add: r820t_set_bw_def always_def del: if_split)
qed

lemma lib_tuner_set_bw: "tuner_set_bw t U = Some f \<Longrightarrow> always (lib_inv True t) (f bw)"
  by (cases t) (auto simp: e4000_set_bw_def fc2580_set_bw_def Let_def is_r82xx_def
    intro!: always_rules lib_rules lib_r820t_set_bw)

lemma lib_tuner_set_gain: "tuner_set_gain t U = Some f \<Longrightarrow> always (lib_inv True t) (f g)"
  by (cases t) (auto simp: e4000_set_gain_def r820t_set_gain_def is_r82xx_def Let_def intro!: always_rules lib_rules)

lemma lib_tuner_set_if_gain: "tuner_set_if_gain t U = Some f \<Longrightarrow> always (lib_inv True t) (f i g)"
  by (cases t) (auto simp: e4000_set_if_gain_def intro!: always_rules lib_rules)

lemma lib_tuner_set_gain_mode: "tuner_set_gain_mode t U = Some f \<Longrightarrow> always (lib_inv True t) (f manual)"
  by (cases t) (auto simp: e4000_set_gain_mode_def r820t_set_gain_mode_def is_r82xx_def intro!: always_rules lib_rules)

lemma lib_set_tuner_bandwidth [lib_rules]:
  "bw < 2 ^ 32 \<Longrightarrow> always (lib_inv True t) (rtlsdr_set_tuner_bandwidth U bw)"
  unfolding rtlsdr_set_tuner_bandwidth_def
  by (rule always_bind, rule always_gets, rule always_if, rule always_ret, rule lib_tuner_op_bind,
      intro always_rules lib_with_repeater always_modify) (auto simp: lib_inv_def dest: lib_tuner_set_bw)

lemma lib_set_tuner_gain [lib_rules]: "always (lib_inv True t) (rtlsdr_set_tuner_gain U gain)"
  unfolding rtlsdr_set_tuner_gain_def
  by (rule always_bind, rule always_gets, rule always_if, rule always_ret, rule lib_tuner_op_bind,
      intro always_rules lib_call_tuner always_modify) (auto simp: lib_inv_def dest: lib_tuner_set_gain)

lemma lib_set_tuner_if_gain [lib_rules]: "always (lib_inv True t) (rtlsdr_set_tuner_if_gain U stage gain)"
  unfolding rtlsdr_set_tuner_if_gain_def
  by (rule always_bind, rule always_gets, rule always_if, rule always_ret, rule lib_tuner_op_bind,
      intro lib_call_tuner) (auto dest: lib_tuner_set_if_gain)

lemma lib_set_tuner_gain_mode [lib_rules]: "always (lib_inv True t) (rtlsdr_set_tuner_gain_mode U mode)"
  unfolding rtlsdr_set_tuner_gain_mode_def
  by (rule always_bind, rule always_gets, rule always_if, rule always_ret, rule lib_tuner_op_bind,
      intro lib_call_tuner) (auto dest: lib_tuner_set_gain_mode)

lemma lib_bias_tee [lib_rules]: "always (lib_inv b t) (rtlsdr_set_bias_tee_gpio U gpio on)"
  unfolding rtlsdr_set_bias_tee_gpio_def by (intro always_rules lib_rules)

lemma lib_offset_tuning [lib_rules]: "always (lib_inv True t) (rtlsdr_set_offset_tuning U on)"
  unfolding rtlsdr_set_offset_tuning_def rtlsdr_set_bias_tee_def
  by (rule always_gets_bind always_if always_ret lib_tuner_op_bind lib_with_repeater lib_rules
      | rule always_bind always_modify | (auto simp: lib_inv_def dest: lib_tuner_set_bw; fail))+

lemma lib_apply_sample_rate: "always (lib_inv True t) (apply_sample_rate U ratio)"
  unfolding apply_sample_rate_def
  by (rule always_gets_bind always_if always_ret always_seq_or_rules lib_tuner_op_bind lib_with_repeater lib_rules
      | rule always_bind | (auto simp: lib_inv_def dest: lib_tuner_set_bw; fail))+

lemma lib_sample_rate [lib_rules]: "always (lib_inv True t) (rtlsdr_set_sample_rate U rate)"
  unfolding always_def
proof (intro allI impI)
  fix s :: "'a rtlsdr" assume I: "lib_inv True t s"
  show "lib_inv True t (snd (run_state (rtlsdr_set_sample_rate U rate) s))"
  proof (cases "rate_supported rate")
    case True
    have x: "d_rtl_xtal s = 28800000" using I by (simp add: lib_inv_def)
    have "lib_inv True t (s\<lparr>d_rate := rate\<rparr>)" using I True by (simp add: lib_inv_def rate_supported_def)
    then show ?thesis
      using lib_apply_sample_rate [of t U "rsamp_ratio 28800000 rate"] nominal_rate [OF True] x True
      by (simp add: rtlsdr_set_sample_rate_def d_ensure_def Let_def always_def)
  qed (use I in \<open>simp add: rtlsdr_set_sample_rate_def\<close>)
qed

lemma lib_update_clocks [lib_rules]: "always (lib_inv True t) update_tuner_clocks"
  unfolding always_def
proof (intro allI impI)
  fix s :: "'a rtlsdr" assume "lib_inv True t s"
  then show "lib_inv True t (snd (run_state update_tuner_clocks s))"
    using corr_xtal_bounds [of True t s]
    by (auto simp: update_tuner_clocks_def rtlsdr_get_tuner_clock_def d_ensure_def lib_inv_def r_inv_def)
qed

lemma lib_xtal_freq [lib_rules]:
  assumes "rtl = 0 \<or> rtl = DEF_RTL_XTAL_FREQ" and "tun = 0 \<or> 1000000 \<le> tun \<and> tun \<le> 32000000"
  shows "always (lib_inv True t) (rtlsdr_set_xtal_freq U rtl tun)"
  unfolding rtlsdr_set_xtal_freq_def
  by (rule always_gets_bind always_if always_ret lib_rules | rule always_bind always_modify
      | (use assms in \<open>auto simp: lib_inv_def\<close>; fail))+

lemma lib_freq_correction [lib_rules]:
  "\<bar>ppm\<bar> \<le> 1000 \<Longrightarrow> always (lib_inv True t) (rtlsdr_set_freq_correction U ppm)"
  unfolding rtlsdr_set_freq_correction_def
  by (rule always_gets_bind always_if always_ret lib_rules | rule always_bind always_modify
      | (auto simp: lib_inv_def; fail))+

section \<open>Calls of the library\<close>

datatype rtlsdr_call =
  SetCenterFreq nat | SetFreqCorrection int | SetXtalFreq nat nat | SetSampleRate nat | SetTunerBandwidth nat
| SetTunerGain int | SetTunerIfGain int int | SetTunerGainMode bool | SetDirectSampling int | SetOffsetTuning bool
| SetTestmode bool | SetAgcMode bool | SetBiasTee int bool | ResetBuffer

primrec rtlsdr_do :: "'h usb_ops \<Rightarrow> rtlsdr_call \<Rightarrow> ('h rtlsdr, int) prog" where
  "rtlsdr_do U (SetCenterFreq f) = rtlsdr_set_center_freq U f"
| "rtlsdr_do U (SetFreqCorrection ppm) = rtlsdr_set_freq_correction U ppm"
| "rtlsdr_do U (SetXtalFreq rtl tun) = rtlsdr_set_xtal_freq U rtl tun"
| "rtlsdr_do U (SetSampleRate r) = rtlsdr_set_sample_rate U r"
| "rtlsdr_do U (SetTunerBandwidth bw) = rtlsdr_set_tuner_bandwidth U bw"
| "rtlsdr_do U (SetTunerGain g) = rtlsdr_set_tuner_gain U g"
| "rtlsdr_do U (SetTunerIfGain i g) = rtlsdr_set_tuner_if_gain U i g"
| "rtlsdr_do U (SetTunerGainMode m) = rtlsdr_set_tuner_gain_mode U m"
| "rtlsdr_do U (SetDirectSampling on) = rtlsdr_set_direct_sampling U on"
| "rtlsdr_do U (SetOffsetTuning on) = rtlsdr_set_offset_tuning U on"
| "rtlsdr_do U (SetTestmode on) = rtlsdr_set_testmode U on"
| "rtlsdr_do U (SetAgcMode on) = rtlsdr_set_agc_mode U on"
| "rtlsdr_do U (SetBiasTee gpio on) = rtlsdr_set_bias_tee_gpio U gpio on"
| "rtlsdr_do U ResetBuffer = rtlsdr_reset_buffer U"

primrec rtlsdr_run :: "'h usb_ops \<Rightarrow> rtlsdr_call list \<Rightarrow> 'h rtlsdr \<Rightarrow> 'h rtlsdr" where
  "rtlsdr_run U [] s = s"
| "rtlsdr_run U (c # cs) s = rtlsdr_run U cs (snd (run_state (rtlsdr_do U c) s))"

fun call_ok :: "rtlsdr_call \<Rightarrow> bool" where
  "call_ok (SetCenterFreq f) \<longleftrightarrow> f < 2 ^ 32"
| "call_ok (SetFreqCorrection ppm) \<longleftrightarrow> \<bar>ppm\<bar> \<le> 1000"
| "call_ok (SetXtalFreq rtl tun) \<longleftrightarrow>
     (rtl = 0 \<or> rtl = DEF_RTL_XTAL_FREQ) \<and> (tun = 0 \<or> 1000000 \<le> tun \<and> tun \<le> 32000000)"
| "call_ok (SetTunerBandwidth bw) \<longleftrightarrow> bw < 2 ^ 32"
| "call_ok _ \<longleftrightarrow> True"

lemma lib_do: "call_ok c \<Longrightarrow> always (lib_inv True t) (rtlsdr_do U c)"
  by (cases c) (auto simp: rtlsdr_set_testmode_def rtlsdr_set_agc_mode_def rtlsdr_reset_buffer_def
    intro!: lib_rules always_bind always_ret)

lemma lib_run: "list_all call_ok cs \<Longrightarrow> lib_inv True t s \<Longrightarrow> lib_inv True t (rtlsdr_run U cs s)"
proof (induction cs arbitrary: s)
  case (Cons c cs)
  then show ?case using lib_do [of c t U] by (simp add: always_def)
qed simp

section \<open>Opening establishes the invariant\<close>

text \<open>\<open>leads P m Q\<close>: from a state with \<open>P\<close> the computation ends in one with \<open>Q\<close>.\<close>

definition leads :: "('s \<Rightarrow> bool) \<Rightarrow> ('s, 'a) prog \<Rightarrow> ('s \<Rightarrow> bool) \<Rightarrow> bool" where
  "leads P m Q \<longleftrightarrow> (\<forall>s. P s \<longrightarrow> Q (snd (run_state m s)))"

lemma leads_bind: "leads P m Q \<Longrightarrow> (\<And>x. leads Q (k x) R) \<Longrightarrow> leads P (State_Monad.bind m k) R"
  by (auto simp: leads_def split: prod.splits)

lemma leads_gets_bind: "(\<And>s. P s \<Longrightarrow> f s = x) \<Longrightarrow> leads P (k x) R \<Longrightarrow> leads P (State_Monad.bind (gets f) k) R"
  by (simp add: leads_def)

lemma leads_always: "always I m \<Longrightarrow> leads I m I"
  by (simp add: leads_def always_def)

lemma leads_step: "always P m \<Longrightarrow> (\<And>x. leads P (k x) R) \<Longrightarrow> leads P (State_Monad.bind m k) R"
  by (rule leads_bind [OF leads_always])

lemma leads_modify: "(\<And>s. P s \<Longrightarrow> Q (f s)) \<Longrightarrow> leads P (modify f) Q"
  by (simp add: leads_def)

lemma leads_if: "(b \<Longrightarrow> leads P m Q) \<Longrightarrow> (\<not> b \<Longrightarrow> leads P n Q) \<Longrightarrow> leads P (if b then m else n) Q"
  by simp

lemma leads_conseq: "leads P' m Q' \<Longrightarrow> (\<And>s. P s \<Longrightarrow> P' s) \<Longrightarrow> (\<And>s. Q' s \<Longrightarrow> Q s) \<Longrightarrow> leads P m Q"
  by (simp add: leads_def)

lemma leads_case_prod: "(\<And>x y. leads P (k x y) Q) \<Longrightarrow> leads P (case p of (x, y) \<Rightarrow> k x y) Q"
  by (cases p) simp

definition open_inv :: "'h rtlsdr \<Rightarrow> bool" where
  "open_inv s \<longleftrightarrow> \<not> d_fault s \<and> d_rtl_xtal s = DEF_RTL_XTAL_FREQ \<and> d_corr s = 0 \<and> d_freq s = 0 \<and> d_bw s = 0 \<and>
     d_rate s = 0 \<and> d_offs_freq s = 0 \<and>
     length (r_regs (d_r82xx s)) = NUM_REGS \<and> length (r_buf (d_r82xx s)) = NUM_REGS + 1 \<and> \<not> r_fault (d_r82xx s)"

lemma open_io: "always open_inv (d_io m)"
  by (auto simp: always_def d_io_def open_inv_def split: prod.splits)

lemma open_fir_write: "always open_inv (fir_write U addr bs)"
proof (induction bs arbitrary: addr)
  case (Cons b bs)
  then show ?case by (simp add: always_rules open_io)
qed (simp add: always_rules)

lemma open_baseband: "always open_inv (rtlsdr_init_baseband U)"
  unfolding rtlsdr_init_baseband_def rtlsdr_set_fir_def
  by (intro always_rules open_io open_fir_write)

lemma leads_set_type: "leads open_inv (modify (\<lambda>s. s\<lparr>d_tuner_type := t\<rparr>)) (\<lambda>s. open_inv s \<and> d_tuner_type s = t)"
  by (rule leads_modify) (simp add: open_inv_def)

lemma leads_unknown:
  assumes "always (lib_inv True t) m" and "\<not> is_r82xx t"
  shows "leads (lib_inv False t) m (lib_inv False t)"
  by (rule leads_conseq [OF leads_always [OF assms(1)]]) (use assms(2) lib_weaken in blast)+

lemma leads_setup_tuner: "leads (\<lambda>s. open_inv s \<and> d_tuner_type s = t) (setup_tuner U) (lib_inv False t)"
proof -
  have xtal: "leads (\<lambda>s. open_inv s \<and> d_tuner_type s = t)
      (modify (\<lambda>s. s\<lparr>d_tun_xtal := d_rtl_xtal s, d_tuner := Some t\<rparr>)) (lib_inv False t)"
    by (rule leads_modify) (simp add: open_inv_def lib_inv_def)
  have blog: "always (lib_inv False t) (modify (\<lambda>s. if t = RTLSDR_TUNER_R828D \<and> \<not> is_blog_v4 (d_manufact s) (d_product s)
            then s\<lparr>d_tun_xtal := R828D_XTAL_FREQ\<rparr> else s))"
    by (rule always_modify) (simp add: lib_inv_def)
  have ds: "leads (lib_inv False t) (do { _ \<leftarrow> rtlsdr_set_direct_sampling U 1; ret () }) (lib_inv False t)"
    if "t = RTLSDR_TUNER_UNKNOWN"
    by (rule leads_unknown, intro always_rules lib_rules) (simp add: is_r82xx_def that)
  show ?thesis
    unfolding setup_tuner_def
    by (rule leads_gets_bind, simp, rule leads_bind [OF xtal], rule leads_step [OF blog],
        intro leads_if leads_always ds always_rules lib_rules) simp_all
qed

lemma leads_tuner_init:
  "leads (lib_inv False t) (case tuner_init t U of None \<Rightarrow> ret 0 | Some m \<Rightarrow> m) (lib_inv True t)"
proof (cases "tuner_init t U")
  case None
  then have "\<not> is_r82xx t" by (auto simp: is_r82xx_def)
  then show ?thesis using None lib_weaken by (auto simp: leads_def)
next
  case (Some m)
  then show ?thesis using tuner_init_establishes [OF Some] by (simp add: leads_def)
qed

lemma leads_tuner_op_bind:
  "leads (lib_inv b t) (k (c t U)) R \<Longrightarrow> leads (lib_inv b t) (State_Monad.bind (tuner_op c U) k) R"
  unfolding tuner_op_def by (rule leads_gets_bind [where x = "c t U"]) (simp_all add: lib_inv_def)

lemma leads_open_setup:
  "leads (\<lambda>s. open_inv (s\<lparr>d_rtl_xtal := DEF_RTL_XTAL_FREQ\<rparr>)) (open_setup U H i) (\<lambda>s. \<exists>t. lib_inv True t s)"
proof -
  have reset: "always open_inv (if r < 0 then modify (\<lambda>s. s\<lparr>d_hw := reset_dev H (d_hw s)\<rparr>) else ret ())" for r :: int
    by (intro always_rules always_modify) (simp add: open_inv_def)
  have found: "always open_inv (modify (\<lambda>s. s\<lparr>d_dev_lost := False\<rparr>))"
    by (rule always_modify) (simp add: open_inv_def)
  have strings: "always open_inv (modify (\<lambda>s. case dev_strings H i of None \<Rightarrow> s
       | Some (manufact, product, serial) \<Rightarrow> s\<lparr>d_manufact := manufact, d_product := product\<rparr>))"
    by (rule always_modify) (simp add: open_inv_def split: option.split prod.split)
  have force: "always (lib_inv b t) (modify (\<lambda>s. s\<lparr>d_force_bt := x\<rparr>))" for b t x
    by (rule always_modify) (simp add: lib_inv_def)
  have bt: "always (lib_inv b t) (if x then rtlsdr_set_bias_tee U True else ret 0)" for b t x
    unfolding rtlsdr_set_bias_tee_def by (intro always_rules lib_rules)
  have fin: "leads (lib_inv True t) (do { _ \<leftarrow> i2c_repeater U False; ret (0 :: int) }) (\<lambda>s. \<exists>t. lib_inv True t s)" for t
    by (rule leads_conseq [OF leads_always [where I = "lib_inv True t"]], intro always_rules lib_rules) auto
  show ?thesis
    unfolding open_setup_def Let_def
    by (rule leads_bind [OF leads_modify [where Q = open_inv]], assumption,
        rule leads_step [OF open_io], rule leads_step [OF reset], rule leads_step [OF open_baseband],
        rule leads_step [OF found], rule leads_step [OF strings], rule leads_step [OF open_io],
        rule leads_step [OF open_io], rule leads_bind [OF leads_set_type], rule leads_bind [OF leads_setup_tuner],
        rule leads_step [OF always_gets], rule leads_step [OF lib_io], rule leads_case_prod,
        rule leads_step [OF force], rule leads_step [OF bt], rule leads_tuner_op_bind,
        rule leads_bind [OF leads_tuner_init], rule fin)
qed

lemma rtlsdr_open_inv: "rtlsdr_open U H h index = (r, Some s) \<Longrightarrow> \<exists>t. lib_inv True t s"
proof -
  assume "rtlsdr_open U H h index = (r, Some s)"
  then obtain i where *: "run_state (open_setup U H i) ((dev_zero (h i))\<lparr>d_driver_active := kernel_active H\<rparr>) = (r, s)"
    by (auto simp: rtlsdr_open_def split: if_splits option.splits prod.splits)
  have "open_inv ((dev_zero (h i))\<lparr>d_driver_active := kernel_active H, d_rtl_xtal := DEF_RTL_XTAL_FREQ\<rparr>)"
    by (simp add: open_inv_def dev_zero_def r82xx_zero_def)
  with leads_open_setup [of U H i] * show ?thesis unfolding leads_def by (metis snd_conv)
qed

end
