(* ===== verification/Device_List.thy ===== *)
theory Device_List
  imports Librtlsdr
begin

text \<open>
  Device selection: the loops that count, name and open the supported devices on the bus, against
  the list of their positions.
\<close>

section \<open>The known devices by position\<close>

definition known_positions :: "(u16 \<times> u16) list \<Rightarrow> nat list" where
  "known_positions ds = filter (\<lambda>i. find_known_device (ds ! i) \<noteq> None) [0..<length ds]"

lemma known_positions_Nil [simp]: "known_positions [] = []"
  by (simp add: known_positions_def)

lemma known_positions_Cons [simp]:
  "known_positions (d # ds) =
    (if find_known_device d \<noteq> None then 0 # map Suc (known_positions ds) else map Suc (known_positions ds))"
proof -
  have "[0..<length (d # ds)] = 0 # map Suc [0..<length ds]"
    by (simp add: upt_conv_Cons map_Suc_upt del: upt_Suc)
  then show ?thesis by (simp add: known_positions_def filter_map o_def del: upt_Suc)
qed

lemma known_position_known:
  "i \<in> set (known_positions ds) \<Longrightarrow> i < length ds \<and> find_known_device (ds ! i) \<noteq> None"
  by (auto simp: known_positions_def)

lemma count_loop_known:
  "c + length ds < 2 ^ 32 \<Longrightarrow> count_loop ds c = c + length (known_positions ds)"
  by (induction ds arbitrary: c) auto

text \<open>The position of the device number \<open>index\<close>.\<close>

definition pick :: "nat \<Rightarrow> nat list \<Rightarrow> nat option" where
  "pick index xs = (if index < length xs then Some (xs ! index) else None)"

lemma pick_simps [simp]:
  "pick index [] = None" "pick 0 (x # xs) = Some x" "pick (Suc n) (x # xs) = pick n xs"
  "pick index (map f xs) = map_option f (pick index xs)"
  by (simp_all add: pick_def)

lemma count_eq: "c + 1 < 2 ^ 32 \<Longrightarrow> index = ((c + 1) mod 2 ^ 32 + 2 ^ 32 - 1) mod 2 ^ 32 \<longleftrightarrow> index = (c :: nat)"
  by auto

lemma count_neq: "c \<le> index \<Longrightarrow> index < 2 ^ 32 - 1 \<Longrightarrow> c < 2 ^ 32 \<Longrightarrow> index \<noteq> (c + 2 ^ 32 - 1) mod 2 ^ 32" for c :: nat
  by (cases c) auto

lemma pick_Cons: "c \<le> index \<Longrightarrow> index \<noteq> c \<Longrightarrow> pick (index - c) (x # xs) = pick (index - (c + 1)) xs"
proof -
  assume "c \<le> index" "index \<noteq> c"
  then have "index - c = Suc (index - (c + 1))" by simp
  then show ?thesis by (simp only: pick_simps)
qed

lemma plus_Suc_fun: "(+) (Suc i) = (\<lambda>j. Suc (i + j))"
  by auto

lemma map_option_plus_0 [simp]: "map_option ((+) (0 :: nat)) x = x"
  by (cases x) simp_all

lemma open_loop_pick:
  assumes "c + length ds < 2 ^ 32" and "c \<le> index" and "index < 2 ^ 32 - 1"
  shows "open_loop index ds i c = map_option ((+) i) (pick (index - c) (known_positions ds))"
  using assms
proof (induction ds arbitrary: i c)
  case (Cons d ds)
  show ?case
  proof (cases "find_known_device d")
    case None
    then show ?thesis using Cons count_neq [of c index] by (simp add: option.map_comp o_def plus_Suc_fun)
  next
    case (Some n)
    then show ?thesis using Cons count_eq [of c index]
      by (cases "index = c") (simp_all add: pick_Cons option.map_comp o_def plus_Suc_fun)
  qed
qed simp

lemma strings_loop_pick:
  assumes "c + length ds < 2 ^ 32" and "c \<le> index"
  shows "strings_loop index ds i c = map_option ((+) i) (pick (index - c) (known_positions ds))"
  using assms
proof (induction ds arbitrary: i c)
  case (Cons d ds)
  show ?case
  proof (cases "find_known_device d")
    case None
    then show ?thesis using Cons by (simp add: option.map_comp o_def plus_Suc_fun)
  next
    case (Some n)
    then show ?thesis using Cons count_eq [of c index]
      by (cases "index = c") (simp_all add: pick_Cons option.map_comp o_def plus_Suc_fun)
  qed
qed simp

lemma name_loop_pick:
  assumes "c + length ds < 2 ^ 32" and "c \<le> index" and "pick (index - c) (known_positions ds) = Some i"
  shows "name_loop index ds c dev = find_known_device (ds ! i)"
  using assms
proof (induction ds arbitrary: i c dev)
  case (Cons d ds)
  show ?case
  proof (cases "find_known_device d")
    case None
    then obtain j where "pick (index - c) (known_positions ds) = Some j" "i = Suc j" using Cons.prems(3) by auto
    then show ?thesis using None Cons by simp
  next
    case (Some n)
    show ?thesis
    proof (cases "index = c")
      case True
      then show ?thesis using Some Cons.prems count_eq [of c index] by simp
    next
      case False
      then obtain j where "pick (index - (c + 1)) (known_positions ds) = Some j" "i = Suc j"
        using Some Cons.prems by (auto simp: pick_Cons)
      then show ?thesis using Some False Cons count_eq [of c index] by simp
    qed
  qed
qed simp

section \<open>Serial numbers\<close>

text \<open>The device number \<open>index\<close> can be opened and has the serial number \<open>serial\<close>.\<close>

definition has_serial :: "'h usb_host \<Rightarrow> string \<Rightarrow> nat \<Rightarrow> bool" where
  "has_serial H serial index \<longleftrightarrow>
     (case pick index (known_positions (dev_list H)) of None \<Rightarrow> False
      | Some i \<Rightarrow> open_rc H i = 0 \<and> map_option (snd \<circ> snd) (dev_strings H i) = Some serial)"

lemma usb_strings_pick:
  assumes "length (dev_list H) < 2 ^ 32" and "0 \<le> init_rc H"
  shows "rtlsdr_get_device_usb_strings H index =
    (case pick index (known_positions (dev_list H)) of None \<Rightarrow> (init_rc H, None)
     | Some i \<Rightarrow> if open_rc H i \<noteq> 0 then (open_rc H i, None)
         else case dev_strings H i of None \<Rightarrow> (-1, None) | Some strs \<Rightarrow> (0, Some strs))"
  using assms strings_loop_pick [of 0 "dev_list H" index 0]
  by (simp add: rtlsdr_get_device_usb_strings_def split: option.split)

lemma serial_loop_find:
  assumes "length (dev_list H) < 2 ^ 32" and "0 \<le> init_rc H"
    and "\<forall>i \<in> set is. i < length (known_positions (dev_list H))"
  shows "serial_loop H serial is str = (case find (has_serial H serial) is of None \<Rightarrow> -3 | Some i \<Rightarrow> int i)"
  using assms(3)
proof (induction "is" arbitrary: str)
  case (Cons i "is")
  then obtain p where "pick i (known_positions (dev_list H)) = Some p" by (auto simp: pick_def)
  with Cons show ?case
    by (auto simp: usb_strings_pick [OF assms(1,2)] has_serial_def split: option.splits)
qed simp

end
