(* ===== verification/Eeprom_Chip.thy ===== *)
theory Eeprom_Chip
  imports Librtlsdr
begin

unbundle bit_operations_syntax

text \<open>
  The configuration EEPROM behind the I2C bridge, and what the library's EEPROM functions
  (src/src/librtlsdr.c, lines 830-893) do on it.

  \<open>eeprom_bus\<close> is what the data sheets of the 24C02 and its relatives promise: a two-byte write
  stores a byte, a one-byte write sets the address counter, a read returns the byte at the
  counter and advances it. The locale \<open>storage\<close> is the interface the rest of the library needs
  of a pair of functions that write and read such a memory; it is interpreted on
  \<open>rtlsdr_write_eeprom\<close> and \<open>rtlsdr_read_eeprom\<close>.
\<close>

section \<open>The chip\<close>

definition eeprom_bus :: "'h usb_ops \<Rightarrow> ('h \<Rightarrow> u8 \<Rightarrow> u8) \<Rightarrow> ('h \<Rightarrow> u8) \<Rightarrow> bool" where
  "eeprom_bus U mem ptr \<longleftrightarrow>
     (\<forall>h a v. \<exists>h'. ctrl_out U h 0xa0 0x610 [a, v] = (2, h') \<and> mem h' = (mem h)(a := v)) \<and>
     (\<forall>h a. \<exists>h'. ctrl_out U h 0xa0 0x610 [a] = (1, h') \<and> mem h' = mem h \<and> ptr h' = a) \<and>
     (\<forall>h. \<exists>h'. ctrl_in U h 0xa0 0x600 1 = (1, [mem h (ptr h)], h') \<and> mem h' = mem h \<and> ptr h' = ptr h + 1)"

text \<open>The contents after \<open>data\<close> is stored from address \<open>a\<close> on.\<close>

fun eeprom_put :: "nat \<Rightarrow> u8 list \<Rightarrow> (u8 \<Rightarrow> u8) \<Rightarrow> u8 \<Rightarrow> u8" where
  "eeprom_put a [] m = m"
| "eeprom_put a (b # bs) m = eeprom_put (Suc a) bs (m(of_nat a := b))"

lemma eeprom_put_other:
  assumes "unat x < a \<or> a + length bs \<le> unat x" and "a + length bs \<le> 256"
  shows "eeprom_put a bs m x = m x"
  using assms
proof (induction bs arbitrary: a m)
  case (Cons b bs)
  have "unat (of_nat a :: u8) = a" using Cons.prems(2) by (simp add: unat_of_nat)
  then have "of_nat a \<noteq> x" using Cons.prems(1) by auto
  moreover have "eeprom_put (Suc a) bs (m(of_nat a := b)) x = (m(of_nat a := b)) x"
    using Cons.prems by (intro Cons.IH) auto
  ultimately show ?case by simp
qed simp

lemma eeprom_put_nth:
  assumes "i < length bs" and "a + length bs \<le> 256"
  shows "eeprom_put a bs m (of_nat (a + i)) = bs ! i"
  using assms
proof (induction bs arbitrary: a m i)
  case (Cons b bs)
  show ?case
  proof (cases i)
    case 0
    have "unat (of_nat a :: u8) = a" using Cons.prems by (simp add: unat_of_nat)
    then have "eeprom_put (Suc a) bs (m(of_nat a := b)) (of_nat a) = (m(of_nat a := b)) (of_nat a)"
      using Cons.prems by (intro eeprom_put_other) simp_all
    then show ?thesis using 0 by simp
  next
    case (Suc j)
    then have "eeprom_put (Suc a) bs (m(of_nat a := b)) (of_nat (Suc a + j)) = bs ! j"
      using Cons.prems by (intro Cons.IH) simp_all
    then show ?thesis using Suc by (simp add: ac_simps)
  qed
qed simp

lemma eeprom_write_bytes_stores:
  assumes "eeprom_bus U mem ptr"
  shows "yields (\<lambda>h. mem h = m) (eeprom_write_bytes U a data c) 0 (\<lambda>h. mem h = eeprom_put a data m)"
proof (induction data arbitrary: a c m)
  case Nil
  then show ?case by (simp add: yields_ret)
next
  case (Cons b bs)
  show ?case
  proof (rule yieldsI)
    fix h assume m: "mem h = m"
    obtain h1 where 1: "ctrl_out U h 0xa0 0x610 [of_nat a] = (1, h1)" "mem h1 = mem h" "ptr h1 = of_nat a"
      using assms unfolding eeprom_bus_def by (elim conjE) blast
    obtain h2 where 2: "ctrl_in U h1 0xa0 0x600 1 = (1, [mem h1 (ptr h1)], h2)" "mem h2 = mem h1"
      using assms unfolding eeprom_bus_def by (elim conjE) blast
    obtain h3 where 3: "ctrl_out U h2 0xa0 0x610 [of_nat a, b] = (2, h3)" "mem h3 = (mem h2)(of_nat a := b)"
      using assms unfolding eeprom_bus_def by (elim conjE) blast
    have run: "run_state (eeprom_write_bytes U a (b # bs) c) h =
        (if m (of_nat a) = b then run_state (eeprom_write_bytes U (Suc a) bs b) h2
         else run_state (eeprom_write_bytes U (Suc a) bs b) h3)"
      using 1 2 3 m by (simp add: rtlsdr_write_array_def rtlsdr_read_array_def control_out_def control_in_def
        Let_def overlay_def)
    define m' where "m' = m(of_nat a := b)"
    have "mem h3 = m'" using 1 2 3 m by (simp add: m'_def)
    moreover have "mem h2 = m'" if "m (of_nat a) = b" using 1 2 m that by (auto simp: m'_def)
    ultimately obtain h' where h': "run_state (eeprom_write_bytes U a (b # bs) c) h = run_state (eeprom_write_bytes U (Suc a) bs b) h'"
      "mem h' = m'" using run by (metis (full_types))
    from yieldsD [OF Cons.IH h'(2)]
    show "\<exists>s'. run_state (eeprom_write_bytes U a (b # bs) c) h = (0, s') \<and> mem s' = eeprom_put a (b # bs) m"
      unfolding h'(1) by (metis prod.collapse m'_def eeprom_put.simps(2))
  qed
qed

lemma eeprom_read_bytes_returns:
  assumes "eeprom_bus U mem ptr" and "0 \<le> r"
  shows "\<exists>r' h'. run_state (eeprom_read_bytes U data r) h =
    ((r', map (\<lambda>i. mem h (ptr h + of_nat i)) [0..<length data]), h') \<and> mem h' = mem h \<and> 0 \<le> r'"
  using assms(2)
proof (induction data arbitrary: h r)
  case (Cons b bs)
  obtain h1 where 1: "ctrl_in U h 0xa0 0x600 1 = (1, [mem h (ptr h)], h1)" "mem h1 = mem h" "ptr h1 = ptr h + 1"
    using assms(1) unfolding eeprom_bus_def by (elim conjE) blast
  obtain r' h' where 2: "run_state (eeprom_read_bytes U bs 1) h1 =
      ((r', map (\<lambda>i. mem h1 (ptr h1 + of_nat i)) [0..<length bs]), h')" "mem h' = mem h1" "0 \<le> r'"
    using Cons.IH [of 1 h1] by auto
  have "map (\<lambda>i. mem h (ptr h + of_nat i)) [0..<length (b # bs)] =
      mem h (ptr h) # map (\<lambda>i. mem h1 (ptr h1 + of_nat i)) [0..<length bs]"
    using 1 by (simp add: upt_conv_Cons map_Suc_upt [symmetric] o_def add.assoc del: upt_Suc)
  with 1 2 show ?case
    by (simp add: rtlsdr_read_array_def control_in_def Let_def overlay_def del: upt_Suc)
qed simp

lemma eeprom_read_back:
  assumes "eeprom_bus U mem ptr" and "length buf + unat offset \<le> 256"
  shows "\<exists>r h'. run_state (rtlsdr_read_eeprom U buf offset) h =
    ((r, map (\<lambda>i. mem h (offset + of_nat i)) [0..<length buf]), h') \<and> mem h' = mem h \<and> 0 \<le> r"
proof -
  obtain h1 where 1: "ctrl_out U h 0xa0 0x610 [offset] = (1, h1)" "mem h1 = mem h" "ptr h1 = offset"
    using assms unfolding eeprom_bus_def by (elim conjE) blast
  show ?thesis using 1 assms(2) eeprom_read_bytes_returns [OF assms(1), of 1 buf h1]
    by (simp add: rtlsdr_read_eeprom_def rtlsdr_write_array_def control_out_def Let_def)
qed

section \<open>The interface of the storage\<close>

locale storage =
  fixes put :: "u8 list \<Rightarrow> u8 \<Rightarrow> ('h, int) prog" and get :: "u8 list \<Rightarrow> u8 \<Rightarrow> ('h, int \<times> u8 list) prog"
    and st :: "(u8 \<Rightarrow> u8) \<Rightarrow> 'h \<Rightarrow> bool"
  assumes put_law: "length data + unat offset \<le> 256 \<Longrightarrow>
      yields (st m) (put data offset) 0 (st (eeprom_put (unat offset) data m))"
    and put_range: "256 < length data + unat offset \<Longrightarrow> run_state (put data offset) h = (-2, h)"
    and get_law: "length buf + unat offset \<le> 256 \<Longrightarrow> st m h \<Longrightarrow> \<exists>r h'. run_state (get buf offset) h =
      ((r, map (\<lambda>i. m (offset + of_nat i)) [0..<length buf]), h') \<and> st m h' \<and> 0 \<le> r"
begin

lemma put_get:
  assumes "length data + unat offset \<le> 256" and "length buf = length data" and "st m h"
  shows "\<exists>h1 r h2. run_state (put data offset) h = (0, h1) \<and> run_state (get buf offset) h1 = ((r, data), h2) \<and> 0 \<le> r \<and>
    st (eeprom_put (unat offset) data m) h1 \<and> st (eeprom_put (unat offset) data m) h2"
proof -
  let ?m = "eeprom_put (unat offset) data m"
  obtain h1 where 1: "run_state (put data offset) h = (0, h1)" "st ?m h1"
    using yieldsD [OF put_law [OF assms(1)] assms(3)] by (metis prod.collapse)
  have "?m (offset + of_nat i) = data ! i" if "i < length data" for i
    using eeprom_put_nth [of i data "unat offset" m] that assms by simp
  then have "map (\<lambda>i. ?m (offset + of_nat i)) [0..<length buf] = data"
    using assms(2) by (intro nth_equalityI) simp_all
  with get_law [of buf offset ?m h1] 1 assms show ?thesis by auto
qed

end

definition eeprom_at :: "'h usb_ops \<Rightarrow> ('h \<Rightarrow> u8 \<Rightarrow> u8) \<Rightarrow> ('h \<Rightarrow> u8) \<Rightarrow> (u8 \<Rightarrow> u8) \<Rightarrow> 'h \<Rightarrow> bool" where
  "eeprom_at U mem ptr m h \<longleftrightarrow> eeprom_bus U mem ptr \<and> mem h = m"

interpretation eeprom: storage "rtlsdr_write_eeprom U" "rtlsdr_read_eeprom U" "eeprom_at U mem ptr"
  for U :: "'h usb_ops" and mem ptr
proof unfold_locales
  fix data :: "u8 list" and offset :: u8 and m
  assume "length data + unat offset \<le> 256"
  then show "yields (eeprom_at U mem ptr m) (rtlsdr_write_eeprom U data offset) 0
      (eeprom_at U mem ptr (eeprom_put (unat offset) data m))"
    using eeprom_write_bytes_stores [of U mem ptr m "unat offset" data]
    by (simp add: rtlsdr_write_eeprom_def eeprom_at_def yields_def)
next
  fix data :: "u8 list" and offset :: u8 and h
  assume "256 < length data + unat offset"
  then show "run_state (rtlsdr_write_eeprom U data offset) h = (-2, h)"
    by (simp add: rtlsdr_write_eeprom_def)
next
  fix buf :: "u8 list" and offset :: u8 and m h
  assume "length buf + unat offset \<le> 256" and "eeprom_at U mem ptr m h"
  then show "\<exists>r h'. run_state (rtlsdr_read_eeprom U buf offset) h =
      ((r, map (\<lambda>i. m (offset + of_nat i)) [0..<length buf]), h') \<and> eeprom_at U mem ptr m h' \<and> 0 \<le> r"
    using eeprom_read_back [of U mem ptr buf offset h] by (auto simp: eeprom_at_def)
qed

text \<open>A memory chip for the witnesses: contents and address counter.\<close>

definition eeprom_usb :: "((u8 \<Rightarrow> u8) \<times> u8) usb_ops" where
  "eeprom_usb =
     \<lparr>ctrl_out = (\<lambda>h a i d. (int (length d),
        case d of [r] \<Rightarrow> (fst h, r) | [r, v] \<Rightarrow> ((fst h)(r := v), snd h) | _ \<Rightarrow> h)),
      ctrl_in = (\<lambda>h a i n. (int n, replicate n (fst h (snd h)), (fst h, snd h + 1))),
      indet = (\<lambda>h n. 0)\<rparr>"

lemma eeprom_usb_bus: "eeprom_bus eeprom_usb fst snd"
  by (simp add: eeprom_bus_def eeprom_usb_def)

end
