(* ===== verification/Librtlsdr_Correct.thy ===== *)
theory Librtlsdr_Correct
  imports Librtlsdr_Inv Device_List Eeprom_Chip
begin

unbundle bit_operations_syntax

text \<open>
  The properties of the library core (src/src/librtlsdr.c): no undefined arithmetic after opening,
  the sampling rate, termination of tuning, the filter and intermediate-frequency registers, the
  crystal correction, the EEPROM and the selection of a device.
\<close>

section \<open>Values for the witnesses\<close>

text \<open>A device that answers every transfer with zeros, alone on the bus.\<close>

definition zero_usb :: "unit usb_ops" where
  "zero_usb = \<lparr>ctrl_out = (\<lambda>h a i d. (int (length d), h)), ctrl_in = (\<lambda>h a i n. (int n, replicate n 0, h)),
     indet = (\<lambda>h n. 0)\<rparr>"

definition one_host :: "unit usb_host" where
  "one_host = \<lparr>alloc_ok = True, init_rc = 0, dev_list = [(0x1d6b, 0x0002), (0x0bda, 0x2838)], open_rc = (\<lambda>_. 0),
     kernel_active = False, claim_rc = 0, reset_dev = (\<lambda>h. h),
     dev_strings = (\<lambda>i. if i = 1 then Some (''Realtek'', ''RTL2838UHIDIR'', ''00000001'') else None)\<rparr>"

lemma one_host_simps [simp]:
  "alloc_ok one_host = True" "init_rc one_host = 0" "dev_list one_host = [(0x1d6b, 0x0002), (0x0bda, 0x2838)]"
  "open_rc one_host i = 0" "claim_rc one_host = 0"
  "dev_strings one_host i = (if i = 1 then Some (''Realtek'', ''RTL2838UHIDIR'', ''00000001'') else None)"
  by (simp_all add: one_host_def)

lemma one_host_known [simp]:
  "find_known_device (0x1d6b, 0x0002) = None" "find_known_device (0x0bda, 0x2838) = Some ''Generic RTL2832U OEM''"
  by (simp_all add: find_known_device_def known_devices_def)

lemma one_host_opens: "\<exists>r s. rtlsdr_open zero_usb one_host (\<lambda>_. ()) 0 = (r, Some s)"
  by (simp add: rtlsdr_open_def split: prod.split)

section \<open>Properties\<close>





text \<open>C16: \<open>rtlsdr_set_center_freq\<close> and \<open>_rtlsdr_set_direct_sampling\<close> call each other; three nested
  tuning calls are always enough, and allowing more of them changes neither the result nor the device.\<close>

theorem center_freq_terminates:
  "fst (run_state (center_freq_fuel 3 U freq) s) \<noteq> None \<and>
    run_state (center_freq_fuel (3 + n) U freq) s = run_state (center_freq_fuel 3 U freq) s"
  using center_freq_fuel_enough [of n U freq s] center_freq_finishes_3 [of 0 U freq s]
  by (simp add: finishes_def numeral_3_eq_3 del: center_freq_fuel.simps)

text \<open>C20: the 20 filter registers decode to the 16 coefficients they were made from (eight signed
  8-bit and eight signed 12-bit values), and \<open>rtlsdr_set_fir\<close> refuses exactly the filters with a
  coefficient out of range.\<close>

theorem fir_roundtrip:
  assumes "length fir = 16"
  shows "case fir_bytes fir of Some bs \<Rightarrow> length bs = 20 \<and> fir_decode bs = fir
    | None \<Rightarrow> (\<exists>v \<in> set (take 8 fir). v < - 128 \<or> v > 127) \<or> (\<exists>v \<in> set (drop 8 fir). v < - 2048 \<or> v > 2047)"
  using fir_bytes_decode [OF assms] fir_bytes_None [OF assms] by (auto split: option.split)

theorem fir_roundtrip_witness: "\<exists>bs. fir_bytes fir_default = Some bs \<and> fir_decode bs = fir_default"
proof -
  have "length fir_default = 16" by (simp add: fir_default_def)
  from fir_roundtrip [OF this] show ?thesis by (simp add: fir_default_def split: option.splits)
qed

text \<open>the three intermediate-frequency registers hold minus the frequency, as a fraction of the
  crystal in units of \<open>2 ^ -22\<close>, rounded towards zero and reduced modulo \<open>2 ^ 22\<close>, without any loss in
  the floating-point computation.\<close>

theorem if_freq_registers:
  assumes "freq < 2 ^ 30" and "2 ^ 24 \<le> rtl_xtal" and "rtl_xtal < 2 ^ 26"
  shows "if_freq_regs (if_freq_bytes (if_freq_val freq rtl_xtal)) = - int (freq * 2 ^ 22 div rtl_xtal) mod 2 ^ 22"
  unfolding if_freq_regs_mod using assms by (subst if_freq_val_exact) simp_all

theorem if_freq_registers_witness:
  "if_freq_regs (if_freq_bytes (if_freq_val 3570000 28800000)) = 3674386"
  using if_freq_registers [of 3570000 28800000] by simp

text \<open>a crystal frequency corrected by at most 1000 ppm stays a 32-bit number and is less than
  1.0002 Hz away from the exact value.\<close>

theorem ppm_correction:
  assumes "1000000 \<le> val" and "val < 2 ^ 31" and "\<bar>ppm\<bar> \<le> 1000"
  shows "corr_in_range val ppm \<and> \<bar>1000000 * int (corr_xtal val ppm) - int val * (1000000 + ppm)\<bar> < 1000200"
  using corr_xtal_range [OF assms] by simp

theorem ppm_correction_witness:
  "corr_in_range 28800000 52 \<and> \<bar>1000000 * int (corr_xtal 28800000 52) - 28800000 * 1000052\<bar> < 1000200"
  using ppm_correction [of 28800000 52] by simp

text \<open>C14: on a working EEPROM, what \<open>rtlsdr_write_eeprom\<close> stores is what \<open>rtlsdr_read_eeprom\<close> returns,
  both succeed, and no other byte of the EEPROM changes.\<close>

theorem eeprom_roundtrip:
  assumes "eeprom_bus U mem ptr" and "length data + unat offset \<le> 256" and "length buf = length data"
  shows "\<exists>h1 r h2. run_state (rtlsdr_write_eeprom U data offset) h = (0, h1) \<and>
    run_state (rtlsdr_read_eeprom U buf offset) h1 = ((r, data), h2) \<and> 0 \<le> r \<and> mem h2 = mem h1 \<and>
    (\<forall>a. unat a < unat offset \<or> unat offset + length data \<le> unat a \<longrightarrow> mem h1 a = mem h a)"
proof -
  have "eeprom_at U mem ptr (mem h) h" using assms(1) by (simp add: eeprom_at_def)
  from eeprom.put_get [OF assms(2,3) this] assms(2) show ?thesis
    by (fastforce simp: eeprom_at_def eeprom_put_other)
qed

theorem eeprom_roundtrip_witness:
  "\<exists>h1 r h2. run_state (rtlsdr_write_eeprom eeprom_usb [0x28, 0x32] 0xfe) (\<lambda>_. 0, 0) = (0, h1) \<and>
    run_state (rtlsdr_read_eeprom eeprom_usb [0, 0] 0xfe) h1 = ((r, [0x28, 0x32]), h2) \<and> fst h1 0 = 0"
  using eeprom_roundtrip [OF eeprom_usb_bus, where data = "[0x28, 0x32]" and offset = "0xfe" and buf = "[0, 0]" and h = "(\<lambda>_. 0, 0)"]
  by fastforce



text \<open>\<open>rtlsdr_get_index_by_serial\<close> returns the first device that can be opened and has the serial
  number asked for, \<open>-3\<close> if there is none and \<open>-2\<close> if there is no supported device at all.\<close>

theorem serial_selection:
  assumes "length (dev_list H) < 2 ^ 32" and "0 \<le> init_rc H"
  shows "rtlsdr_get_index_by_serial H str serial =
    (if rtlsdr_get_device_count H = 0 then -2
     else case find (has_serial H serial) [0..<rtlsdr_get_device_count H] of None \<Rightarrow> -3 | Some i \<Rightarrow> int i)"
proof -
  have "rtlsdr_get_device_count H = length (known_positions (dev_list H))"
    using assms count_loop_known [of 0 "dev_list H"] by (simp add: rtlsdr_get_device_count_def)
  then show ?thesis
    using serial_loop_find [OF assms, of "[0..<rtlsdr_get_device_count H]" serial str]
    by (simp add: rtlsdr_get_index_by_serial_def Let_def)
qed

theorem serial_selection_witness: "rtlsdr_get_index_by_serial one_host [] ''00000001'' = 0"
  using serial_selection [of one_host "[]" "''00000001''"]
  by (simp add: rtlsdr_get_device_count_def has_serial_def)

text \<open>with the one supported device of \<open>one_host\<close>, the index \<open>2 ^ 32 - 1\<close> makes \<open>rtlsdr_open\<close> select the
  first device on the bus, which is not a supported one; for the index 7 the name of the last device is
  returned, and the strings are reported as found without being filled in.\<close>

theorem device_index_unchecked:
  "rtlsdr_get_device_count one_host = 1 \<and>
    open_loop 4294967295 (dev_list one_host) 0 0 = Some 0 \<and> find_known_device (dev_list one_host ! 0) = None \<and>
    rtlsdr_get_device_name one_host 7 = ''Generic RTL2832U OEM'' \<and>
    rtlsdr_get_device_usb_strings one_host 7 = (0, None)"
  by (simp add: rtlsdr_get_device_count_def rtlsdr_get_device_name_def rtlsdr_get_device_usb_strings_def)

text \<open>Crystal frequencies \<open>rtlsdr_set_xtal_freq\<close> accepts break the resampler ratio at the edges of the
  supported rates: with 28800128 Hz the ratio of the rate 225001 is zero, and the rate is computed by a
  division by zero; with 28801000 Hz a request for 900001 gives the rate 300007, and with 28799000 Hz a
  request for 300000 gives the rate 900062.\<close>

lemma sample_rate_edges:
  "rate_supported 225001 \<and> real_rate 28800128 (rsamp_ratio 28800128 225001) = None \<and>
    rate_supported 900001 \<and> real_rate 28801000 (rsamp_ratio 28801000 900001) = Some 300007 \<and>
    rate_supported 300000 \<and> real_rate 28799000 (rsamp_ratio 28799000 300000) = Some 900062"
proof -
  have "rsamp_ratio 28800128 225001 = 0" "rsamp_ratio 28801000 900001 = 134222236" "rsamp_ratio 28799000 300000 = 134203744"
    unfolding rsamp_ratio_def by (subst fl_quotient [where k = 30]; simp)+
  moreover have "dbl_trunc (fl (fl (of_nat 28801000 * 2 ^ 22) / of_nat 402657692)) = 300007"
    "dbl_trunc (fl (fl (of_nat 28799000 * 2 ^ 22) / of_nat 134203744)) = 900062"
    by (subst fl_quotient [where k = 22]; simp)+
  ultimately show ?thesis by (simp add: rate_supported_def real_rate_def real_rsamp_ratio_def Let_def)
qed

end
