(* ===== verification/Librtlsdr_Async.thy ===== *)
theory Librtlsdr_Async
  imports Prelude
begin

text \<open>
  Streaming (the second half of src/src/librtlsdr.c): the transfers of \<open>rtlsdr_read_async\<close>, the callback of
  libusb, and cancelling, as a step relation in which libusb completes transfers in any order and other threads
  cancel at any time. Allocation succeeds and zero-copy buffers, a build option, are left out.
\<close>

section \<open>State\<close>

datatype rtlsdr_async_status = RTLSDR_INACTIVE | RTLSDR_CANCELING | RTLSDR_RUNNING

datatype transfer_status =
  TRANSFER_COMPLETED | TRANSFER_ERROR | TRANSFER_TIMED_OUT | TRANSFER_CANCELLED | TRANSFER_STALL
| TRANSFER_NO_DEVICE | TRANSFER_OVERFLOW

text \<open>A transfer: its status, and whether it is in flight, that is, submitted and not yet reported.\<close>

record transfer =
  x_status :: transfer_status
  in_flight :: bool

text \<open>The fields of the device structure for streaming. \<open>a_xfer\<close> is \<open>None\<close> for the null pointer.
  \<open>a_delivered\<close> are the buffers given to the user's callback, \<open>a_freed_active\<close> says that a transfer
  in flight was freed, \<open>a_events_failed\<close> that handling events failed.\<close>

record async =
  a_status :: rtlsdr_async_status
  a_cancel :: bool
  a_buf_num :: nat
  a_buf_len :: nat
  a_xfer :: "transfer list option"
  a_errors :: nat
  a_dev_lost :: bool
  a_delivered :: "u8 list list"
  a_freed_active :: bool
  a_events_failed :: bool

abbreviation (input) DEFAULT_BUF_NUMBER :: nat where "DEFAULT_BUF_NUMBER \<equiv> 15"
abbreviation (input) DEFAULT_BUF_LENGTH :: nat where "DEFAULT_BUF_LENGTH \<equiv> 16 * 32 * 512"

definition async_zero :: async where
  "async_zero = \<lparr>a_status = RTLSDR_INACTIVE, a_cancel = False, a_buf_num = 0, a_buf_len = 0, a_xfer = None, a_errors = 0,
     a_dev_lost = False, a_delivered = [], a_freed_active = False, a_events_failed = False\<rparr>"

section \<open>Operations\<close>

definition rtlsdr_cancel_async :: "async \<Rightarrow> int \<times> async" where
  "rtlsdr_cancel_async s =
     (if a_status s = RTLSDR_RUNNING then (0, s\<lparr>a_status := RTLSDR_CANCELING, a_cancel := True\<rparr>) else (-2, s))"

text \<open>\<open>_libusb_callback\<close> for transfer \<open>i\<close> with the status \<open>st\<close> that libusb has stored: the transfer is no
  longer in flight; \<open>submit_ok\<close> is the outcome of submitting it again, which the code ignores.\<close>

definition libusb_callback :: "nat \<Rightarrow> transfer_status \<Rightarrow> u8 list \<Rightarrow> bool \<Rightarrow> async \<Rightarrow> async" where
  "libusb_callback i st data submit_ok s =
     (case a_xfer s of None \<Rightarrow> s
      | Some xs \<Rightarrow>
        if st = TRANSFER_COMPLETED
        then s\<lparr>a_xfer := Some (xs[i := \<lparr>x_status = st, in_flight = submit_ok\<rparr>]),
               a_delivered := a_delivered s @ [data], a_errors := 0\<rparr>
        else let s = s\<lparr>a_xfer := Some (xs[i := \<lparr>x_status = st, in_flight = False\<rparr>])\<rparr> in
          if st = TRANSFER_CANCELLED then s
          else let s = (if st = TRANSFER_ERROR then s\<lparr>a_errors := a_errors s + 1\<rparr> else s) in
            if a_errors s \<ge> a_buf_num s \<or> st = TRANSFER_NO_DEVICE
            then snd (rtlsdr_cancel_async (s\<lparr>a_dev_lost := True\<rparr>)) else s)"

definition alloc_async_buffers :: "async \<Rightarrow> async" where
  "alloc_async_buffers s =
     (case a_xfer s of
        None \<Rightarrow> s\<lparr>a_xfer := Some (replicate (a_buf_num s) \<lparr>x_status = TRANSFER_COMPLETED, in_flight = False\<rparr>)\<rparr>
      | Some _ \<Rightarrow> s)"

definition free_async_buffers :: "async \<Rightarrow> async" where
  "free_async_buffers s =
     (case a_xfer s of None \<Rightarrow> s
      | Some xs \<Rightarrow> s\<lparr>a_xfer := None, a_freed_active := a_freed_active s \<or> (\<exists>x \<in> set xs. in_flight x)\<rparr>)"

text \<open>The loop that submits the transfers, with the results of \<open>libusb_submit_transfer\<close>.\<close>

fun submit_loop :: "int list \<Rightarrow> nat \<Rightarrow> transfer list \<Rightarrow> transfer list \<times> bool" where
  "submit_loop [] i xs = (xs, True)"
| "submit_loop (r # rs) i xs =
     (if i < length xs
      then if r < 0 then (xs, False) else submit_loop rs (i + 1) (xs[i := (xs ! i)\<lparr>in_flight := True\<rparr>])
      else (xs, True))"

text \<open>\<open>rtlsdr_read_async\<close> up to its event loop.\<close>

definition read_async_start :: "nat \<Rightarrow> nat \<Rightarrow> int list \<Rightarrow> async \<Rightarrow> async" where
  "read_async_start buf_num buf_len rs s =
     (let s = alloc_async_buffers (s\<lparr>a_status := RTLSDR_RUNNING, a_cancel := False,
            a_buf_num := (if buf_num > 0 then buf_num else DEFAULT_BUF_NUMBER),
            a_buf_len := (if buf_len > 0 \<and> buf_len mod 512 = 0 then buf_len else DEFAULT_BUF_LENGTH)\<rparr>)
      in case submit_loop rs 0 (the (a_xfer s)) of (xs, ok) \<Rightarrow>
           s\<lparr>a_xfer := Some xs, a_status := (if ok then RTLSDR_RUNNING else RTLSDR_CANCELING)\<rparr>)"

text \<open>Its end: the buffers are freed, then the status is set.\<close>

definition read_async_end :: "rtlsdr_async_status \<Rightarrow> async \<Rightarrow> async" where
  "read_async_end next_status s = (free_async_buffers s)\<lparr>a_status := next_status\<rparr>"

section \<open>The event loop\<close>

text \<open>Where the thread of \<open>rtlsdr_read_async\<close> is: outside of it, waiting for events, or cancelling, before
  transfer \<open>i\<close>, with the value of \<open>next_status\<close>.\<close>

datatype place = Out | Polling | Cancelling nat rtlsdr_async_status

text \<open>
  The steps: starting (one result per transfer), the callback for a transfer in flight (libusb calls it while
  it handles events), a call of \<open>rtlsdr_cancel_async\<close> from any thread, the return of the event handling, and the rounds of the
  cancelling loop. A negative result of \<open>libusb_cancel_transfer\<close> means that the transfer was not in flight.
\<close>

inductive async_step :: "place \<times> async \<Rightarrow> place \<times> async \<Rightarrow> bool" where
  start: "a_status s = RTLSDR_INACTIVE \<Longrightarrow>
    length rs = (if buf_num > 0 then buf_num else DEFAULT_BUF_NUMBER) \<Longrightarrow>
    async_step (Out, s) (Polling, read_async_start buf_num buf_len rs s)"
| callback: "at \<noteq> Out \<Longrightarrow> a_xfer s = Some xs \<Longrightarrow> i < length xs \<Longrightarrow> in_flight (xs ! i) \<Longrightarrow>
    async_step (at, s) (at, libusb_callback i st data submit_ok s)"
| cancel: "async_step (at, s) (at, snd (rtlsdr_cancel_async s))"
| idle: "async_step (Polling, s) (Polling, s)"
| events_failed: "async_step (Polling, s) (Out, read_async_end RTLSDR_INACTIVE (s\<lparr>a_events_failed := True\<rparr>))"
| polled: "a_status s = RTLSDR_CANCELING \<Longrightarrow> async_step (Polling, s) (Cancelling 0 RTLSDR_INACTIVE, s)"
| was_cancelled: "a_xfer s = Some xs \<Longrightarrow> i < length xs \<Longrightarrow> x_status (xs ! i) = TRANSFER_CANCELLED \<Longrightarrow>
    async_step (Cancelling i next_status, s) (Cancelling (i + 1) next_status, s)"
| cancel_transfer: "a_xfer s = Some xs \<Longrightarrow> i < length xs \<Longrightarrow> x_status (xs ! i) \<noteq> TRANSFER_CANCELLED \<Longrightarrow>
    ((r :: int) < 0 \<longrightarrow> \<not> in_flight (xs ! i)) \<Longrightarrow>
    async_step (Cancelling i next_status, s) (Cancelling (i + 1) (if r < 0 then next_status else RTLSDR_CANCELING), s)"
| leave: "a_xfer s = Some xs \<Longrightarrow> i = length xs \<Longrightarrow> a_dev_lost s \<or> next_status = RTLSDR_INACTIVE \<Longrightarrow>
    async_step (Cancelling i next_status, s) (Out, read_async_end next_status s)"
| again: "a_xfer s = Some xs \<Longrightarrow> i = length xs \<Longrightarrow> \<not> a_dev_lost s \<Longrightarrow> next_status \<noteq> RTLSDR_INACTIVE \<Longrightarrow>
    async_step (Cancelling i next_status, s) (Polling, s)"

section \<open>Invariant\<close>

text \<open>The transfers exist exactly while \<open>rtlsdr_read_async\<close> runs; a cancelled transfer is not in flight; the
  transfers before the index of the cancelling loop are not in flight as long as \<open>next_status\<close> is inactive;
  a transfer in flight was freed only when the device was lost or the handling of events failed.\<close>

definition async_inv :: "place \<times> async \<Rightarrow> bool" where
  "async_inv p = (case p of (at, s) \<Rightarrow>
     (a_freed_active s \<longrightarrow> a_dev_lost s \<or> a_events_failed s) \<and>
     (case at of Out \<Rightarrow> a_xfer s = None \<and> a_status s \<noteq> RTLSDR_RUNNING \<and> (\<not> a_dev_lost s \<longrightarrow> a_status s = RTLSDR_INACTIVE)
      | Polling \<Rightarrow> a_status s \<noteq> RTLSDR_INACTIVE \<and>
          (\<exists>xs. a_xfer s = Some xs \<and> length xs = a_buf_num s \<and>
             (\<forall>x \<in> set xs. x_status x = TRANSFER_CANCELLED \<longrightarrow> \<not> in_flight x))
      | Cancelling i next_status \<Rightarrow> a_status s = RTLSDR_CANCELING \<and> next_status \<noteq> RTLSDR_RUNNING \<and>
          (\<exists>xs. a_xfer s = Some xs \<and> length xs = a_buf_num s \<and> i \<le> length xs \<and>
             (\<forall>x \<in> set xs. x_status x = TRANSFER_CANCELLED \<longrightarrow> \<not> in_flight x) \<and>
             (next_status = RTLSDR_INACTIVE \<longrightarrow> (\<forall>j < i. \<not> in_flight (xs ! j))))))"

lemma submit_loop_status:
  "submit_loop rs i xs = (ys, ok) \<Longrightarrow> \<forall>x \<in> set xs. x_status x = TRANSFER_COMPLETED \<Longrightarrow>
    length ys = length xs \<and> (\<forall>y \<in> set ys. x_status y = TRANSFER_COMPLETED)"
proof (induction rs i xs rule: submit_loop.induct)
  case (2 r rs i xs)
  have "\<forall>x \<in> set (xs[i := (xs ! i)\<lparr>in_flight := True\<rparr>]). x_status x = TRANSFER_COMPLETED" if "i < length xs"
    using 2(3) that by (auto dest!: set_update_subset_insert [THEN subsetD])
  with 2 show ?case by (auto split: if_splits)
qed auto

lemma inv_start:
  assumes "async_inv (Out, s)"
  shows "async_inv (Polling, read_async_start n l rs s)"
proof -
  have x: "a_xfer s = None" using assms by (simp add: async_inv_def)
  define m where "m = (if n > 0 then n else 15)"
  obtain ys ok where y: "submit_loop rs 0 (replicate m \<lparr>x_status = TRANSFER_COMPLETED, in_flight = False\<rparr>) = (ys, ok)" by fastforce
  from submit_loop_status [OF this] have "length ys = m" "\<forall>y \<in> set ys. x_status y = TRANSFER_COMPLETED" by auto
  with assms x y show ?thesis
    by (auto simp: async_inv_def read_async_start_def alloc_async_buffers_def Let_def m_def)
qed

lemma inv_update:
  assumes "\<forall>x \<in> set xs. x_status x = TRANSFER_CANCELLED \<longrightarrow> \<not> in_flight x" and "st = TRANSFER_CANCELLED \<longrightarrow> \<not> b"
  shows "\<forall>x \<in> set (xs[i := \<lparr>x_status = st, in_flight = b\<rparr>]). x_status x = TRANSFER_CANCELLED \<longrightarrow> \<not> in_flight x"
  using assms by (auto dest!: set_update_subset_insert [THEN subsetD])

lemma inv_callback:
  assumes "async_inv (at, s)" and "a_xfer s = Some xs" and "i < length xs" and "in_flight (xs ! i)" and "at \<noteq> Out"
  shows "async_inv (at, libusb_callback i st data ok s)"
proof -
  define b where "b = (st = TRANSFER_COMPLETED \<and> ok)"
  let ?xs = "xs[i := \<lparr>x_status = st, in_flight = b\<rparr>]"
  have c: "a_xfer (libusb_callback i st data ok s) = Some ?xs" "a_buf_num (libusb_callback i st data ok s) = a_buf_num s"
    "a_freed_active (libusb_callback i st data ok s) = a_freed_active s"
    "a_dev_lost s \<Longrightarrow> a_dev_lost (libusb_callback i st data ok s)"
    "a_events_failed (libusb_callback i st data ok s) = a_events_failed s"
    "a_status (libusb_callback i st data ok s) = a_status s \<or> a_status s = RTLSDR_RUNNING \<and> a_status (libusb_callback i st data ok s) = RTLSDR_CANCELING"
    using assms(2) by (auto simp: libusb_callback_def rtlsdr_cancel_async_def b_def Let_def)
  have u: "\<forall>x \<in> set ?xs. x_status x = TRANSFER_CANCELLED \<longrightarrow> \<not> in_flight x"
    if "\<forall>x \<in> set xs. x_status x = TRANSFER_CANCELLED \<longrightarrow> \<not> in_flight x"
    using inv_update [OF that, of st b i] by (auto simp: b_def)
  show ?thesis
  proof (cases at)
    case Polling
    with assms(1,2) c u show ?thesis by (auto simp: async_inv_def)
  next
    case (Cancelling j ns)
    have "\<not> in_flight (?xs ! k)" if "ns = RTLSDR_INACTIVE" "k < j" for k
    proof -
      have "\<not> in_flight (xs ! k)" using assms(1,2) that by (auto simp: async_inv_def Cancelling)
      then show ?thesis using assms(4) by (cases "k = i") auto
    qed
    with Cancelling assms(1,2) c u show ?thesis by (auto simp: async_inv_def)
  qed (use assms(5) in simp)
qed

lemma inv_end:
  assumes "a_xfer s = Some xs" and "ns \<noteq> RTLSDR_RUNNING" and "\<not> a_dev_lost s \<longrightarrow> ns = RTLSDR_INACTIVE"
    and "a_freed_active s \<longrightarrow> a_dev_lost s \<or> a_events_failed s"
    and "a_dev_lost s \<or> a_events_failed s \<or> (\<forall>x \<in> set xs. \<not> in_flight x)"
  shows "async_inv (Out, read_async_end ns s)"
  using assms by (auto simp: async_inv_def read_async_end_def free_async_buffers_def)

lemma inv_step: "async_step p p' \<Longrightarrow> async_inv p \<Longrightarrow> async_inv p'"
proof (induction rule: async_step.induct)
  case (start s rs n l)
  then show ?case by (intro inv_start)
next
  case (callback at s xs i st data ok)
  then show ?case by (intro inv_callback)
next
  case (cancel at s)
  then show ?case by (cases at) (auto simp: async_inv_def rtlsdr_cancel_async_def)
next
  case (events_failed s)
  then obtain xs where "a_xfer s = Some xs" by (auto simp: async_inv_def)
  with events_failed show ?case by (intro inv_end [of _ xs]) (auto simp: async_inv_def)
next
  case (was_cancelled s xs i ns)
  then have "\<not> in_flight (xs ! i)" by (auto simp: async_inv_def)
  with was_cancelled show ?case by (auto simp: async_inv_def less_Suc_eq)
next
  case (cancel_transfer s xs i r ns)
  then show ?case by (auto simp: async_inv_def less_Suc_eq)
next
  case (leave s xs i ns)
  then show ?case by (intro inv_end [of _ xs]) (auto simp: async_inv_def in_set_conv_nth)
qed (auto simp: async_inv_def)

lemma inv_reachable: "async_step\<^sup>*\<^sup>* (Out, async_zero) p \<Longrightarrow> async_inv p"
proof (induction rule: rtranclp_induct)
  case base
  show ?case by (simp add: async_inv_def async_zero_def)
qed (rule inv_step)

section \<open>Runs\<close>

abbreviation run :: "place \<times> async \<Rightarrow> place \<times> async \<Rightarrow> bool" where
  "run \<equiv> async_step\<^sup>*\<^sup>*"

definition two_running :: async where
  "two_running = read_async_start 2 512 [0, 0] async_zero"

lemma two_running_simps:
  "a_xfer two_running = Some (replicate 2 \<lparr>x_status = TRANSFER_COMPLETED, in_flight = True\<rparr>)"
  "a_buf_num two_running = 2" "a_status two_running = RTLSDR_RUNNING" "a_errors two_running = 0"
  "\<not> a_dev_lost two_running" "a_delivered two_running = []" "\<not> a_freed_active two_running"
  by (simp_all add: two_running_def read_async_start_def alloc_async_buffers_def async_zero_def Let_def numeral_2_eq_2)

lemma two_started: "run (Out, async_zero) (Polling, two_running)"
  unfolding two_running_def
  by (rule r_into_rtranclp, rule async_step.start) (simp_all add: async_zero_def)

lemma run_callback:
  assumes "run p (at, s)" and "at \<noteq> Out" and "a_xfer s = Some xs" and "i < length xs" and "in_flight (xs ! i)"
  shows "run p (at, libusb_callback i st data ok s)"
  using assms(1) by (rule rtranclp.rtrancl_into_rtrancl) (rule async_step.callback [OF assms(2-5)])

text \<open>A device that goes away: the transfer still in flight is freed.\<close>

lemma lost_frees: "\<exists>s. run (Out, async_zero) (Out, s) \<and> a_freed_active s \<and> a_status s = RTLSDR_CANCELING"
proof -
  let ?s = "libusb_callback 0 TRANSFER_NO_DEVICE [] True two_running"
  have x: "a_xfer ?s = Some [\<lparr>x_status = TRANSFER_NO_DEVICE, in_flight = False\<rparr>, \<lparr>x_status = TRANSFER_COMPLETED, in_flight = True\<rparr>]"
    "a_status ?s = RTLSDR_CANCELING" "a_dev_lost ?s"
    by (simp_all add: libusb_callback_def two_running_simps rtlsdr_cancel_async_def Let_def numeral_2_eq_2)
  have 1: "run (Out, async_zero) (Polling, ?s)"
    by (rule run_callback [OF two_started _ two_running_simps(1)]) simp_all
  have 2: "async_step (Polling, ?s) (Cancelling 0 RTLSDR_INACTIVE, ?s)" by (rule async_step.polled [OF x(2)])
  have 3: "async_step (Cancelling 0 RTLSDR_INACTIVE, ?s) (Cancelling 1 RTLSDR_INACTIVE, ?s)"
    using async_step.cancel_transfer [OF x(1), of 0 "-5" RTLSDR_INACTIVE] by simp
  have 4: "async_step (Cancelling 1 RTLSDR_INACTIVE, ?s) (Cancelling 2 RTLSDR_CANCELING, ?s)"
    using async_step.cancel_transfer [OF x(1), of 1 0 RTLSDR_INACTIVE] by (simp add: numeral_2_eq_2)
  have 5: "async_step (Cancelling 2 RTLSDR_CANCELING, ?s) (Out, read_async_end RTLSDR_CANCELING ?s)"
    by (rule async_step.leave [OF x(1)]) (simp_all add: x(3))
  note rtranclp.rtrancl_into_rtrancl [OF rtranclp.rtrancl_into_rtrancl [OF rtranclp.rtrancl_into_rtrancl
    [OF rtranclp.rtrancl_into_rtrancl [OF 1 2] 3] 4] 5]
  then show ?thesis using x by (auto simp: read_async_end_def free_async_buffers_def)
qed

text \<open>Errors that are not consecutive: each takes a transfer out of service, the counter never reaches the
  number of transfers.\<close>

lemma errors_stall:
  "\<exists>s. run (Out, async_zero) (Polling, s) \<and> a_status s = RTLSDR_RUNNING \<and> \<not> a_dev_lost s \<and> a_delivered s = [data] \<and>
    (\<exists>xs. a_xfer s = Some xs \<and> (\<forall>x \<in> set xs. \<not> in_flight x))"
proof -
  let ?a = "libusb_callback 0 TRANSFER_ERROR [] True two_running"
  let ?b = "libusb_callback (Suc 0) TRANSFER_COMPLETED data True ?a"
  let ?c = "libusb_callback (Suc 0) TRANSFER_ERROR [] True ?b"
  let ?e = "\<lparr>x_status = TRANSFER_ERROR, in_flight = False\<rparr>" and ?f = "\<lparr>x_status = TRANSFER_COMPLETED, in_flight = True\<rparr>"
  have a: "a_xfer ?a = Some [?e, ?f]" "a_errors ?a = 1" "a_buf_num ?a = 2" "a_status ?a = RTLSDR_RUNNING" "\<not> a_dev_lost ?a" "a_delivered ?a = []"
    by (simp_all add: libusb_callback_def two_running_simps Let_def numeral_2_eq_2)
  have b: "a_xfer ?b = Some [?e, ?f]" "a_errors ?b = 0" "a_buf_num ?b = 2" "a_status ?b = RTLSDR_RUNNING" "\<not> a_dev_lost ?b" "a_delivered ?b = [data]"
    using a by (simp_all add: libusb_callback_def [of "Suc 0" TRANSFER_COMPLETED])
  have c: "a_xfer ?c = Some [?e, ?e]" "a_status ?c = RTLSDR_RUNNING" "\<not> a_dev_lost ?c" "a_delivered ?c = [data]"
    using b by (simp_all add: libusb_callback_def [of "Suc 0" TRANSFER_ERROR] Let_def)
  have "run (Out, async_zero) (Polling, ?a)" by (rule run_callback [OF two_started _ two_running_simps(1)]) simp_all
  then have "run (Out, async_zero) (Polling, ?b)" by (rule run_callback [OF _ _ a(1)]) simp_all
  then have "run (Out, async_zero) (Polling, ?c)" by (rule run_callback [OF _ _ b(1)]) simp_all
  with c show ?thesis by (intro exI [of _ ?c]) auto
qed

section \<open>Properties\<close>



text \<open>C40: two runs that go wrong. When the device is lost, the code stops after a single round of
  cancelling, and a transfer libusb still works on is freed, with the status left at cancelling. When errors are not
  consecutive, every failed transfer stays out of service while each success clears the counter: the
  stream ends with no transfer in flight, still running and not reported as lost.\<close>

theorem async_failures:
  "(\<exists>s. async_step\<^sup>*\<^sup>* (Out, async_zero) (Out, s) \<and> a_freed_active s \<and> a_status s = RTLSDR_CANCELING) \<and>
   (\<exists>s xs. async_step\<^sup>*\<^sup>* (Out, async_zero) (Polling, s) \<and> a_status s = RTLSDR_RUNNING \<and> \<not> a_dev_lost s \<and>
     a_delivered s \<noteq> [] \<and> a_xfer s = Some xs \<and> list_all (\<lambda>x. \<not> in_flight x) xs)"
  using lost_frees errors_stall [of "[0]"] by (fastforce simp: list_all_iff)

end
