(* ===== verification/Convenience.thy ===== *)
theory Convenience
  imports Device_List Librtlsdr_Inv "HOL-Library.Sublist"
begin

text \<open>
  The helper functions of the tools (src/src/convenience/convenience.c): numbers with suffixes, the
  settings with messages, the gain next to a wanted one, the search for a device by number or
  serial number, and the argument vector of background commands. The time parsers, which no tool calls,
  and \<open>fork\<close> are not modelled.
\<close>

section \<open>Numbers in strings\<close>

text \<open>The functions of the C library that the tools use, on strings without the final zero byte:
  \<open>strtol\<close> with base 0 (the value and the rest of the string), \<open>atoi\<close>, and \<open>atof\<close> on
  decimal notation (not on hexadecimal notation, infinities and NaN).\<close>

definition isspace :: "char \<Rightarrow> bool" where
  "isspace c \<longleftrightarrow> of_char c \<in> {9, 10, 11, 12, 13, 32 :: nat}"

definition digit_val :: "char \<Rightarrow> nat" where
  "digit_val c = (let n = of_char c in
     if 48 \<le> n \<and> n \<le> 57 then n - 48 else if 97 \<le> n \<and> n \<le> 102 then n - 87
     else if 65 \<le> n \<and> n \<le> 70 then n - 55 else 99)"

definition digits :: "nat \<Rightarrow> string \<Rightarrow> string" where
  "digits base s = takeWhile (\<lambda>c. digit_val c < base) s"

definition digits_val :: "nat \<Rightarrow> string \<Rightarrow> nat" where
  "digits_val base ds = foldl (\<lambda>n c. n * base + digit_val c) 0 ds"

definition sign_of :: "string \<Rightarrow> bool \<times> string" where
  "sign_of s = (case s of [] \<Rightarrow> (False, []) | c # cs \<Rightarrow>
     if c = CHR ''-'' then (True, cs) else if c = CHR ''+'' then (False, cs) else (False, s))"

definition clamp_long :: "int \<Rightarrow> int" where
  "clamp_long x = max (- (2 ^ 63)) (min (2 ^ 63 - 1) x)"

definition strtol0 :: "string \<Rightarrow> int \<times> string" where
  "strtol0 s = (let (neg, t) = sign_of (dropWhile isspace s);
       hex = (take 2 t \<in> {''0x'', ''0X''} \<and> digits 16 (drop 2 t) \<noteq> []);
       base = (if hex then 16 else if take 1 t = ''0'' then 8 else 10 :: nat);
       u = (if hex then drop 2 t else t); ds = digits base u; v = int (digits_val base ds)
     in if ds = [] then (0, s) else (clamp_long (if neg then - v else v), drop (length ds) u))"

definition atoi :: "string \<Rightarrow> int" where
  "atoi s = (let (neg, t) = sign_of (dropWhile isspace s); v = int (digits_val 10 (digits 10 t))
     in to_int32 (clamp_long (if neg then - v else v)))"

definition atof :: "string \<Rightarrow> rat" where
  "atof s = (let (neg, t) = sign_of (dropWhile isspace s);
       ip = digits 10 t; t1 = drop (length ip) t;
       fp = (if take 1 t1 = ''.'' then digits 10 (drop 1 t1) else []);
       t2 = (if take 1 t1 = ''.'' then drop (1 + length fp) t1 else t1);
       (eneg, t3) = (if take 1 t2 \<in> {''e'', ''E''} then sign_of (drop 1 t2) else (False, []));
       ex = int (digits_val 10 (digits 10 t3));
       m = of_nat (digits_val 10 (ip @ fp)) * 10 powi ((if eneg then - ex else ex) - int (length fp))
     in fl (if neg then - m else m))"

section \<open>Suffixes\<close>

text \<open>\<open>None\<close>: the string is empty, and the byte before it is overwritten. The products are those of
  the C code: \<open>1e3\<close> and 60 are exact, \<open>0.01\<close> is rounded.\<close>

definition trim_len :: "string \<Rightarrow> nat" where
  "trim_len s = max 1 (length s - length (takeWhile isspace (rev s)))"

definition atofs :: "string \<Rightarrow> rat option" where
  "atofs s = (if s = [] then None else
     let len = trim_len s; last = s ! (len - 1); s1 = take (len - 1) s in
     Some (if last \<in> {CHR ''g'', CHR ''G''} then fl (10 ^ 9 * atof s1)
       else if last \<in> {CHR ''m'', CHR ''M''} then fl (10 ^ 6 * atof s1)
       else if last \<in> {CHR ''k'', CHR ''K''} then fl (10 ^ 3 * atof s1)
       else atof s))"

definition atoft :: "string \<Rightarrow> rat option" where
  "atoft s = (if s = [] then None else
     let last = List.last s; s1 = butlast s in
     Some (if last \<in> {CHR ''h'', CHR ''H''} then fl (3600 * atof s1)
       else if last \<in> {CHR ''m'', CHR ''M''} then fl (60 * atof s1)
       else if last \<in> {CHR ''s'', CHR ''S''} then fl (1 * atof s1)
       else atof s))"

definition atofp :: "string \<Rightarrow> rat option" where
  "atofp s = (if s = [] then None else
     let last = List.last s; s1 = butlast s in
     Some (if last = CHR ''%'' then fl (fl (1 / 100) * atof s1) else atof s))"

section \<open>Settings with messages\<close>

fun nearest_loop :: "int \<Rightarrow> int list \<Rightarrow> int \<Rightarrow> int" where
  "nearest_loop target_gain [] nearest = nearest"
| "nearest_loop target_gain (g # gains) nearest =
     nearest_loop target_gain gains (if \<bar>target_gain - g\<bar> < \<bar>target_gain - nearest\<bar> then g else nearest)"

definition nearest_gain :: "'h usb_ops \<Rightarrow> int \<Rightarrow> ('h rtlsdr, int) prog" where
  "nearest_gain U target_gain = do {
     r \<leftarrow> rtlsdr_set_tuner_gain_mode U True;
     if r < 0 then ret r
     else do {
       (count, gains) \<leftarrow> rtlsdr_get_tuner_gains;
       if count \<le> 0 then ret 0 else ret (nearest_loop target_gain gains (gains ! 0)) } }"

text \<open>The messages on \<open>stderr\<close> are left out.\<close>

definition verbose_set_frequency :: "'h usb_ops \<Rightarrow> nat \<Rightarrow> ('h rtlsdr, int) prog" where
  "verbose_set_frequency U frequency = rtlsdr_set_center_freq U frequency"

definition verbose_set_sample_rate :: "'h usb_ops \<Rightarrow> nat \<Rightarrow> ('h rtlsdr, int) prog" where
  "verbose_set_sample_rate U samp_rate = rtlsdr_set_sample_rate U samp_rate"

definition verbose_direct_sampling :: "'h usb_ops \<Rightarrow> int \<Rightarrow> ('h rtlsdr, int) prog" where
  "verbose_direct_sampling U on = rtlsdr_set_direct_sampling U on"

definition verbose_offset_tuning :: "'h usb_ops \<Rightarrow> ('h rtlsdr, int) prog" where
  "verbose_offset_tuning U = rtlsdr_set_offset_tuning U True"

definition verbose_auto_gain :: "'h usb_ops \<Rightarrow> ('h rtlsdr, int) prog" where
  "verbose_auto_gain U = rtlsdr_set_tuner_gain_mode U False"

definition verbose_gain_set :: "'h usb_ops \<Rightarrow> int \<Rightarrow> ('h rtlsdr, int) prog" where
  "verbose_gain_set U gain = do {
     r \<leftarrow> rtlsdr_set_tuner_gain_mode U True;
     if r < 0 then ret r else rtlsdr_set_tuner_gain U gain }"

definition verbose_ppm_set :: "'h usb_ops \<Rightarrow> int \<Rightarrow> ('h rtlsdr, int) prog" where
  "verbose_ppm_set U ppm_error = (if ppm_error = 0 then ret 0 else rtlsdr_set_freq_correction U ppm_error)"

definition verbose_reset_buffer :: "'h usb_ops \<Rightarrow> ('h rtlsdr, int) prog" where
  "verbose_reset_buffer U = rtlsdr_reset_buffer U"

section \<open>Searching a device\<close>

text \<open>\<open>serial\<close> is the buffer of the C code: a call that fails leaves it as it was. Each loop
  returns the first device that matches, if any, and the buffer.\<close>

definition device_serial :: "'h usb_host \<Rightarrow> nat \<Rightarrow> string \<Rightarrow> string" where
  "device_serial H i serial = (case snd (rtlsdr_get_device_usb_strings H i) of None \<Rightarrow> serial | Some (_, _, s) \<Rightarrow> s)"

fun search_loop :: "'h usb_host \<Rightarrow> (string \<Rightarrow> bool) \<Rightarrow> nat list \<Rightarrow> string \<Rightarrow> nat option \<times> string" where
  "search_loop H matches [] serial = (None, serial)"
| "search_loop H matches (i # is) serial =
     (let serial = device_serial H i serial
      in if matches serial then (Some i, serial) else search_loop H matches is serial)"

definition prefix_match :: "string \<Rightarrow> string \<Rightarrow> bool" where
  "prefix_match s serial \<longleftrightarrow> take (length s) serial = s"

definition suffix_match :: "string \<Rightarrow> string \<Rightarrow> bool" where
  "suffix_match s serial \<longleftrightarrow>
     (let offset = int (length serial) - int (length s) in 0 \<le> offset \<and> take (length s) (drop (nat offset) serial) = s)"

definition verbose_device_search :: "'h usb_host \<Rightarrow> string \<Rightarrow> string \<Rightarrow> int" where
  "verbose_device_search H serial s =
     (let device_count = rtlsdr_get_device_count H; is = [0..<device_count] in
      if device_count = 0 then -1
      else let serial = snd (search_loop H (\<lambda>_. False) is serial);
               (v, s2) = strtol0 s; device = to_int32 v
        in if s2 = [] \<and> 0 \<le> device \<and> device < int device_count then device
           else case search_loop H ((=) s) is serial of (Some i, _) \<Rightarrow> int i
           | (None, serial) \<Rightarrow>
             case search_loop H (prefix_match s) is serial of (Some i, _) \<Rightarrow> int i
           | (None, serial) \<Rightarrow>
             case search_loop H (suffix_match s) is serial of (Some i, _) \<Rightarrow> int i | (None, serial) \<Rightarrow> -1)"

section \<open>Background commands\<close>

text \<open>The arguments of the program to start: \<open>file\<close>, the words of \<open>args\<close>, with all but the first
  replaced as the two tables say, and the null pointer. \<open>None\<close>: a word is stored behind the 256
  entries of \<open>argv\<close>.\<close>

fun replace_word :: "(string \<times> string) list \<Rightarrow> string \<Rightarrow> string" where
  "replace_word [] w = w"
| "replace_word ((search, replace) # tab) w = (if w = search then replace else replace_word tab w)"

definition build_argv :: "string \<Rightarrow> string list \<Rightarrow> (string \<times> string) list \<Rightarrow> string list option" where
  "build_argv file tokens tab =
     (case tokens of [] \<Rightarrow> Some [file]
      | w # ws \<Rightarrow> if 255 \<le> length tokens then None else Some (file # w # map (replace_word tab) ws))"

section \<open>The nearest gain\<close>

lemma nearest_loop_best:
  "nearest_loop t gs n \<in> insert n (set gs) \<and> (\<forall>g \<in> insert n (set gs). \<bar>t - nearest_loop t gs n\<bar> \<le> \<bar>t - g\<bar>)"
  by (induction gs arbitrary: n) (auto, force+)

text \<open>The gain is one of the table of the tuner, and none is closer to the target.\<close>

theorem nearest_gain_best:
  assumes "0 \<le> fst (run_state (rtlsdr_set_tuner_gain_mode U True) s)" and "lib_inv True t s"
  shows "fst (run_state (nearest_gain U target) s) \<in> set (tuner_gains t) \<and>
    (\<forall>g \<in> set (tuner_gains t). \<bar>target - fst (run_state (nearest_gain U target) s)\<bar> \<le> \<bar>target - g\<bar>)"
proof -
  obtain r s' where 1: "run_state (rtlsdr_set_tuner_gain_mode U True) s = (r, s')" by fastforce
  then have "d_tuner_type s' = t"
    using alwaysD [OF lib_set_tuner_gain_mode assms(2) 1] by (simp add: lib_inv_def)
  moreover obtain g gs where g: "tuner_gains t = g # gs" by (cases t) auto
  ultimately have "fst (run_state (nearest_gain U target) s) = nearest_loop target (g # gs) g"
    using 1 assms(1) by (simp add: nearest_gain_def rtlsdr_get_tuner_gains_def)
  then show ?thesis using nearest_loop_best [of target "g # gs" g] g by auto
qed

section \<open>The search for a device\<close>

definition all_readable :: "'h usb_host \<Rightarrow> bool" where
  "all_readable H \<longleftrightarrow> length (dev_list H) < 2 ^ 31 \<and> 0 \<le> init_rc H \<and>
     (\<forall>i \<in> set (known_positions (dev_list H)). open_rc H i = 0 \<and> dev_strings H i \<noteq> None)"

definition serial_of :: "'h usb_host \<Rightarrow> nat \<Rightarrow> string" where
  "serial_of H i = snd (snd (the (dev_strings H (known_positions (dev_list H) ! i))))"

lemma search_loop_find:
  assumes "all_readable H" and "\<forall>i \<in> set is. i < length (known_positions (dev_list H))"
  shows "fst (search_loop H matches is serial) = find (matches \<circ> serial_of H) is"
  using assms(2)
proof (induction "is" arbitrary: serial)
  case (Cons i "is")
  let ?p = "known_positions (dev_list H) ! i"
  have i: "i < length (known_positions (dev_list H))" using Cons.prems by simp
  then have "?p \<in> set (known_positions (dev_list H))" by simp
  then obtain m p s where "open_rc H ?p = 0" "dev_strings H ?p = Some (m, p, s)"
    using assms(1) unfolding all_readable_def by fastforce
  moreover have "length (dev_list H) < 2 ^ 32" "0 \<le> init_rc H" using assms(1) by (auto simp: all_readable_def)
  ultimately have "device_serial H i serial = serial_of H i"
    using i by (simp add: device_serial_def usb_strings_pick pick_def serial_of_def)
  with Cons show ?case by (simp add: Let_def)
qed simp

lemma prefix_match_iff: "prefix_match s serial = prefix s serial"
  by (auto simp: prefix_match_def prefix_def) (metis append_take_drop_id)

lemma suffix_match_iff: "suffix_match s serial = suffix s serial"
proof
  assume "suffix_match s serial"
  then have "length s \<le> length serial" "drop (length serial - length s) serial = s"
    by (auto simp: suffix_match_def nat_diff_distrib')
  then show "suffix s serial" by (metis suffix_drop)
next
  assume "suffix s serial"
  then obtain u where "serial = u @ s" by (auto simp: suffix_def)
  then show "suffix_match s serial" by (simp add: suffix_match_def nat_diff_distrib')
qed

fun first_of :: "nat option list \<Rightarrow> int" where
  "first_of [] = -1"
| "first_of (None # xs) = first_of xs"
| "first_of (Some i # xs) = int i"

lemma first_of_Cons: "first_of (x # xs) = (case x of None \<Rightarrow> first_of xs | Some i \<Rightarrow> int i)"
  by (cases x) simp_all

lemma search_case:
  "(case p of (None, b) \<Rightarrow> g b | (Some i, b) \<Rightarrow> int i) = (case fst p of None \<Rightarrow> g (snd p) | Some i \<Rightarrow> int i)"
  by (auto split: prod.split option.split)

text \<open>C19: \<open>verbose_device_search\<close>, when the strings of all supported devices can be read: a string
  that is the number of a device selects it; otherwise the first device whose serial number is the string is
  selected, or else the first whose serial number begins with it, or else the first whose serial number ends
  with it; \<open>-1\<close> is returned when there is none.\<close>

theorem device_search:
  assumes "all_readable H"
  shows "verbose_device_search H buf s =
    (let n = length (known_positions (dev_list H)); (v, rest) = strtol0 s in
     if n = 0 then -1
     else if rest = [] \<and> 0 \<le> to_int32 v \<and> to_int32 v < int n then to_int32 v
     else first_of [find (\<lambda>i. serial_of H i = s) [0..<n], find (\<lambda>i. prefix s (serial_of H i)) [0..<n],
                    find (\<lambda>i. suffix s (serial_of H i)) [0..<n]])"
proof -
  let ?n = "length (known_positions (dev_list H))"
  have n: "rtlsdr_get_device_count H = ?n"
    using assms count_loop_known [of 0 "dev_list H"] by (simp add: all_readable_def rtlsdr_get_device_count_def)
  have f: "fst (search_loop H matches [0..<?n] serial) = find (matches \<circ> serial_of H) [0..<?n]" for matches serial
    by (rule search_loop_find [OF assms]) simp
  have m: "prefix_match s \<circ> serial_of H = (\<lambda>i. prefix s (serial_of H i))"
    "suffix_match s \<circ> serial_of H = (\<lambda>i. suffix s (serial_of H i))" "(=) s \<circ> serial_of H = (\<lambda>i. serial_of H i = s)"
    by (auto simp: prefix_match_iff suffix_match_iff)
  obtain v rest where v: "strtol0 s = (v, rest)" by fastforce
  show ?thesis
    unfolding verbose_device_search_def n Let_def v prod.case search_case f m first_of_Cons first_of.simps(1) by (rule refl)
qed

definition two_host :: "int \<Rightarrow> unit usb_host" where
  "two_host rc = \<lparr>alloc_ok = True, init_rc = 0, dev_list = [(0x0bda, 0x2838), (0x0bda, 0x2832)],
     open_rc = (\<lambda>i. if i = 0 then rc else 0), kernel_active = False, claim_rc = 0, reset_dev = id,
     dev_strings = (\<lambda>i. Some (''Realtek'', ''RTL2838UHIDIR'', if i = 0 then ''A0017'' else ''B0042''))\<rparr>"

lemma two_host_known: "known_positions [(0x0bda, 0x2838), (0x0bda, 0x2832)] = [0, 1]"
  by (simp add: find_known_device_def known_devices_def)

lemma strtol0_serial: "strtol0 ''B0042'' = (0, ''B0042'')" "strtol0 ''42'' = (42, [])" "strtol0 ''0x1'' = (1, [])"
  by code_simp+

theorem device_search_witness:
  "all_readable (two_host 0) \<and> verbose_device_search (two_host 0) [] ''B0042'' = 1 \<and>
    verbose_device_search (two_host 0) [] ''42'' = 1 \<and> verbose_device_search (two_host 0) [] ''0x1'' = 1"
proof -
  have a: "all_readable (two_host 0)" by (simp add: all_readable_def two_host_def two_host_known)
  have p: "known_positions (dev_list (two_host 0)) = [0, 1]"
    "serial_of (two_host 0) 0 = ''A0017''" "serial_of (two_host 0) (Suc 0) = ''B0042''"
    by (simp_all add: two_host_def two_host_known serial_of_def del: known_positions_Cons)
  have t: "to_int32 42 = 42" "to_int32 1 = 1" "to_int32 0 = 0" by (simp_all add: to_int32_id)
  show ?thesis
    using a device_search [OF a, of "[]" "''B0042''"] device_search [OF a, of "[]" "''42''"] device_search [OF a, of "[]" "''0x1''"]
    unfolding p strtol0_serial by (simp add: t p upt_rec prefix_match_def suffix_match_def
      prefix_match_iff [symmetric] suffix_match_iff [symmetric])
qed

text \<open>The serial number of a device that cannot be opened is taken to be the one read before: with the
  first of two devices in use, the serial number of the second selects the first.\<close>

theorem device_search_busy:
  "serial_of (two_host (-6)) 1 = ''B0042'' \<and> verbose_device_search (two_host (-6)) [] ''B0042'' = 0 \<and>
    rtlsdr_get_index_by_serial (two_host (-6)) [] ''B0042'' = 1"
proof -
  have l: "length (dev_list (two_host (-6))) < 2 ^ 32" "0 \<le> init_rc (two_host (-6))" by (simp_all add: two_host_def)
  have n: "rtlsdr_get_device_count (two_host (-6)) = 2"
    using count_loop_known [of 0 "dev_list (two_host (-6))"]
    by (simp add: rtlsdr_get_device_count_def two_host_def two_host_known del: known_positions_Cons)
  have k: "known_positions (dev_list (two_host (-6))) = [0, 1]" by (simp add: two_host_def two_host_known del: known_positions_Cons)
  have d: "rtlsdr_get_device_usb_strings (two_host (-6)) 0 = (-6, None)"
    "rtlsdr_get_device_usb_strings (two_host (-6)) (Suc 0) = (0, Some (''Realtek'', ''RTL2838UHIDIR'', ''B0042''))"
    unfolding usb_strings_pick [OF l] k by (simp_all add: pick_def two_host_def)
  have t: "to_int32 0 = 0" by (simp add: to_int32_id)
  show ?thesis
    unfolding serial_of_def k verbose_device_search_def rtlsdr_get_index_by_serial_def n strtol0_serial Let_def
    using d by (simp add: device_serial_def upt_rec t two_host_def)
qed

section \<open>Suffixes are exact on whole numbers\<close>

definition decimal :: "string \<Rightarrow> bool" where
  "decimal ds \<longleftrightarrow> ds \<noteq> [] \<and> (\<forall>c \<in> set ds. digit_val c < 10)"

lemma decimal_plain:
  assumes "digit_val c < 10"
  shows "\<not> isspace c" "c \<noteq> CHR ''-''" "c \<noteq> CHR ''+''"
    "c \<notin> {CHR ''g'', CHR ''G'', CHR ''m'', CHR ''M'', CHR ''k'', CHR ''K''}"
  using assms by (auto simp: digit_val_def isspace_def Let_def split: if_splits)

lemma atof_decimal:
  assumes "decimal ds" and "digits_val 10 ds < 2 ^ 53"
  shows "atof ds = of_nat (digits_val 10 ds)"
proof -
  have d: "digits 10 ds = ds" using assms(1) by (simp add: decimal_def digits_def takeWhile_eq_all_conv)
  obtain c cs where c: "ds = c # cs" "digit_val c < 10" using assms(1) by (cases ds) (auto simp: decimal_def)
  have "sign_of (dropWhile isspace ds) = (False, ds)"
    using decimal_plain [OF c(2)] by (simp add: c(1) sign_of_def)
  moreover have "fl (of_nat (digits_val 10 ds)) = of_nat (digits_val 10 ds)"
    using fl_int [of "int (digits_val 10 ds)"] assms(2) by simp
  ultimately show ?thesis by (simp add: atof_def d digits_val_def [of 10 "[]"] digits_def [of 10 "[]"])
qed

lemma atofs_suffix:
  assumes "decimal ds" and "digits_val 10 ds * 10 ^ 6 < 2 ^ 53"
  shows "atofs (ds @ ''M'') = Some (of_nat (digits_val 10 ds * 10 ^ 6))" and "atofs ds = Some (of_nat (digits_val 10 ds))"
proof -
  have v: "digits_val 10 ds < 2 ^ 53" by (rule le_less_trans [OF _ assms(2)]) simp
  have "fl (of_nat (digits_val 10 ds * 10 ^ 6)) = of_nat (digits_val 10 ds * 10 ^ 6)"
    using fl_int [of "int (digits_val 10 ds * 10 ^ 6)"] assms(2) by simp
  then show "atofs (ds @ ''M'') = Some (of_nat (digits_val 10 ds * 10 ^ 6))"
    using atof_decimal [OF assms(1) v] assms(1)
    by (simp add: atofs_def trim_len_def isspace_def decimal_def nth_append mult.commute)
  have l: "digit_val (List.last ds) < 10" "ds \<noteq> []" using assms(1) by (auto simp: decimal_def)
  have "takeWhile isspace (rev ds) = []"
    using decimal_plain(1) [OF l(1)] l(2) by (cases ds rule: rev_cases) auto
  then have "trim_len ds = length ds" using l(2) by (cases ds) (simp_all add: trim_len_def)
  then show "atofs ds = Some (of_nat (digits_val 10 ds))"
    using decimal_plain(4) [OF l(1)] l(2) atof_decimal [OF assms(1) v] by (simp add: atofs_def last_conv_nth)
qed

end
