(* ===== verification/Rtl_Eeprom.thy ===== *)
theory Rtl_Eeprom
  imports Eeprom_Chip
begin

unbundle bit_operations_syntax

text \<open>
  The EEPROM tool (src/src/rtl_eeprom.c): the image of a configuration, its parser and generator,
  and the main program from the opened device on, over the EEPROM functions of the library.
  C strings are lists of non-zero bytes; the image is the 256-byte buffer of \<open>main\<close>. Option
  parsing, printing and the files of the options \<open>-r\<close> and \<open>-w\<close> are not modelled beyond the
  contents of the file to write.
\<close>

section \<open>Configurations and their image\<close>

record rtlsdr_config =
  vendor_id :: u16
  product_id :: u16
  manufacturer :: "u8 list"
  product :: "u8 list"
  serial :: "u8 list"
  have_serial :: bool
  enable_bt :: bool
  remote_wakeup :: bool

abbreviation (input) STR_OFFSET :: nat where "STR_OFFSET \<equiv> 9"

function get_str_loop :: "u8 list \<Rightarrow> nat \<Rightarrow> nat \<Rightarrow> nat \<Rightarrow> (u8 list \<times> nat) option" where
  "get_str_loop data pos len i =
     (if i < len
      then if pos + i < length data
           then map_option (\<lambda>(str, j). (data ! (pos + i) # str, j)) (get_str_loop data pos len (i + 2))
           else None
      else Some ([], i))"
  by auto
termination by (relation "measure (\<lambda>(data, pos, len, i). len - i)") auto

declare get_str_loop.simps [simp del]

text \<open>The string and the position after it; \<open>None\<close>: a read outside the image.\<close>

definition get_string_descriptor :: "nat \<Rightarrow> u8 list \<Rightarrow> (u8 list \<times> nat) option" where
  "get_string_descriptor pos data =
     (if pos + 1 < length data
      then map_option (\<lambda>(str, i). (str, pos + i)) (get_str_loop data pos (unat (data ! pos)) 2)
      else None)"

fun set_str_loop :: "nat \<Rightarrow> u8 list \<Rightarrow> nat \<Rightarrow> u8 list \<Rightarrow> (nat \<times> u8 list) option" where
  "set_str_loop pos [] j data = Some (j, data)"
| "set_str_loop pos (c # str) j data =
     (if c = 0 then Some (j, data)
      else if pos + j \<ge> 78 then None
      else set_str_loop pos str (j + 2) (data[pos + j := c, pos + j + 1 := 0]))"

text \<open>\<open>None\<close> stands for the result \<open>-1\<close>, after which the image is not used.\<close>

definition set_string_descriptor :: "nat option \<Rightarrow> u8 list \<Rightarrow> u8 list \<Rightarrow> (nat \<times> u8 list) option" where
  "set_string_descriptor pos str data =
     (case pos of None \<Rightarrow> None
      | Some pos \<Rightarrow> map_option (\<lambda>(j, data). (pos + j, data[pos := of_nat j]))
                     (set_str_loop pos str 2 (data[pos + 1 := 0x03])))"

definition parse_eeprom_to_conf :: "u8 list \<Rightarrow> rtlsdr_config option" where
  "parse_eeprom_to_conf dat =
     (case get_string_descriptor STR_OFFSET dat of None \<Rightarrow> None | Some (m, pos) \<Rightarrow>
      case get_string_descriptor pos dat of None \<Rightarrow> None | Some (p, pos) \<Rightarrow>
      case get_string_descriptor pos dat of None \<Rightarrow> None | Some (s, pos) \<Rightarrow>
      Some \<lparr>vendor_id = ucast (dat ! 2) OR push_bit 8 (ucast (dat ! 3)),
            product_id = ucast (dat ! 4) OR push_bit 8 (ucast (dat ! 5)),
            manufacturer = m, product = p, serial = s,
            have_serial = (dat ! 6 = 0xa5),
            enable_bt = (dat ! 7 AND 0x02 \<noteq> 0),
            remote_wakeup = (dat ! 7 AND 0x01 \<noteq> 0)\<rparr>)"

definition eeprom_header :: "rtlsdr_config \<Rightarrow> u8 list" where
  "eeprom_header conf =
     [0x28, 0x32,
      ucast (vendor_id conf AND 0xff), ucast (drop_bit 8 (vendor_id conf) AND 0xff),
      ucast (product_id conf AND 0xff), ucast (drop_bit 8 (product_id conf) AND 0xff),
      if have_serial conf then 0xa5 else 0x00,
      0x14 OR (if remote_wakeup conf then 0x01 else 0x00) OR (if enable_bt conf then 0x02 else 0x00),
      0x02]"

definition gen_eeprom_from_conf :: "rtlsdr_config \<Rightarrow> u8 list \<Rightarrow> (nat \<times> u8 list) option" where
  "gen_eeprom_from_conf conf dat =
     (let dat = store_at 0 (eeprom_header conf) dat
      in case set_string_descriptor (Some STR_OFFSET) (manufacturer conf) dat of None \<Rightarrow> None | Some (pos, dat) \<Rightarrow>
         case set_string_descriptor (Some pos) (product conf) dat of None \<Rightarrow> None | Some (pos, dat) \<Rightarrow>
         case set_string_descriptor (Some pos) (serial conf) dat of None \<Rightarrow> None | Some (pos, dat) \<Rightarrow>
         Some (pos, dat[78 := 0x00]))"

section \<open>The round trip\<close>

lemma get_str_loop_reads:
  assumes "\<forall>k < length str. pos + i + 2 * k < length data \<and> data ! (pos + i + 2 * k) = str ! k"
    and "len = i + 2 * length str"
  shows "get_str_loop data pos len i = Some (str, len)"
  using assms
proof (induction str arbitrary: i)
  case Nil
  then show ?case by (simp add: get_str_loop.simps)
next
  case (Cons c str)
  have "pos + i < length data" "data ! (pos + i) = c" using Cons.prems(1) by (auto dest: spec [of _ 0])
  moreover have "get_str_loop data pos len (i + 2) = Some (str, len)"
  proof (rule Cons.IH)
    show "\<forall>k < length str. pos + (i + 2) + 2 * k < length data \<and> data ! (pos + (i + 2) + 2 * k) = str ! k"
    proof (intro allI impI)
      fix k assume "k < length str"
      then show "pos + (i + 2) + 2 * k < length data \<and> data ! (pos + (i + 2) + 2 * k) = str ! k"
        using Cons.prems(1) [rule_format, of "Suc k"] by (simp add: algebra_simps)
    qed
  qed (use Cons.prems(2) in simp)
  ultimately show ?case using Cons.prems(2) by (subst get_str_loop.simps) simp
qed

text \<open>What a descriptor at \<open>pos\<close> needs: its length byte and its characters.\<close>

definition has_string :: "u8 list \<Rightarrow> nat \<Rightarrow> u8 list \<Rightarrow> bool" where
  "has_string data pos str \<longleftrightarrow> pos + 1 < length data \<and> length str < 127 \<and> data ! pos = of_nat (2 + 2 * length str) \<and>
     (\<forall>k < length str. pos + 2 + 2 * k < length data \<and> data ! (pos + 2 + 2 * k) = str ! k)"

lemma get_has_string:
  assumes "has_string data pos str"
  shows "get_string_descriptor pos data = Some (str, pos + 2 + 2 * length str)"
proof -
  have "unat (of_nat (2 + 2 * length str) :: u8) = 2 + 2 * length str"
    using assms unfolding unat_of_nat by (simp add: has_string_def)
  then have len: "unat (data ! pos) = 2 + 2 * length str" using assms by (simp add: has_string_def)
  have "get_str_loop data pos (2 + 2 * length str) 2 = Some (str, 2 + 2 * length str)"
    using assms by (intro get_str_loop_reads) (auto simp: has_string_def)
  then show ?thesis using assms len by (simp add: get_string_descriptor_def has_string_def)
qed

lemma set_str_loop_stores:
  assumes "set_str_loop pos str j data = Some (j', data')" and "0 \<notin> set str" and "length data = 256" and "2 \<le> j"
  shows "j' = j + 2 * length str \<and> length data' = 256 \<and> (str \<noteq> [] \<longrightarrow> pos + j' \<le> 79) \<and>
    (\<forall>k < length str. data' ! (pos + j + 2 * k) = str ! k) \<and>
    (\<forall>k. k < pos + j \<or> pos + j' \<le> k \<longrightarrow> data' ! k = data ! k)"
  using assms
proof (induction pos str j data rule: set_str_loop.induct)
  case (2 pos c str j data)
  let ?d = "data[pos + j := c, pos + j + 1 := 0]"
  have c: "c \<noteq> 0" "pos + j < 78" and run: "set_str_loop pos str (j + 2) ?d = Some (j', data')"
    using "2.prems" by (auto split: if_splits)
  have IH: "j' = j + 2 + 2 * length str" "length data' = 256" "str \<noteq> [] \<longrightarrow> pos + j' \<le> 79"
    "\<forall>k < length str. data' ! (pos + (j + 2) + 2 * k) = str ! k"
    "\<forall>k. k < pos + (j + 2) \<or> pos + j' \<le> k \<longrightarrow> data' ! k = ?d ! k"
    using "2.IH" [OF c(1) _ run] c "2.prems" by auto
  have "data' ! (pos + j + 2 * k) = (c # str) ! k" if "k < length (c # str)" for k
  proof (cases k)
    case 0
    then show ?thesis using IH(5) [rule_format, of "pos + j"] c "2.prems"(3) by simp
  next
    case (Suc m)
    then show ?thesis using IH(4) [rule_format, of m] that by (simp add: algebra_simps)
  qed
  moreover have "data' ! k = data ! k" if "k < pos + j \<or> pos + j' \<le> k" for k
    using IH(5) [rule_format, of k] that IH(1) by auto
  ultimately show ?case using IH c by (auto simp del: length_Cons nth_Cons) 
qed simp


lemma set_string_stores:
  assumes "set_string_descriptor (Some pos) str data = Some (pos', data')" and "0 \<notin> set str" and "length data = 256"
    and "pos + 1 < 256"
  shows "pos' = pos + 2 + 2 * length str" and "length data' = 256" and "has_string data' pos str"
    and "\<And>k. k < pos \<Longrightarrow> data' ! k = data ! k" and "\<And>k. pos' \<le> k \<Longrightarrow> data' ! k = data ! k"
    and "str \<noteq> [] \<Longrightarrow> pos' \<le> 79"
proof -
  obtain j d where run: "set_str_loop pos str 2 (data[pos + 1 := 0x03]) = Some (j, d)"
    and r: "pos' = pos + j" "data' = d[pos := of_nat j]"
    using assms(1) by (auto simp: set_string_descriptor_def)
  have S: "j = 2 + 2 * length str" "length d = 256" "str \<noteq> [] \<longrightarrow> pos + j \<le> 79"
    "\<forall>k < length str. d ! (pos + 2 + 2 * k) = str ! k"
    "\<forall>k. k < pos + 2 \<or> pos + j \<le> k \<longrightarrow> d ! k = data[pos + 1 := 0x03] ! k"
    using set_str_loop_stores [OF run assms(2)] assms(3) by auto
  show "pos' = pos + 2 + 2 * length str" "length data' = 256" using S r by auto
  have l: "length str < 127 \<and> (\<forall>k < length str. pos + 2 + 2 * k < 256)"
    using S(1,3) by (cases "str = []") auto
  show "has_string data' pos str" using S r assms l by (auto simp: has_string_def)
  show "data' ! k = data ! k" if "k < pos" for k using S(5) [rule_format, of k] that r by simp
  show "data' ! k = data ! k" if "pos' \<le> k" for k
    using S(5) [rule_format, of k] that r S(1) by simp
  show "pos' \<le> 79" if "str \<noteq> []" using S(3) that r by simp
qed

lemma has_string_eq:
  assumes "has_string data pos str" and "length data' = length data"
    and "\<And>k. pos \<le> k \<Longrightarrow> k < pos + 2 + 2 * length str \<Longrightarrow> even (k - pos) \<Longrightarrow> data' ! k = data ! k"
  shows "has_string data' pos str"
  using assms unfolding has_string_def by (auto intro!: assms(3) simp del: add_2_eq_Suc)

text \<open>A configuration whose strings are C strings.\<close>

definition conf_strings :: "rtlsdr_config \<Rightarrow> bool" where
  "conf_strings conf \<longleftrightarrow> 0 \<notin> set (manufacturer conf) \<and> 0 \<notin> set (product conf) \<and> 0 \<notin> set (serial conf)"

lemma header_bytes:
  fixes v :: u16
  shows "ucast (ucast (v AND 0xff) :: u8) OR push_bit 8 (ucast (ucast (drop_bit 8 v AND 0xff) :: u8)) = v"
proof (rule bit_word_eqI)
  fix n assume "n < LENGTH(16)"
  have m: "(0xff :: u16) = mask 8" by (simp add: mask_eq_exp_minus_1)
  show "bit (ucast (ucast (v AND 0xff) :: u8) OR push_bit 8 (ucast (ucast (drop_bit 8 v AND 0xff) :: u8)) :: u16) n = bit v n"
    unfolding m using \<open>n < LENGTH(16)\<close> by (auto simp: bit_simps)
qed

lemma flag_bits:
  "((0x14 OR (if a then 0x01 else 0x00) OR (if b then 0x02 else 0x00)) AND 0x02 \<noteq> (0 :: u8)) = b"
  "((0x14 OR (if a then 0x01 else 0x00) OR (if b then 0x02 else 0x00)) AND 0x01 \<noteq> (0 :: u8)) = a"
  by (cases a; cases b; simp)+

lemma eeprom_header_length: "length (eeprom_header conf) = 9"
  by (simp add: eeprom_header_def)

lemma gen_parse:
  assumes "gen_eeprom_from_conf conf dat = Some (pos, dat')" and "conf_strings conf" and "length dat = 256"
  shows "parse_eeprom_to_conf dat' = Some conf" and "length dat' = 256" and "\<And>k. 128 \<le> k \<Longrightarrow> k < 256 \<Longrightarrow> dat' ! k = dat ! k"
proof -
  define d0 where "d0 = store_at 0 (eeprom_header conf) dat"
  have d0: "length d0 = 256" "\<And>k. k < 9 \<Longrightarrow> d0 ! k = eeprom_header conf ! k" "\<And>k. 9 \<le> k \<Longrightarrow> k < 256 \<Longrightarrow> d0 ! k = dat ! k"
    using assms(3) by (simp_all add: d0_def nth_store_at eeprom_header_length)
  obtain p1 d1 p2 d2 d3 where
    1: "set_string_descriptor (Some 9) (manufacturer conf) d0 = Some (p1, d1)" and
    2: "set_string_descriptor (Some p1) (product conf) d1 = Some (p2, d2)" and
    3: "set_string_descriptor (Some p2) (serial conf) d2 = Some (pos, d3)" and d: "dat' = d3[78 := 0]"
    using assms(1) by (auto simp: gen_eeprom_from_conf_def d0_def [symmetric] Let_def split: option.splits)
  have z: "0 \<notin> set (manufacturer conf)" "0 \<notin> set (product conf)" "0 \<notin> set (serial conf)"
    using assms(2) by (auto simp: conf_strings_def)
  have b1: "9 + 1 < (256 :: nat)" by simp
  note S1 = set_string_stores [OF 1 z(1) d0(1) b1]
  have p1: "p1 = 11 + 2 * length (manufacturer conf)" "p1 \<le> 79" using S1(1,6) by (cases "manufacturer conf = []"; simp)+
  have b2: "p1 + 1 < 256" using p1(2) by simp
  note S2 = set_string_stores [OF 2 z(2) S1(2) b2]
  have p2: "p2 = p1 + 2 + 2 * length (product conf)" "p2 \<le> 81" using S2(1,6) p1 by (cases "product conf = []"; simp)+
  have b3: "p2 + 1 < 256" using p2(2) by simp
  note S3 = set_string_stores [OF 3 z(3) S2(2) b3]
  have p3: "pos = p2 + 2 + 2 * length (serial conf)" "pos \<le> 83" using S3(1,6) p2 by (cases "serial conf = []"; simp)+
  show l: "length dat' = 256" using d S3(2) p2 by simp
  have other: "dat' ! k = d3 ! k" if "even (k - p)" "p \<le> k" "odd p" for k p :: nat
  proof -
    have "k \<noteq> 78" using that by auto
    then show ?thesis using d by simp
  qed
  have s1: "has_string dat' 9 (manufacturer conf)"
  proof (rule has_string_eq [OF S1(3)])
    fix k assume "9 \<le> k" "k < 9 + 2 + 2 * length (manufacturer conf)" "even (k - 9)"
    then have "dat' ! k = d3 ! k" "k < p1" using other [of k 9] p1 by simp_all
    then show "dat' ! k = d1 ! k" using S2(4) S3(4) p2(1) by simp
  qed (use l S1(2) in simp_all)
  have s2: "has_string dat' p1 (product conf)"
  proof (rule has_string_eq [OF S2(3)])
    fix k assume "p1 \<le> k" "k < p1 + 2 + 2 * length (product conf)" "even (k - p1)"
    then have "dat' ! k = d3 ! k" "k < p2" using other [of k p1] p1(1) p2(1) by simp_all
    then show "dat' ! k = d2 ! k" using S3(4) by simp
  qed (use l S2(2) p1(2) in simp_all)
  have s3: "has_string dat' p2 (serial conf)"
  proof (rule has_string_eq [OF S3(3)])
    fix k assume "p2 \<le> k" "even (k - p2)"
    then show "dat' ! k = d3 ! k" using other [of k p2] p1(1) p2(1) by simp
  qed (use l S3(2) p2(2) in simp_all)
  have hd: "dat' ! k = eeprom_header conf ! k" if "k < 9" for k
    using that d d0 S1(4) S2(4) S3(4) p1 p2 by simp
  show "dat' ! k = dat ! k" if "128 \<le> k" "k < 256" for k
    using that d d0 S1 S2 S3 p1 p2 p3 by simp
  show "parse_eeprom_to_conf dat' = Some conf"
    using get_has_string [OF s1] get_has_string [OF s2] get_has_string [OF s3] p1 p2 hd
    by (simp add: parse_eeprom_to_conf_def eeprom_header_def header_bytes flag_bits)
qed

section \<open>The tool\<close>

datatype configs = CONF_NONE | REALTEK | REALTEK_EEPROM | TERRATEC_NOXON | TERRATEC_T_BLACK | TERRATEC_T_PLUS

definition c_str :: "string \<Rightarrow> u8 list" where
  "c_str s = map of_char s"

fun gen_default_conf :: "rtlsdr_config \<Rightarrow> configs \<Rightarrow> rtlsdr_config" where
  "gen_default_conf conf CONF_NONE = conf"
| "gen_default_conf conf REALTEK =
     \<lparr>vendor_id = 0x0bda, product_id = 0x2832, manufacturer = c_str ''Generic'', product = c_str ''RTL2832U DVB-T'',
      serial = c_str ''0'', have_serial = True, enable_bt = False, remote_wakeup = True\<rparr>"
| "gen_default_conf conf REALTEK_EEPROM =
     \<lparr>vendor_id = 0x0bda, product_id = 0x2838, manufacturer = c_str ''Realtek'', product = c_str ''RTL2838UHIDIR'',
      serial = c_str ''00000001'', have_serial = True, enable_bt = True, remote_wakeup = False\<rparr>"
| "gen_default_conf conf TERRATEC_NOXON =
     \<lparr>vendor_id = 0x0ccd, product_id = 0x00b3, manufacturer = c_str ''NOXON'', product = c_str ''DAB Stick'',
      serial = c_str ''0'', have_serial = True, enable_bt = False, remote_wakeup = True\<rparr>"
| "gen_default_conf conf TERRATEC_T_BLACK =
     \<lparr>vendor_id = 0x0ccd, product_id = 0x00a9, manufacturer = c_str ''Realtek'', product = c_str ''RTL2838UHIDIR'',
      serial = c_str ''00000001'', have_serial = True, enable_bt = True, remote_wakeup = False\<rparr>"
| "gen_default_conf conf TERRATEC_T_PLUS =
     \<lparr>vendor_id = 0x0ccd, product_id = 0x00d7, manufacturer = c_str ''Realtek'', product = c_str ''RTL2838UHIDIR'',
      serial = c_str ''00000001'', have_serial = True, enable_bt = True, remote_wakeup = False\<rparr>"

text \<open>The result of option parsing: \<open>flash_file\<close> is the contents of the file to write.\<close>

record eeprom_opts =
  manuf_str :: "u8 list option"
  product_str :: "u8 list option"
  serial_str :: "u8 list option"
  opt_enable_bt :: int
  default_config :: configs
  flash_file :: "u8 list option"

definition opt_change :: "eeprom_opts \<Rightarrow> bool" where
  "opt_change opts \<longleftrightarrow> manuf_str opts \<noteq> None \<or> product_str opts \<noteq> None \<or> serial_str opts \<noteq> None \<or>
     opt_enable_bt opts \<noteq> 0 \<or> default_config opts \<noteq> CONF_NONE \<or> flash_file opts \<noteq> None"

definition edit_conf :: "eeprom_opts \<Rightarrow> rtlsdr_config \<Rightarrow> rtlsdr_config" where
  "edit_conf opts conf =
     (let conf = (case manuf_str opts of None \<Rightarrow> conf | Some s \<Rightarrow> conf\<lparr>manufacturer := take 255 s\<rparr>);
          conf = (case product_str opts of None \<Rightarrow> conf | Some s \<Rightarrow> conf\<lparr>product := take 255 s\<rparr>);
          conf = (case serial_str opts of None \<Rightarrow> conf | Some s \<Rightarrow> conf\<lparr>have_serial := True, serial := take 255 s\<rparr>);
          conf = (if opt_enable_bt opts \<noteq> 0 then conf\<lparr>enable_bt := (opt_enable_bt opts > 0)\<rparr> else conf)
      in gen_default_conf conf (default_config opts))"

text \<open>The image to write: the file, or the one generated from the new configuration (\<open>None\<close>: refused).\<close>

definition new_image :: "eeprom_opts \<Rightarrow> rtlsdr_config \<Rightarrow> u8 list \<Rightarrow> u8 list option" where
  "new_image opts conf buf =
     (case flash_file opts of
        Some bytes \<Rightarrow> Some (overlay buf (take 256 bytes))
      | None \<Rightarrow> map_option snd (gen_eeprom_from_conf (edit_conf opts conf) buf))"

text \<open>
  \<open>main\<close> of the tool from the opened device on; \<open>confirm\<close> is the answer to the question. The result
  is the exit code, \<open>None\<close> when the parser reads outside the image.
\<close>

definition rtl_eeprom_main :: "'h usb_ops \<Rightarrow> eeprom_opts \<Rightarrow> bool \<Rightarrow> ('h, int option) prog" where
  "rtl_eeprom_main U opts confirm = do {
     buf \<leftarrow> gets (\<lambda>h. map (indet U h) [0..<256]);
     (r, buf) \<leftarrow> rtlsdr_read_eeprom U buf 0;
     if r < 0 then ret (Some (- r))
     else case parse_eeprom_to_conf buf of None \<Rightarrow> ret None
     | Some conf \<Rightarrow>
         if \<not> opt_change opts then ret (Some r)
         else case new_image opts conf buf of None \<Rightarrow> ret (Some r)
         | Some buf \<Rightarrow>
             case parse_eeprom_to_conf buf of None \<Rightarrow> ret None
             | Some conf \<Rightarrow>
                 if \<not> confirm then ret (Some r)
                 else do {
                   r \<leftarrow> rtlsdr_write_eeprom U (if flash_file opts \<noteq> None then buf else take 128 buf) 0;
                   ret (Some \<bar>r\<bar>) } }"

section \<open>What the tool leaves in the EEPROM\<close>

definition eeprom_image :: "(u8 \<Rightarrow> u8) \<Rightarrow> u8 list" where
  "eeprom_image m = map (\<lambda>i. m (of_nat i)) [0..<256]"

lemma image_put:
  assumes "length data \<le> 256"
  shows "eeprom_image (eeprom_put 0 data m) = data @ drop (length data) (eeprom_image m)"
proof (rule nth_equalityI)
  fix i assume "i < length (eeprom_image (eeprom_put 0 data m))"
  then have i: "i < 256" by (simp add: eeprom_image_def)
  show "eeprom_image (eeprom_put 0 data m) ! i = (data @ drop (length data) (eeprom_image m)) ! i"
  proof (cases "i < length data")
    case True
    then show ?thesis using i assms eeprom_put_nth [of i data 0 m] by (simp add: eeprom_image_def nth_append)
  next
    case False
    have "unat (of_nat i :: u8) = i" using i by (simp add: unat_of_nat)
    then show ?thesis
      using False i assms eeprom_put_other [of "of_nat i" 0 data m] by (simp add: eeprom_image_def nth_append)
  qed
qed (use assms in \<open>simp add: eeprom_image_def\<close>)

lemma rtl_eeprom_writes:
  assumes "eeprom_bus U mem ptr" and conf: "parse_eeprom_to_conf (eeprom_image (mem h)) = Some conf"
    and "opt_change opts" and flash: "flash_file opts = None"
    and gen: "gen_eeprom_from_conf (edit_conf opts conf) (eeprom_image (mem h)) = Some (pos, dat)"
    and strs: "conf_strings (edit_conf opts conf)"
  shows "\<exists>h'. run_state (rtl_eeprom_main U opts True) h = (Some 0, h') \<and> eeprom_image (mem h') = dat"
proof -
  let ?buf = "map (indet U h) [0..<256]"
  have l: "length (eeprom_image (mem h)) = 256" by (simp add: eeprom_image_def)
  note G = gen_parse [OF gen strs l]
  obtain r h1 where 1: "run_state (rtlsdr_read_eeprom U ?buf 0) h = ((r, eeprom_image (mem h)), h1)" "mem h1 = mem h" "0 \<le> r"
    using eeprom.get_law [of ?buf 0 U mem ptr "mem h" h] assms(1) by (auto simp: eeprom_at_def eeprom_image_def)
  have w: "length (take 128 dat) + unat (0 :: u8) \<le> 256" by simp
  have "eeprom_at U mem ptr (mem h1) h1" using assms(1) by (simp add: eeprom_at_def)
  from yieldsD [OF eeprom.put_law [OF w] this]
  obtain h2 where 2: "run_state (rtlsdr_write_eeprom U (take 128 dat) 0) h1 = (0, h2)"
      "mem h2 = eeprom_put 0 (take 128 dat) (mem h)"
    using 1(2) by (auto simp: eeprom_at_def prod_eq_iff)
  have "eeprom_image (mem h2) = take 128 dat @ drop 128 (eeprom_image (mem h))"
    using 2(2) G(2) image_put [of "take 128 dat" "mem h"] by simp
  also have "drop 128 (eeprom_image (mem h)) = drop 128 dat"
    using G(2,3) l by (intro nth_equalityI) simp_all
  finally have "eeprom_image (mem h2) = dat" by simp
  moreover have "run_state (rtl_eeprom_main U opts True) h = (Some 0, h2)"
    using 1 2 assms G(1) by (simp add: rtl_eeprom_main_def new_image_def)
  ultimately show ?thesis by blast
qed

section \<open>Properties\<close>

text \<open>C12: on a working EEPROM with a readable configuration, a confirmed run of the tool that generates
  an image from the options leaves exactly the configuration asked for in the EEPROM, as the tool itself
  reads it back, and does not touch the bytes from 128 on.\<close>

theorem eeprom_tool_roundtrip:
  assumes "eeprom_bus U mem ptr" and "parse_eeprom_to_conf (eeprom_image (mem h)) = Some conf"
    and "opt_change opts" and "flash_file opts = None"
    and "gen_eeprom_from_conf (edit_conf opts conf) (eeprom_image (mem h)) \<noteq> None"
    and "conf_strings (edit_conf opts conf)"
  shows "\<exists>h'. run_state (rtl_eeprom_main U opts True) h = (Some 0, h') \<and>
    parse_eeprom_to_conf (eeprom_image (mem h')) = Some (edit_conf opts conf) \<and>
    drop 128 (eeprom_image (mem h')) = drop 128 (eeprom_image (mem h))"
proof -
  obtain pos dat where gen: "gen_eeprom_from_conf (edit_conf opts conf) (eeprom_image (mem h)) = Some (pos, dat)"
    using assms(5) by auto
  have l: "length (eeprom_image (mem h)) = 256" by (simp add: eeprom_image_def)
  have "drop 128 dat = drop 128 (eeprom_image (mem h))"
    using gen_parse(2,3) [OF gen assms(6) l] l by (intro nth_equalityI) simp_all
  then show ?thesis
    using rtl_eeprom_writes [OF assms(1-4) gen assms(6)] gen_parse(1) [OF gen assms(6) l] by auto
qed

definition opts_none :: eeprom_opts where
  "opts_none = \<lparr>manuf_str = None, product_str = None, serial_str = None, opt_enable_bt = 0,
     default_config = CONF_NONE, flash_file = None\<rparr>"

text \<open>An EEPROM that holds three empty strings.\<close>

definition empty_mem :: "u8 \<Rightarrow> u8" where
  "empty_mem a = (if a = 9 \<or> a = 11 \<or> a = 13 then 2 else if a = 10 \<or> a = 12 \<or> a = 14 then 3 else 0)"

lemma empty_mem_parses: "\<exists>conf. parse_eeprom_to_conf (eeprom_image empty_mem) = Some conf"
  by (simp add: parse_eeprom_to_conf_def get_string_descriptor_def eeprom_image_def empty_mem_def get_str_loop.simps
    split: option.splits)

lemma realtek_fits:
  "gen_eeprom_from_conf (gen_default_conf conf REALTEK_EEPROM) (eeprom_image m) \<noteq> None"
  by (simp add: gen_eeprom_from_conf_def set_string_descriptor_def c_str_def Let_def of_char_Char)

theorem eeprom_tool_roundtrip_witness:
  "\<exists>conf h'. run_state (rtl_eeprom_main eeprom_usb (opts_none\<lparr>default_config := REALTEK_EEPROM\<rparr>) True) (empty_mem, 0) = (Some 0, h') \<and>
    parse_eeprom_to_conf (eeprom_image (fst h')) = Some (gen_default_conf conf REALTEK_EEPROM)"
proof -
  obtain conf where c: "parse_eeprom_to_conf (eeprom_image (fst (empty_mem, 0 :: u8))) = Some conf"
    using empty_mem_parses by auto
  let ?opts = "opts_none\<lparr>default_config := REALTEK_EEPROM\<rparr>"
  have e: "edit_conf ?opts conf = gen_default_conf conf REALTEK_EEPROM" by (simp add: edit_conf_def opts_none_def)
  have "conf_strings (gen_default_conf conf REALTEK_EEPROM)"
    by (simp add: conf_strings_def c_str_def of_char_Char)
  with eeprom_tool_roundtrip [OF eeprom_usb_bus c, of ?opts] show ?thesis
    unfolding e using realtek_fits by (auto simp: opt_change_def opts_none_def)
qed

text \<open>C35: the parser trusts the length bytes: on an erased EEPROM (all bytes \<open>0xff\<close>) it reads outside the
  image. And an accepted configuration can be damaged: with 16 characters each for manufacturer and product
  and no serial number, the type byte of the last descriptor is at position 78 and is overwritten with 0.\<close>

theorem eeprom_image_unchecked:
  "parse_eeprom_to_conf (replicate 256 0xff) = None \<and>
    (case gen_eeprom_from_conf \<lparr>vendor_id = 0x0bda, product_id = 0x2838, manufacturer = replicate 16 0x41,
        product = replicate 16 0x42, serial = [], have_serial = False, enable_bt = False, remote_wakeup = False\<rparr>
        (replicate 256 0) of None \<Rightarrow> False | Some (pos, dat) \<Rightarrow> dat ! 77 = 2 \<and> dat ! 78 \<noteq> 3)"
    (is "_ \<and> ?damaged")
proof -
  have "get_str_loop data 9 255 i = None" if "length data = 256" "odd i = False" "i \<le> 254" for data :: "u8 list" and i
    using that
  proof (induction "255 - i" arbitrary: i rule: less_induct)
    case less
    show ?case
    proof (cases "i < 247")
      case True
      have "get_str_loop data 9 255 (i + 2) = None" using less True by simp
      then show ?thesis using less.prems True by (subst get_str_loop.simps) simp
    next
      case False
      then show ?thesis using less.prems by (subst get_str_loop.simps) simp
    qed
  qed
  then have "get_string_descriptor 9 (replicate 256 (0xff :: u8)) = None"
    by (simp add: get_string_descriptor_def)
  moreover have ?damaged by code_simp
  ultimately show ?thesis by (simp add: parse_eeprom_to_conf_def)
qed

end
