(* ===== verification/Rtl_Fm.thy ===== *)
theory Rtl_Fm
  imports Prelude "HOL-Library.Signed_Division" "HOL-Library.Log_Nat"
begin

unbundle bit_operations_syntax

text \<open>
  The fixed-point signal path of \<open>rtl_fm\<close> (src/src/rtl_fm.c): the rotation by a quarter of the sampling rate,
  the filters, the integer discriminators, the demodulators without floating point, de-emphasis and the
  choice of rates. Numbers are integers with the conversions to \<open>int16_t\<close> written out; where an \<open>int\<close> can
  overflow the result is \<open>None\<close>. The discriminators that call the mathematical library are arguments. The
  locale \<open>stream_filter\<close> says that a filter does not depend on where its buffers end.
\<close>

section \<open>Integers of the demodulator\<close>

text \<open>The conversion to \<open>int16_t\<close>, and the range of \<open>int\<close>, outside of which arithmetic is undefined.\<close>

definition to_int16 :: "int \<Rightarrow> int" where
  "to_int16 x = signed_take_bit 15 x"

definition int32 :: "int \<Rightarrow> bool" where
  "int32 x \<longleftrightarrow> - (2 ^ 31) \<le> x \<and> x < 2 ^ 31"

section \<open>From the dongle\<close>

text \<open>The buffers are a multiple of 512 bytes long, so the loop sees whole groups of eight.\<close>

fun rotate_90 :: "u8 list \<Rightarrow> u8 list" where
  "rotate_90 (b0 # b1 # b2 # b3 # b4 # b5 # b6 # b7 # buf) =
     b0 # b1 # (255 - b3) # b2 # (255 - b4) # (255 - b5) # b7 # (255 - b6) # rotate_90 buf"
| "rotate_90 buf = buf"

definition fm_callback :: "nat \<Rightarrow> bool \<Rightarrow> u8 list \<Rightarrow> int list" where
  "fm_callback mute offset_tuning buf =
     (let buf = replicate (min mute (length buf)) 127 @ drop mute buf;
          buf = (if \<not> offset_tuning then rotate_90 buf else buf)
      in map (\<lambda>b. to_int16 (uint b - 127)) buf)"

section \<open>Filters\<close>

text \<open>The sums of \<open>low_pass\<close> and the number of samples in them.\<close>

record lp_state =
  now_r :: int
  now_j :: int
  prev_index :: nat

text \<open>The loop of \<open>low_pass\<close> on the array \<open>lowpassed\<close>, in place: the array, the new length, the sums.\<close>

function low_pass_loop :: "nat \<Rightarrow> int list \<Rightarrow> nat \<Rightarrow> nat \<Rightarrow> nat \<Rightarrow> lp_state \<Rightarrow> int list \<times> nat \<times> lp_state" where
  "low_pass_loop downsample lowpassed lp_len i i2 s =
     (if i < lp_len
      then let s = s\<lparr>now_r := now_r s + lowpassed ! i, now_j := now_j s + lowpassed ! (i + 1), prev_index := prev_index s + 1\<rparr>
           in if prev_index s < downsample then low_pass_loop downsample lowpassed lp_len (i + 2) i2 s
              else low_pass_loop downsample (lowpassed[i2 := to_int16 (now_r s), i2 + 1 := to_int16 (now_j s)]) lp_len
                     (i + 2) (i2 + 2) \<lparr>now_r = 0, now_j = 0, prev_index = 0\<rparr>
      else (lowpassed, i2, s))"
  by auto
termination by (relation "measure (\<lambda>(_, _, lp_len, i, _). lp_len - i)") (auto simp: Let_def)

declare low_pass_loop.simps [simp del]

definition low_pass :: "nat \<Rightarrow> int list \<Rightarrow> nat \<Rightarrow> lp_state \<Rightarrow> int list \<times> nat \<times> lp_state" where
  "low_pass downsample lowpassed lp_len s = low_pass_loop downsample lowpassed lp_len 0 0 s"

text \<open>\<open>None\<close>: \<open>fast / slow\<close> is zero, and the code divides by it.\<close>

fun low_pass_real_loop :: "int \<Rightarrow> int \<Rightarrow> int list \<Rightarrow> int \<Rightarrow> int \<Rightarrow> (int list \<times> int \<times> int) option" where
  "low_pass_real_loop fast slow [] now_lpr prev_lpr_index = Some ([], now_lpr, prev_lpr_index)"
| "low_pass_real_loop fast slow (x # xs) now_lpr prev_lpr_index =
     (let now_lpr = now_lpr + x; prev_lpr_index = prev_lpr_index + slow in
      if prev_lpr_index < fast then low_pass_real_loop fast slow xs now_lpr prev_lpr_index
      else if fast sdiv slow = 0 then None
      else map_option (\<lambda>(ys, s). (to_int16 (now_lpr sdiv (fast sdiv slow)) # ys, s))
             (low_pass_real_loop fast slow xs 0 (prev_lpr_index - fast)))"

fun low_pass_simple :: "nat \<Rightarrow> int list \<Rightarrow> int list" where
  "low_pass_simple step [] = []"
| "low_pass_simple step xs =
     (if step = 0 then [] else to_int16 (sum_list (take step xs)) # low_pass_simple step (drop step xs))"

text \<open>One channel of the half-band filter: the first sample, then two samples per output; the outputs and the
  history \<open>a\<close> to \<open>f\<close>.\<close>

definition fifth_tap :: "int \<Rightarrow> int \<Rightarrow> int \<Rightarrow> int \<Rightarrow> int \<Rightarrow> int \<Rightarrow> int" where
  "fifth_tap a b c d e f = to_int16 (drop_bit 4 (a + (b + e) * 5 + (c + d) * 10 + f))"

fun fifth_loop :: "int \<Rightarrow> int \<Rightarrow> int \<Rightarrow> int \<Rightarrow> int \<Rightarrow> int \<Rightarrow> int list \<Rightarrow> int list \<times> int list" where
  "fifth_loop a b c d e f (x # y # data) =
     (case fifth_loop c d e f x y data of (ys, hist) \<Rightarrow> (fifth_tap c d e f x y # ys, hist))"
| "fifth_loop a b c d e f data = ([], [a, b, c, d, e, f])"

definition fifth_order :: "int list \<Rightarrow> int list \<Rightarrow> int list \<times> int list" where
  "fifth_order data hist =
     (let a = hist ! 1; b = hist ! 2; c = hist ! 3; d = hist ! 4; e = hist ! 5; f = hd data in
      case fifth_loop a b c d e f (tl data) of (ys, hist) \<Rightarrow> (fifth_tap a b c d e f # ys, hist))"

definition fir_tap :: "(nat \<Rightarrow> int) \<Rightarrow> int list \<Rightarrow> int" where
  "fir_tap fir hist = (hist ! 0 + hist ! 8) * fir 1 + (hist ! 1 + hist ! 7) * fir 2 + (hist ! 2 + hist ! 6) * fir 3 +
     (hist ! 3 + hist ! 5) * fir 4 + hist ! 4 * fir 5"

fun generic_fir :: "(nat \<Rightarrow> int) \<Rightarrow> int list \<Rightarrow> int list \<Rightarrow> int list \<times> int list" where
  "generic_fir fir [] hist = ([], hist)"
| "generic_fir fir (x # xs) hist =
     (case generic_fir fir xs (tl hist @ [x]) of (ys, hist') \<Rightarrow> (to_int16 (drop_bit 15 (fir_tap fir hist)) # ys, hist'))"

section \<open>Discriminators\<close>

text \<open>\<open>None\<close>: an intermediate value is outside \<open>int\<close>.\<close>

definition multiply :: "int \<Rightarrow> int \<Rightarrow> int \<Rightarrow> int \<Rightarrow> (int \<times> int) option" where
  "multiply ar aj br bj =
     (let cr = ar * br - aj * bj; cj = aj * br + ar * bj in
      if int32 (ar * br) \<and> int32 (aj * bj) \<and> int32 cr \<and> int32 (aj * br) \<and> int32 (ar * bj) \<and> int32 cj
      then Some (cr, cj) else None)"

definition fast_atan2 :: "int \<Rightarrow> int \<Rightarrow> int option" where
  "fast_atan2 y x =
     (let pi4 = 4096; pi34 = 12288; yabs = \<bar>y\<bar> in
      if x = 0 \<and> y = 0 then Some 0
      else if \<not> int32 yabs then None
      else if x \<ge> 0
      then if int32 (x - yabs) \<and> int32 (pi4 * (x - yabs)) \<and> int32 (x + yabs)
           then let angle = pi4 - pi4 * (x - yabs) sdiv (x + yabs) in Some (if y < 0 then - angle else angle)
           else None
      else if int32 (x + yabs) \<and> int32 (pi4 * (x + yabs)) \<and> int32 (yabs - x)
           then let angle = pi34 - pi4 * (x + yabs) sdiv (yabs - x) in Some (if y < 0 then - angle else angle)
           else None)"

definition polar_disc_fast :: "int \<Rightarrow> int \<Rightarrow> int \<Rightarrow> int \<Rightarrow> int option" where
  "polar_disc_fast ar aj br bj = Option.bind (multiply ar aj br (- bj)) (\<lambda>(cr, cj). fast_atan2 cj cr)"

text \<open>The table of arc tangents is computed in floating point; it is an argument.\<close>

definition polar_disc_lut :: "int list \<Rightarrow> int \<Rightarrow> int \<Rightarrow> int \<Rightarrow> int \<Rightarrow> int option" where
  "polar_disc_lut atan_lut ar aj br bj = Option.bind (multiply ar aj br (- bj)) (\<lambda>(cr, cj).
     if cr = 0 \<and> cj = 0 then Some 0
     else if cr = 0 then Some (if cj > 0 then 2 ^ 13 else - (2 ^ 13))
     else if cj = 0 then Some (if cr > 0 then 0 else 2 ^ 14)
     else if \<not> int32 (cj * 256) then None
     else let x = (cj * 256) sdiv cr in
       if \<bar>x\<bar> \<ge> int (length atan_lut) then Some (if cj > 0 then 2 ^ 13 else - (2 ^ 13))
       else if x > 0 then Some (if cj > 0 then atan_lut ! nat x else atan_lut ! nat x - 2 ^ 14)
       else Some (if cj > 0 then 2 ^ 14 - atan_lut ! nat (- x) else - (atan_lut ! nat (- x))))"

section \<open>Demodulators and audio filters\<close>

text \<open>The first sample is compared with the last of the buffer before by \<open>polar_discriminant\<close> in every mode; \<open>disc\<close> is the
  discriminator chosen. \<open>None\<close> when one of them is undefined.\<close>

fun disc_loop :: "(int \<Rightarrow> int \<Rightarrow> int \<Rightarrow> int \<Rightarrow> int option) \<Rightarrow> int \<times> int \<Rightarrow> (int \<times> int) list \<Rightarrow> int list option" where
  "disc_loop disc pre [] = Some []"
| "disc_loop disc (pr, pj) ((r, j) # lp) =
     Option.bind (disc r j pr pj) (\<lambda>pcm. map_option ((#) (to_int16 pcm)) (disc_loop disc (r, j) lp))"

definition fm_demod :: "(int \<Rightarrow> int \<Rightarrow> int \<Rightarrow> int \<Rightarrow> int option) \<Rightarrow> (int \<Rightarrow> int \<Rightarrow> int \<Rightarrow> int \<Rightarrow> int option) \<Rightarrow>
    (int \<times> int) list \<Rightarrow> int \<times> int \<Rightarrow> (int list \<times> (int \<times> int)) option" where
  "fm_demod polar_discriminant disc lp pre =
     (case lp of [] \<Rightarrow> None
      | (r, j) # rest \<Rightarrow>
        Option.bind (polar_discriminant r j (fst pre) (snd pre)) (\<lambda>pcm.
          map_option (\<lambda>res. (to_int16 pcm # res, last lp)) (disc_loop disc (r, j) rest)))"

definition usb_demod :: "int \<Rightarrow> (int \<times> int) list \<Rightarrow> int list" where
  "usb_demod output_scale lp = map (\<lambda>(r, j). to_int16 (to_int16 (r + j) * output_scale)) lp"

definition lsb_demod :: "int \<Rightarrow> (int \<times> int) list \<Rightarrow> int list" where
  "lsb_demod output_scale lp = map (\<lambda>(r, j). to_int16 (to_int16 (r - j) * output_scale)) lp"

text \<open>\<open>avg\<close> is the static variable of \<open>deemph_filter\<close>.\<close>

fun deemph_filter :: "int \<Rightarrow> int list \<Rightarrow> int \<Rightarrow> int list \<times> int" where
  "deemph_filter deemph_a [] avg = ([], avg)"
| "deemph_filter deemph_a (x # result) avg =
     (let d = x - avg;
          avg = (if d > 0 then avg + (d + deemph_a sdiv 2) sdiv deemph_a else avg + (d - deemph_a sdiv 2) sdiv deemph_a)
      in case deemph_filter deemph_a result avg of (ys, avg') \<Rightarrow> (to_int16 avg # ys, avg'))"

text \<open>\<open>None\<close>: the buffer is empty, and its length is divided by.\<close>

definition dc_block_filter :: "int list \<Rightarrow> int \<Rightarrow> (int list \<times> int) option" where
  "dc_block_filter result dc_avg =
     (if result = [] then None
      else let avg = sum_list result sdiv int (length result); avg = (avg + dc_avg * 9) sdiv 10
        in Some (map (\<lambda>x. to_int16 (x - avg)) result, avg))"

section \<open>Settings\<close>

text \<open>Downsampling, frequency, rate and output scale; \<open>None\<close>: a division by zero. \<open>passes\<close> is not zero when the
  half-band filters are used.\<close>

definition optimal_settings :: "bool \<Rightarrow> bool \<Rightarrow> bool \<Rightarrow> int \<Rightarrow> int \<Rightarrow> int \<Rightarrow> (int \<times> int \<times> int \<times> int) option" where
  "optimal_settings passes offset_tuning is_fm edge freq rate_in =
     (if rate_in = 0 then None
      else let downsample = 1000000 sdiv rate_in + 1;
               downsample = (if passes then 2 ^ floorlog 2 (nat downsample) else downsample);
               capture_rate = downsample * rate_in;
               capture_freq = (if \<not> offset_tuning then freq + capture_rate sdiv 4 else freq) + edge * rate_in sdiv 2;
               output_scale = 32768 sdiv (128 * downsample);
               output_scale = (if output_scale < 1 \<or> is_fm then 1 else output_scale)
        in Some (downsample, capture_freq mod 2 ^ 32, capture_rate mod 2 ^ 32, output_scale))"

section \<open>Rotation\<close>

text \<open>A byte stands for \<open>(2 b - 255) / 2\<close>; multiplication by the imaginary unit.\<close>

definition centred :: "u8 \<Rightarrow> int" where
  "centred b = 2 * uint b - 255"

definition times_i :: "int \<times> int \<Rightarrow> int \<times> int" where
  "times_i z = (- snd z, fst z)"

definition sample_at :: "u8 list \<Rightarrow> nat \<Rightarrow> int \<times> int" where
  "sample_at buf k = (centred (buf ! (2 * k)), centred (buf ! (2 * k + 1)))"

lemma centred_neg: "centred (255 - b) = - centred b"
proof -
  have "uint b < 2 ^ LENGTH(8)" by (rule uint_lt2p)
  then have "uint b \<le> 255" by simp
  then have "uint (255 - b) = 255 - uint b" by (simp add: uint_sub_if')
  then show ?thesis by (simp add: centred_def)
qed

lemma times_i_4: "(times_i ^^ (k + 4)) z = (times_i ^^ k) z"
proof -
  have "(times_i ^^ 4) z = z" for z by (simp add: times_i_def numeral_eq_Suc)
  then show ?thesis by (simp only: funpow_add o_apply)
qed

lemma rotate_90_sample:
  assumes "8 dvd length buf" and "2 * k < length buf"
  shows "sample_at (rotate_90 buf) k = (times_i ^^ k) (sample_at buf k)"
  using assms
proof (induction buf arbitrary: k rule: rotate_90.induct)
  case (1 b0 b1 b2 b3 b4 b5 b6 b7 buf)
  show ?case
  proof (cases "k < 4")
    case True
    then have "k = 0 \<or> k = 1 \<or> k = 2 \<or> k = 3" by linarith
    then show ?thesis
      by (elim disjE) (simp_all add: sample_at_def times_i_def centred_neg numeral_eq_Suc)
  next
    case False
    then obtain m where k: "k = m + 4" by (metis le_add_diff_inverse2 not_less)
    have s: "sample_at (a0 # a1 # a2 # a3 # a4 # a5 # a6 # a7 # xs) (m + 4) = sample_at xs m" for a0 a1 a2 a3 a4 a5 a6 a7 xs
      by (simp add: sample_at_def numeral_eq_Suc)
    have "8 dvd length buf"
    proof -
      have "8 dvd length buf + 8" using "1.prems"(1) by (simp add: numeral_eq_Suc)
      then show ?thesis using dvd_add_left_iff [of 8 8 "length buf"] by simp
    qed
    then have "sample_at (rotate_90 buf) m = (times_i ^^ m) (sample_at buf m)"
      using "1.IH" [of m] "1.prems"(2) k by simp
    then show ?thesis unfolding k rotate_90.simps s times_i_4 .
  qed
qed (auto simp: numeral_eq_Suc dest: dvd_imp_le)

section \<open>The low-pass filter as a stream\<close>

text \<open>The samples as pairs, and the filter as a function on them: the outputs and the sums left.\<close>

fun flat :: "(int \<times> int) list \<Rightarrow> int list" where
  "flat [] = []"
| "flat ((r, j) # xs) = r # j # flat xs"

fun boxcar :: "nat \<Rightarrow> (int \<times> int) list \<Rightarrow> lp_state \<Rightarrow> (int \<times> int) list \<times> lp_state" where
  "boxcar n [] s = ([], s)"
| "boxcar n ((r, j) # xs) s =
     (let s = s\<lparr>now_r := now_r s + r, now_j := now_j s + j, prev_index := prev_index s + 1\<rparr> in
      if prev_index s < n then boxcar n xs s
      else case boxcar n xs \<lparr>now_r = 0, now_j = 0, prev_index = 0\<rparr> of
        (ys, s') \<Rightarrow> ((to_int16 (now_r s), to_int16 (now_j s)) # ys, s'))"

lemma length_flat [simp]: "length (flat xs) = 2 * length xs"
  by (induction xs rule: flat.induct) simp_all

lemma flat_append [simp]: "flat (xs @ ys) = flat xs @ flat ys"
  by (induction xs rule: flat.induct) simp_all

lemma low_pass_loop_boxcar:
  assumes "boxcar n xs s = (ys, s')"
  shows "\<exists>rest. low_pass_loop n (flat out @ mid @ flat xs @ post) (2 * length out + length mid + 2 * length xs)
      (2 * length out + length mid) (2 * length out) s =
    (flat out @ flat ys @ rest, 2 * length out + 2 * length ys, s') \<and>
    length (flat ys @ rest) = length (mid @ flat xs @ post)"
  using assms
proof (induction xs arbitrary: s out mid ys)
  case Nil
  then show ?case by (subst low_pass_loop.simps) simp
next
  case (Cons x xs)
  obtain r j where x: "x = (r, j)" by fastforce
  define s1 where "s1 = s\<lparr>now_r := now_r s + r, now_j := now_j s + j, prev_index := prev_index s + 1\<rparr>"
  let ?a = "flat out @ mid @ flat (x # xs) @ post" and ?i = "2 * length out + length mid"
  let ?n = "2 * length out + length mid + 2 * length (x # xs)"
  have nth: "?a ! ?i = r" "?a ! (?i + 1) = j" by (simp_all add: x nth_append)
  have a: "?a = flat out @ (mid @ [r, j]) @ flat xs @ post" by (simp add: x)
  have step: "low_pass_loop n ?a ?n ?i (2 * length out) s =
      (if prev_index s1 < n then low_pass_loop n ?a ?n (?i + 2) (2 * length out) s1
       else low_pass_loop n (?a[2 * length out := to_int16 (now_r s1), 2 * length out + 1 := to_int16 (now_j s1)]) ?n
         (?i + 2) (2 * length out + 2) \<lparr>now_r = 0, now_j = 0, prev_index = 0\<rparr>)"
    by (subst low_pass_loop.simps) (simp add: nth [simplified] s1_def Let_def)
  show ?case
  proof (cases "prev_index s1 < n")
    case True
    then have "boxcar n xs s1 = (ys, s')" using Cons.prems by (simp add: x s1_def Let_def)
    from Cons.IH [OF this, of out "mid @ [r, j]"] True show ?thesis
      unfolding step by (simp add: x)
  next
    case False
    obtain zs where z: "boxcar n xs \<lparr>now_r = 0, now_j = 0, prev_index = 0\<rparr> = (zs, s')"
      "ys = (to_int16 (now_r s1), to_int16 (now_j s1)) # zs"
      using Cons.prems False by (auto simp: x s1_def Let_def split: prod.splits)
    obtain m0 m1 mid' where m: "mid @ [r, j] = m0 # m1 # mid'" by (cases mid; cases "tl mid") auto
    then have "length (mid @ [r, j]) = length (m0 # m1 # mid')" by simp
    then have l: "length mid' = length mid" by simp
    have u: "?a[2 * length out := v, 2 * length out + 1 := w] = flat (out @ [(v, w)]) @ mid' @ flat xs @ post" for v w
      unfolding a m by (simp add: list_update_append)
    from Cons.IH [OF z(1), of "out @ [(to_int16 (now_r s1), to_int16 (now_j s1))]" mid'] False l z(2) show ?thesis
      unfolding step u by (auto simp: algebra_simps)
  qed
qed

lemma boxcar_append:
  "boxcar n (xs @ ys) s = (case boxcar n xs s of (us, s1) \<Rightarrow> case boxcar n ys s1 of (vs, s2) \<Rightarrow> (us @ vs, s2))"
  by (induction xs s rule: boxcar.induct) (auto simp: Let_def split: prod.splits)

lemma low_pass_boxcar:
  assumes "boxcar n xs s = (ys, s')"
  shows "\<exists>buf. low_pass n (flat xs @ post) (2 * length xs) s = (buf, 2 * length ys, s') \<and> take (2 * length ys) buf = flat ys"
  using low_pass_loop_boxcar [OF assms, of "[]" "[]" post] by (auto simp: low_pass_def)

section \<open>Filters as streams\<close>

text \<open>A filter with a state takes a buffer and gives outputs and the state for the next one. It is a stream when
  it does not matter where a buffer ends.\<close>

fun filter_all :: "('s \<Rightarrow> 'a list \<Rightarrow> 'b list \<times> 's) \<Rightarrow> 's \<Rightarrow> 'a list list \<Rightarrow> 'b list \<times> 's" where
  "filter_all step s [] = ([], s)"
| "filter_all step s (xs # bufs) = (case step s xs of (us, s1) \<Rightarrow> case filter_all step s1 bufs of (vs, s2) \<Rightarrow> (us @ vs, s2))"

locale stream_filter =
  fixes step :: "'s \<Rightarrow> 'a list \<Rightarrow> 'b list \<times> 's"
  assumes step_nil: "step s [] = ([], s)"
    and step_append: "step s (xs @ ys) = (case step s xs of (us, s1) \<Rightarrow> case step s1 ys of (vs, s2) \<Rightarrow> (us @ vs, s2))"
begin

lemma filter_all_concat: "filter_all step s bufs = step s (concat bufs)"
  by (induction bufs arbitrary: s) (simp_all add: step_nil step_append split: prod.split)

end

text \<open>Two filters in a row.\<close>

definition chain :: "('s \<Rightarrow> 'a list \<Rightarrow> 'b list \<times> 's) \<Rightarrow> ('t \<Rightarrow> 'b list \<Rightarrow> 'c list \<times> 't) \<Rightarrow>
    's \<times> 't \<Rightarrow> 'a list \<Rightarrow> 'c list \<times> 's \<times> 't" where
  "chain f g st xs = (case f (fst st) xs of (ys, s') \<Rightarrow> case g (snd st) ys of (zs, t') \<Rightarrow> (zs, s', t'))"

locale filter_chain = f: stream_filter f + g: stream_filter g
  for f :: "'s \<Rightarrow> 'a list \<Rightarrow> 'b list \<times> 's" and g :: "'t \<Rightarrow> 'b list \<Rightarrow> 'c list \<times> 't"

sublocale filter_chain \<subseteq> both: stream_filter "chain f g"
  by unfold_locales (auto simp: chain_def f.step_nil g.step_nil f.step_append g.step_append split: prod.splits)

interpretation box: stream_filter "\<lambda>s xs. boxcar n xs s" for n
  by unfold_locales (simp_all add: boxcar_append)

lemma deemph_append:
  "deemph_filter a (xs @ ys) avg =
    (case deemph_filter a xs avg of (us, s1) \<Rightarrow> case deemph_filter a ys s1 of (vs, s2) \<Rightarrow> (us @ vs, s2))"
  by (induction a xs avg rule: deemph_filter.induct) (auto simp: Let_def split: prod.splits)

interpretation deemph: stream_filter "\<lambda>avg xs. deemph_filter a xs avg" for a
  by unfold_locales (simp_all add: deemph_append)

lemma generic_fir_append:
  "generic_fir fir (xs @ ys) hist =
    (case generic_fir fir xs hist of (us, s1) \<Rightarrow> case generic_fir fir ys s1 of (vs, s2) \<Rightarrow> (us @ vs, s2))"
  by (induction fir xs hist rule: generic_fir.induct) (auto split: prod.splits)

interpretation droop: stream_filter "\<lambda>hist xs. generic_fir fir xs hist" for fir
  by unfold_locales (simp_all add: generic_fir_append)

text \<open>The demodulator of the upper sideband has no state.\<close>

interpretation usb: stream_filter "\<lambda>(s :: unit) xs. (usb_demod scale xs, s)" for scale
  by unfold_locales (simp_all add: usb_demod_def)

interpretation sideband: filter_chain "\<lambda>(s :: unit) xs. (usb_demod scale xs, s)" "\<lambda>avg xs. deemph_filter a xs avg" for scale a
  by unfold_locales

interpretation audio: filter_chain "\<lambda>s xs. boxcar n xs s"
  "chain (\<lambda>(s :: unit) xs. (usb_demod scale xs, s)) (\<lambda>avg xs. deemph_filter a xs avg)" for n scale a
  by unfold_locales

section \<open>The outputs are sums of consecutive samples\<close>

definition lp_zero :: lp_state where
  "lp_zero = \<lparr>now_r = 0, now_j = 0, prev_index = 0\<rparr>"

text \<open>The calls of \<open>low_pass\<close> on one buffer after the other, each in its own array.\<close>

fun low_pass_all :: "nat \<Rightarrow> (int \<times> int) list list \<Rightarrow> lp_state \<Rightarrow> int list" where
  "low_pass_all n [] s = []"
| "low_pass_all n (xs # bufs) s =
     (case low_pass n (flat xs) (2 * length xs) s of (lowpassed, lp_len, s') \<Rightarrow> take lp_len lowpassed @ low_pass_all n bufs s')"

function blocks :: "nat \<Rightarrow> 'a list \<Rightarrow> 'a list list" where
  "blocks n xs = (if n = 0 \<or> length xs < n then [] else take n xs # blocks n (drop n xs))"
  by auto
termination by (relation "measure (\<lambda>(n, xs). length xs)") auto

declare blocks.simps [simp del]

definition block_sum :: "(int \<times> int) list \<Rightarrow> int \<times> int" where
  "block_sum blk = (to_int16 (sum_list (map fst blk)), to_int16 (sum_list (map snd blk)))"

lemma low_pass_all_filter: "low_pass_all n bufs s = flat (fst (filter_all (\<lambda>s xs. boxcar n xs s) s bufs))"
proof (induction bufs arbitrary: s)
  case (Cons xs bufs)
  obtain ys s' where y: "boxcar n xs s = (ys, s')" by fastforce
  then obtain buf where "low_pass n (flat xs) (2 * length xs) s = (buf, 2 * length ys, s')" "take (2 * length ys) buf = flat ys"
    using low_pass_boxcar [OF y, of "[]"] by auto
  then show ?case using y Cons [of s'] by (simp split: prod.split)
qed simp

lemma boxcar_partial:
  "prev_index s + length xs < n \<Longrightarrow> boxcar n xs s =
    ([], \<lparr>now_r = now_r s + sum_list (map fst xs), now_j = now_j s + sum_list (map snd xs), prev_index = prev_index s + length xs\<rparr>)"
  by (induction xs arbitrary: s) (auto simp: Let_def)

lemma boxcar_block:
  assumes "length blk = n" and "0 < n"
  shows "boxcar n blk lp_zero = ([block_sum blk], lp_zero)"
proof -
  obtain xs x where b: "blk = xs @ [x]" using assms by (cases blk rule: rev_cases) auto
  obtain r j where x: "x = (r, j)" by fastforce
  have "boxcar n xs lp_zero = ([], \<lparr>now_r = sum_list (map fst xs), now_j = sum_list (map snd xs), prev_index = length xs\<rparr>)"
    using boxcar_partial [of lp_zero xs n] assms b by (simp add: lp_zero_def)
  then show ?thesis using assms b x by (simp add: boxcar_append Let_def block_sum_def lp_zero_def)
qed

lemma boxcar_blocks: "0 < n \<Longrightarrow> fst (boxcar n xs lp_zero) = map block_sum (blocks n xs)"
proof (induction n xs rule: blocks.induct)
  case (1 n xs)
  show ?case
  proof (cases "length xs < n")
    case True
    then show ?thesis using boxcar_partial [of lp_zero xs n] by (simp add: blocks.simps lp_zero_def)
  next
    case False
    have "boxcar n xs lp_zero = (case boxcar n (drop n xs) lp_zero of (vs, s2) \<Rightarrow> (block_sum (take n xs) # vs, s2))"
      using boxcar_append [of n "take n xs" "drop n xs" lp_zero] boxcar_block [of "take n xs" n] False 1(2) by simp
    with 1 False show ?thesis by (simp add: blocks.simps [of n xs] split: prod.splits)
  qed
qed

section \<open>The approximate arc tangent\<close>

lemma sdiv_bound:
  assumes "\<bar>a\<bar> \<le> k * b" and "0 < b" and "0 \<le> k"
  shows "\<bar>a sdiv b\<bar> \<le> (k :: int)"
proof -
  have "\<bar>a\<bar> div b \<le> k * b div b" using assms by (intro zdiv_mono1)
  then have "\<bar>a\<bar> div \<bar>b\<bar> \<le> k" using assms(2) by simp
  moreover have "0 \<le> \<bar>a\<bar> div \<bar>b\<bar>" using assms(2) by (simp add: pos_imp_zdiv_nonneg_iff)
  ultimately show ?thesis using assms(2,3) by (cases "0 \<le> a") (auto simp: signed_divide_int_def abs_mult sgn_if)
qed

lemma fast_atan2_defined:
  assumes "\<bar>x\<bar> + \<bar>y\<bar> < 2 ^ 19"
  shows "\<exists>a. fast_atan2 y x = Some a \<and> \<bar>a\<bar> \<le> 16384 \<and> (0 \<le> x \<longrightarrow> \<bar>a\<bar> \<le> 8192) \<and> (x < 0 \<longrightarrow> 8192 \<le> \<bar>a\<bar>) \<and> 0 \<le> a * sgn y"
proof -
  have lim: "\<bar>x\<bar> + \<bar>y\<bar> < 524288" using assms by simp
  consider "x = 0 \<and> y = 0" | "x \<ge> 0" "0 < x + \<bar>y\<bar>" | "x < 0" by linarith
  then show ?thesis
  proof cases
    case 2
    define q where "q = 4096 * (x - \<bar>y\<bar>) sdiv (x + \<bar>y\<bar>)"
    have "\<bar>q\<bar> \<le> 4096" unfolding q_def by (rule sdiv_bound) (use 2 in auto)
    moreover have "fast_atan2 y x = Some (if y < 0 then - (4096 - q) else 4096 - q)"
      using 2 lim by (auto simp: fast_atan2_def int32_def Let_def q_def)
    ultimately show ?thesis using 2 by (auto simp: sgn_if)
  next
    case 3
    define q where "q = 4096 * (x + \<bar>y\<bar>) sdiv (\<bar>y\<bar> - x)"
    have "\<bar>q\<bar> \<le> 4096" unfolding q_def by (rule sdiv_bound) (use 3 in auto)
    moreover have "fast_atan2 y x = Some (if y < 0 then - (12288 - q) else 12288 - q)"
      using 3 lim by (auto simp: fast_atan2_def int32_def Let_def q_def)
    ultimately show ?thesis using 3 by (auto simp: sgn_if)
  qed (simp add: fast_atan2_def)
qed

lemma polar_disc_fast_defined:
  assumes "\<bar>ar\<bar> \<le> 360" and "\<bar>aj\<bar> \<le> 360" and "\<bar>br\<bar> \<le> 360" and "\<bar>bj\<bar> \<le> 360"
  shows "\<exists>a. polar_disc_fast ar aj br bj = Some a \<and> \<bar>a\<bar> \<le> 16384"
proof -
  have m: "\<bar>x * y\<bar> \<le> 360 * 360" if "\<bar>x\<bar> \<le> 360" "\<bar>y\<bar> \<le> 360" for x y :: int
    using mult_mono [OF that] by (simp add: abs_mult)
  let ?cr = "ar * br - aj * (- bj)" and ?cj = "aj * br + ar * (- bj)"
  have b: "\<bar>ar * br\<bar> \<le> 129600" "\<bar>aj * bj\<bar> \<le> 129600" "\<bar>aj * br\<bar> \<le> 129600" "\<bar>ar * bj\<bar> \<le> 129600"
    using m assms by force+
  then have "multiply ar aj br (- bj) = Some (?cr, ?cj)" by (auto simp: multiply_def int32_def Let_def)
  moreover have "\<bar>?cr\<bar> + \<bar>?cj\<bar> < 2 ^ 19" using b by simp
  ultimately show ?thesis using fast_atan2_defined [of ?cr ?cj] by (auto simp: polar_disc_fast_def)
qed

section \<open>The half-band filter at the end of a buffer\<close>

text \<open>The last sample of a buffer with an even number of samples has no influence at all, neither on the outputs nor
  on the history.\<close>

lemma fifth_loop_last: "even (length data) \<Longrightarrow> fifth_loop a b c d e f (data @ [v]) = fifth_loop a b c d e f data"
  by (induction a b c d e f data rule: fifth_loop.induct) simp_all

lemma fifth_order_last:
  assumes "odd (length data)"
  shows "fifth_order (data @ [v]) hist = fifth_order data hist"
proof -
  obtain x xs where "data = x # xs" "even (length xs)" using assms by (cases data) auto
  then show ?thesis by (simp add: fifth_order_def fifth_loop_last)
qed

section \<open>De-emphasis\<close>

definition int16 :: "int \<Rightarrow> bool" where
  "int16 x \<longleftrightarrow> - (2 ^ 15) \<le> x \<and> x < 2 ^ 15"

lemma to_int16_id: "int16 x \<Longrightarrow> to_int16 x = x"
  unfolding int16_def to_int16_def by (intro signed_take_bit_int_eq_self) simp_all

lemma sdiv_pos: "0 \<le> x \<Longrightarrow> 0 < y \<Longrightarrow> x sdiv y = x div (y :: int)"
  by (simp add: signed_divide_int_def sgn_if)

lemma sdiv_neg: "0 \<le> x \<Longrightarrow> 0 < y \<Longrightarrow> (- x) sdiv y = - (x div (y :: int))"
  by (auto simp: signed_divide_int_def sgn_if)

text \<open>The step towards the sample: not away from it and not beyond it.\<close>

lemma div_int_less:
  assumes "x < y * a" and "0 < a"
  shows "x div a < (y :: int)"
proof -
  have "x div a * a + x mod a = x" by (rule div_mult_mod_eq)
  moreover have "0 \<le> x mod a" using assms(2) by simp
  ultimately have "x div a * a < y * a" using assms(1) by linarith
  then show ?thesis using assms(2) by simp
qed

lemma deemph_div:
  assumes "1 \<le> a" and "0 \<le> d"
  shows "0 \<le> (d + a sdiv 2) sdiv a" and "(d + a sdiv 2) sdiv a \<le> (d :: int)"
proof -
  have h: "0 \<le> a sdiv 2" "2 * (a sdiv 2) \<le> a" using assms by (simp_all add: sdiv_pos)
  then have q: "(d + a sdiv 2) sdiv a = (d + a sdiv 2) div a" using assms by (intro sdiv_pos) simp_all
  show "0 \<le> (d + a sdiv 2) sdiv a" unfolding q using assms h by (simp add: pos_imp_zdiv_nonneg_iff)
  have "d \<le> a * d" using assms by (simp add: mult_le_cancel_right1)
  then have "d + a sdiv 2 < (d + 1) * a" using h assms by (simp add: algebra_simps)
  then have "(d + a sdiv 2) div a < d + 1" using assms by (intro div_int_less) simp_all
  then show "(d + a sdiv 2) sdiv a \<le> d" unfolding q by simp
qed

definition deemph_step :: "int \<Rightarrow> int \<Rightarrow> int \<Rightarrow> int" where
  "deemph_step a x avg = (let d = x - avg in
     if d > 0 then avg + (d + a sdiv 2) sdiv a else avg + (d - a sdiv 2) sdiv a)"

lemma deemph_step_between:
  assumes "1 \<le> a"
  shows "min x avg \<le> deemph_step a x avg" and "deemph_step a x avg \<le> max x avg"
proof -
  have "(x - avg - a sdiv 2) sdiv a = - ((avg - x + a sdiv 2) sdiv a)" if "x \<le> avg"
  proof -
    have h: "0 \<le> a sdiv 2" using assms by (simp add: sdiv_pos)
    have "(x - avg - a sdiv 2) sdiv a = (- (avg - x + a sdiv 2)) sdiv a" by simp
    also have "\<dots> = - ((avg - x + a sdiv 2) div a)" using that h assms by (intro sdiv_neg) simp_all
    finally show ?thesis using that h assms by (simp add: sdiv_pos)
  qed
  then show "min x avg \<le> deemph_step a x avg" "deemph_step a x avg \<le> max x avg"
    using deemph_div [OF assms, of "x - avg"] deemph_div [OF assms, of "avg - x"]
    by (auto simp: deemph_step_def Let_def)
qed

lemma deemph_filter_between:
  assumes "1 \<le> a" and "list_all int16 xs" and "int16 avg" and "deemph_filter a xs avg = (ys, avg')"
  shows "length ys = length xs \<and> int16 avg' \<and> last (avg # ys) = avg' \<and>
    (\<forall>k < length xs. min (xs ! k) ((avg # ys) ! k) \<le> ys ! k \<and> ys ! k \<le> max (xs ! k) ((avg # ys) ! k))"
  using assms(2-4)
proof (induction xs arbitrary: avg ys)
  case (Cons x xs)
  let ?m = "deemph_step a x avg"
  have m: "min x avg \<le> ?m" "?m \<le> max x avg" by (rule deemph_step_between [OF assms(1)])+
  have i: "int16 ?m" using m Cons.prems by (auto simp: int16_def min_def max_def split: if_splits)
  obtain zs where z: "deemph_filter a xs ?m = (zs, avg')" "ys = ?m # zs"
    using Cons.prems(3) to_int16_id [OF i] by (auto simp: Let_def deemph_step_def split: prod.splits)
  have "length zs = length xs \<and> int16 avg' \<and> last (?m # zs) = avg' \<and>
    (\<forall>k < length xs. min (xs ! k) ((?m # zs) ! k) \<le> zs ! k \<and> zs ! k \<le> max (xs ! k) ((?m # zs) ! k))"
    using Cons.IH [OF _ i z(1)] Cons.prems by simp
  with m z(2) show ?case by (auto simp: nth_Cons' less_Suc_eq_0_disj)
qed simp

section \<open>Properties\<close>

text \<open>\<open>rotate_90\<close> multiplies sample \<open>k\<close> by the \<open>k\<close>-th power of the imaginary unit, on the values the bytes
  stand for, for every buffer of whole groups of eight bytes.\<close>

theorem fm_rotation:
  assumes "8 dvd length buf" and "2 * k < length buf"
  shows "sample_at (rotate_90 buf) k = (times_i ^^ k) (sample_at buf k)"
  by (rule rotate_90_sample [OF assms])

theorem fm_rotation_witness:
  "sample_at (rotate_90 [1, 2, 3, 4, 5, 6, 7, 8]) 3 = (times_i ^^ 3) (sample_at [1, 2, 3, 4, 5, 6, 7, 8] 3)"
  by (rule fm_rotation) (simp, presburger, simp)

text \<open>C25: the low-pass filter works in place and keeps its sums from one buffer to the next; for all lengths of
  the buffers its outputs are the sums of consecutive blocks of \<open>downsample\<close> samples of the whole stream, as 16-bit
  numbers, wherever the buffers end. The same holds for the chain of low-pass filter, demodulator of the upper
  sideband and de-emphasis: its audio does not depend on how the samples are cut into buffers.\<close>

theorem fm_low_pass_stream:
  assumes "0 < downsample"
  shows "low_pass_all downsample bufs lp_zero = flat (map block_sum (blocks downsample (concat bufs))) \<and>
    filter_all (chain (\<lambda>s xs. boxcar downsample xs s)
        (chain (\<lambda>(s :: unit) xs. (usb_demod scale xs, s)) (\<lambda>avg xs. deemph_filter a xs avg))) st bufs =
      chain (\<lambda>s xs. boxcar downsample xs s)
        (chain (\<lambda>(s :: unit) xs. (usb_demod scale xs, s)) (\<lambda>avg xs. deemph_filter a xs avg)) st (concat bufs)"
proof
  show "low_pass_all downsample bufs lp_zero = flat (map block_sum (blocks downsample (concat bufs)))"
    using boxcar_blocks [OF assms, of "concat bufs"] by (simp add: low_pass_all_filter box.filter_all_concat)
qed (rule audio.both.filter_all_concat)

theorem fm_low_pass_stream_witness:
  "low_pass_all 2 [[(1, 2)], [(3, 4), (5, 6)], [(7, -8)]] lp_zero = [4, 6, 12, -2]"
  using fm_low_pass_stream [of 2 "[[(1, 2)], [(3, 4), (5, 6)], [(7, -8)]]"]
  by (simp add: blocks.simps block_sum_def to_int16_id int16_def)

text \<open>the de-emphasis filter never overshoots: each output lies between the one before and the
  sample, so that 16-bit samples give 16-bit averages and the conversion loses nothing.\<close>

theorem fm_deemph_between:
  assumes "1 \<le> deemph_a" and "list_all int16 result" and "int16 avg"
    and "deemph_filter deemph_a result avg = (ys, avg')"
  shows "length ys = length result \<and> int16 avg' \<and> last (avg # ys) = avg' \<and>
    (\<forall>k < length result. min (result ! k) ((avg # ys) ! k) \<le> ys ! k \<and> ys ! k \<le> max (result ! k) ((avg # ys) ! k))"
  by (rule deemph_filter_between [OF assms])

theorem fm_deemph_between_witness:
  "deemph_filter 10 [1000, 1000, -500] 0 = ([100, 190, 121], 121) \<and> int16 121"
proof -
  have f: "deemph_filter 10 [1000, 1000, -500] 0 = ([100, 190, 121], 121)" by code_simp
  have "list_all int16 [1000, 1000, -500]" "int16 0" by (simp_all add: int16_def)
  from fm_deemph_between [OF _ this f] f show ?thesis by simp
qed

text \<open>the approximate discriminator is defined and within the scale of \<open>int16_t\<close> for amplitudes up to 360;
  for 640, the sum of five samples at full scale, it overflows. And the audio
  resampler divides by zero when the output rate is above the input rate, and the half-band filter loses
  the last sample of every buffer.\<close>

theorem fm_fixed_point:
  "(\<bar>ar\<bar> \<le> 360 \<and> \<bar>aj\<bar> \<le> 360 \<and> \<bar>br\<bar> \<le> 360 \<and> \<bar>bj\<bar> \<le> 360 \<longrightarrow>
     (\<exists>a. polar_disc_fast ar aj br bj = Some a \<and> \<bar>a\<bar> \<le> 16384)) \<and>
   polar_disc_fast 640 640 640 640 = None \<and>
   low_pass_real_loop 24000 48000 [1] 0 0 = None \<and>
   (odd (length data) \<longrightarrow> fifth_order (data @ [v]) hist = fifth_order data hist)"
proof -
  have "polar_disc_fast 640 640 640 640 = None" "low_pass_real_loop 24000 48000 [1] 0 0 = None" by code_simp+
  then show ?thesis using polar_disc_fast_defined fifth_order_last by blast
qed

theorem fm_fixed_point_witness:
  "(\<exists>a. polar_disc_fast 100 50 (-30) 360 = Some a \<and> \<bar>a\<bar> \<le> 16384) \<and>
    fifth_order [1, 2, 3, 400] [0, 0, 0, 0, 0, 0] = fifth_order [1, 2, 3] [0, 0, 0, 0, 0, 0]"
  using fm_fixed_point [of 100 50 "-30" 360 "[1, 2, 3]" 400 "[0, 0, 0, 0, 0, 0]"] by simp

end
