(* ===== verification/Fix_Fft.thy ===== *)
theory Fix_Fft
  imports Rtl_Fm Complex_Main
begin

unbundle bit_operations_syntax

text \<open>
  The fixed-point Fourier transform of \<open>rtl_power\<close> (\<open>fix_fft\<close> in src/src/rtl_power.c), in place on pairs of 16-bit numbers: the
  reordering of the samples, the butterflies, the loops over them and over the stages. It is shown to
  be the recursive transform by decimation in time, whose exact counterpart is the discrete Fourier transform, and
  its error is bounded. The table of sines, computed in floating point, is an argument.
\<close>

section \<open>The transform\<close>

definition FIX_MPY :: "int \<Rightarrow> int \<Rightarrow> int" where
  "FIX_MPY a b = (let c = drop_bit 14 (a * b); b = c AND 1 in to_int16 (drop_bit 1 c + b))"

text \<open>The loop that looks for the highest bit of \<open>mr\<close> that is not set. It also stops at zero here, which
  \<open>mr \<le> nn\<close> excludes.\<close>

function halve_loop :: "nat \<Rightarrow> nat \<Rightarrow> nat \<Rightarrow> nat" where
  "halve_loop nn mr l = (let l = l div 2 in if mr + l > nn \<and> 0 < l then halve_loop nn mr l else l)"
  by auto
termination by (relation "measure (\<lambda>(nn, mr, l). l)") auto

declare halve_loop.simps [simp del]

definition next_mr :: "nat \<Rightarrow> nat \<Rightarrow> nat" where
  "next_mr n mr = (let l = halve_loop (n - 1) mr n in (mr AND (l - 1)) + l)"

definition swap :: "nat \<Rightarrow> nat \<Rightarrow> 'a list \<Rightarrow> 'a list" where
  "swap i j xs = xs[i := xs ! j, j := xs ! i]"

text \<open>The samples are pairs; \<open>m\<close> runs from 1 to \<open>n - 1\<close>.\<close>

fun reorder_loop :: "nat \<Rightarrow> nat list \<Rightarrow> nat \<Rightarrow> 'a list \<Rightarrow> 'a list" where
  "reorder_loop n [] mr iq = iq"
| "reorder_loop n (m # ms) mr iq =
     (let mr = next_mr n mr in reorder_loop n ms mr (if mr \<le> m then iq else swap m mr iq))"

definition reorder :: "nat \<Rightarrow> 'a list \<Rightarrow> 'a list" where
  "reorder e iq = reorder_loop (2 ^ e) [1..<2 ^ e] 0 iq"

text \<open>The body of the innermost loop on the samples \<open>i\<close> and \<open>j\<close>, and the loops around it: over the samples
  \<open>m, m + istep, \<dots>\<close>, over \<open>m < l\<close>, over the stages.\<close>

definition fix_pair :: "int \<times> int \<Rightarrow> int \<times> int \<Rightarrow> int \<times> int \<Rightarrow> (int \<times> int) \<times> (int \<times> int)" where
  "fix_pair = (\<lambda>(wr, wi) (qr, qi) (jr, ji).
     let tr = to_int16 (FIX_MPY wr jr - FIX_MPY wi ji); ti = to_int16 (FIX_MPY wr ji + FIX_MPY wi jr);
         qr = drop_bit 1 qr; qi = drop_bit 1 qi
     in ((to_int16 (qr + tr), to_int16 (qi + ti)), (to_int16 (qr - tr), to_int16 (qi - ti))))"

definition butterfly :: "('a \<Rightarrow> 'a \<Rightarrow> 'a \<times> 'a) \<Rightarrow> nat \<Rightarrow> nat \<Rightarrow> 'a list \<Rightarrow> 'a list" where
  "butterfly f i j iq = (case f (iq ! i) (iq ! j) of (u, v) \<Rightarrow> iq[j := v, i := u])"

function fft_inner :: "('a \<Rightarrow> 'a \<Rightarrow> 'a \<times> 'a) \<Rightarrow> nat \<Rightarrow> nat \<Rightarrow> nat \<Rightarrow> 'a list \<Rightarrow> 'a list" where
  "fft_inner f l n i iq = (if i < n \<and> 0 < l then fft_inner f l n (i + 2 * l) (butterfly f i (i + l) iq) else iq)"
  by auto
termination by (relation "measure (\<lambda>(f, l, n, i, iq). n - i)") auto

declare fft_inner.simps [simp del]

definition twiddle :: "(nat \<Rightarrow> int) \<Rightarrow> nat \<Rightarrow> nat \<Rightarrow> nat \<Rightarrow> int \<times> int" where
  "twiddle Sinewave N_WAVE k m =
     (let j = push_bit k m in (drop_bit 1 (Sinewave (j + N_WAVE div 4)), drop_bit 1 (to_int16 (- Sinewave j))))"

definition fft_stage :: "(nat \<Rightarrow> 'a \<Rightarrow> 'a \<Rightarrow> 'a \<times> 'a) \<Rightarrow> nat \<Rightarrow> nat \<Rightarrow> 'a list \<Rightarrow> 'a list" where
  "fft_stage f l n iq = fold (\<lambda>m iq. fft_inner (f m) l n m iq) [0..<l] iq"

function fft_stages :: "(nat \<Rightarrow> nat \<Rightarrow> 'a \<Rightarrow> 'a \<Rightarrow> 'a \<times> 'a) \<Rightarrow> nat \<Rightarrow> nat \<Rightarrow> nat \<Rightarrow> 'a list \<Rightarrow> 'a list" where
  "fft_stages f n k l iq =
     (if l < n \<and> 0 < l then fft_stages f n (k - 1) (2 * l) (fft_stage (f k) l n iq) else iq)"
  by auto
termination by (relation "measure (\<lambda>(f, n, k, l, iq). n - l)") auto

declare fft_stages.simps [simp del]

text \<open>\<open>None\<close> stands for the result \<open>-1\<close>: the table of sines is too short.\<close>

definition fix_fft :: "(nat \<Rightarrow> int) \<Rightarrow> nat \<Rightarrow> (int \<times> int) list \<Rightarrow> nat \<Rightarrow> (int \<times> int) list option" where
  "fix_fft Sinewave LOG2_N_WAVE iq m =
     (let n = 2 ^ m; N_WAVE = 2 ^ LOG2_N_WAVE in
      if n > N_WAVE then None
      else Some (fft_stages (\<lambda>k m. fix_pair (twiddle Sinewave N_WAVE k m)) n (LOG2_N_WAVE - 1) 1 (reorder m iq)))"

section \<open>The order of the samples\<close>

text \<open>The reversal of \<open>e\<close> bits.\<close>

fun bitrev :: "nat \<Rightarrow> nat \<Rightarrow> nat" where
  "bitrev 0 m = 0"
| "bitrev (Suc e) m = m mod 2 * 2 ^ e + bitrev e (m div 2)"

lemma bitrev_less: "bitrev e m < 2 ^ e"
proof (induction e arbitrary: m)
  case (Suc e)
  have "m mod 2 * 2 ^ e \<le> 1 * 2 ^ e" by (intro mult_right_mono) (simp_all add: mod2_eq_if)
  then have "bitrev (Suc e) m < 2 ^ e + 2 ^ e" using Suc [of "m div 2"] by (simp only: bitrev.simps mult_1)
  then show ?case by simp
qed simp

lemma bitrev_0 [simp]: "bitrev e 0 = 0"
  by (induction e) simp_all

lemma bitrev_top: "m < 2 ^ e \<Longrightarrow> b < 2 \<Longrightarrow> bitrev (Suc e) (b * 2 ^ e + m) = 2 * bitrev e m + b"
proof (induction e arbitrary: m)
  case (Suc e)
  have d: "(b * 2 ^ Suc e + m) div 2 = b * 2 ^ e + m div 2" "(b * 2 ^ Suc e + m) mod 2 = m mod 2"
    by (simp_all add: mult.assoc [symmetric] mult.commute [of 2] div_add)
  have "m div 2 < 2 ^ e" using Suc.prems by (simp add: less_mult_imp_div_less)
  then have "bitrev (Suc e) (b * 2 ^ e + m div 2) = 2 * bitrev e (m div 2) + b" using Suc.IH Suc.prems by simp
  then have "bitrev (Suc (Suc e)) (b * 2 ^ Suc e + m) = m mod 2 * 2 ^ Suc e + (2 * bitrev e (m div 2) + b)"
    by (simp only: bitrev.simps(2) [of "Suc e"] d)
  then show ?case by simp
qed simp

lemma bitrev_bitrev: "m < 2 ^ e \<Longrightarrow> bitrev e (bitrev e m) = m"
proof (induction e arbitrary: m)
  case (Suc e)
  have "m div 2 < 2 ^ e" using Suc.prems by (simp add: less_mult_imp_div_less)
  then show ?case
    using bitrev_top [OF bitrev_less, of "m mod 2" e "m div 2"] Suc.IH [of "m div 2"] by simp
qed simp

lemma halve_low: "r < 2 ^ e \<Longrightarrow> halve_loop (2 ^ Suc e - 1) r (2 ^ Suc e) = 2 ^ e"
proof -
  assume "r < 2 ^ e"
  then have "\<not> 2 ^ Suc e - 1 < r + 2 ^ e" by (simp only: power_Suc)
  then show ?thesis by (subst halve_loop.simps) (simp add: Let_def)
qed

lemma halve_shift: "halve_loop (2 ^ Suc e - 1) (2 ^ e + r) l = halve_loop (2 ^ e - 1) r l"
proof (induction l rule: less_induct)
  case (less l)
  have c: "2 ^ Suc e - 1 < 2 ^ e + r + l div 2 \<longleftrightarrow> 2 ^ e - 1 < r + l div 2"
    using one_le_power [of "2 :: nat" e] by auto
  show ?case
  proof (cases "2 ^ e - 1 < r + l div 2 \<and> 0 < l div 2")
    case True
    then have "halve_loop (2 ^ Suc e - 1) (2 ^ e + r) (l div 2) = halve_loop (2 ^ e - 1) r (l div 2)"
      by (intro less.IH) auto
    with True c show ?thesis by (simp add: halve_loop.simps [of _ _ l] Let_def del: power_Suc)
  next
    case False
    with c show ?thesis by (auto simp: halve_loop.simps [of _ _ l] Let_def simp del: power_Suc)
  qed
qed

lemma and_exp: "a AND (2 ^ i - 1) = a mod (2 ^ i :: nat)"
  by (metis take_bit_eq_mask mask_eq_exp_minus_1 take_bit_eq_mod)

lemma halve_loop_bitrev:
  "m + 1 < 2 ^ e \<Longrightarrow> \<exists>i \<le> e. halve_loop (2 ^ e - 1) (bitrev e m) (2 ^ e) = 2 ^ i \<and> bitrev e m mod 2 ^ i + 2 ^ i = bitrev e (m + 1)"
proof (induction e arbitrary: m)
  case (Suc e)
  let ?k = "m div 2"
  show ?case
  proof (cases "even m")
    case True
    then have m: "bitrev (Suc e) m = bitrev e ?k" "bitrev (Suc e) (m + 1) = 2 ^ e + bitrev e ?k" by (simp_all add: mod2_eq_if)
    have h: "halve_loop (2 ^ Suc e - 1) (bitrev e ?k) (2 ^ Suc e) = 2 ^ e" by (rule halve_low [OF bitrev_less])
    show ?thesis unfolding m h using bitrev_less [of e ?k] by (intro exI [of _ e]) simp
  next
    case False
    then have k: "?k + 1 < 2 ^ e" using Suc.prems by (auto elim!: oddE)
    have m: "bitrev (Suc e) m = 2 ^ e + bitrev e ?k" "bitrev (Suc e) (m + 1) = bitrev e (?k + 1)"
      using False by (auto elim!: oddE)
    have "2 ^ Suc e - 1 < 2 ^ e + bitrev e ?k + (2 :: nat) ^ e"
      using one_le_power [of "2 :: nat" e] by (simp only: power_Suc) linarith
    then have "halve_loop (2 ^ Suc e - 1) (2 ^ e + bitrev e ?k) (2 ^ Suc e) =
        halve_loop (2 ^ Suc e - 1) (2 ^ e + bitrev e ?k) (2 ^ e)"
      by (subst halve_loop.simps) (simp add: Let_def)
    then have h: "halve_loop (2 ^ Suc e - 1) (2 ^ e + bitrev e ?k) (2 ^ Suc e) = halve_loop (2 ^ e - 1) (bitrev e ?k) (2 ^ e)"
      unfolding halve_shift .
    obtain i where i: "i \<le> e" "halve_loop (2 ^ e - 1) (bitrev e ?k) (2 ^ e) = 2 ^ i"
      "bitrev e ?k mod 2 ^ i + 2 ^ i = bitrev e (?k + 1)" using Suc.IH [OF k] by blast
    have "(2 ^ e + bitrev e ?k) mod 2 ^ i = bitrev e ?k mod 2 ^ i"
      using le_imp_power_dvd [OF i(1), of "2 :: nat"] by (simp add: mod_add_left_eq [symmetric])
    then show ?thesis unfolding m h using i by (intro exI [of _ i]) simp
  qed
qed simp

lemma next_mr_bitrev: "m + 1 < 2 ^ e \<Longrightarrow> next_mr (2 ^ e) (bitrev e m) = bitrev e (m + 1)"
  using halve_loop_bitrev [of m e] by (auto simp: next_mr_def Let_def and_exp [unfolded One_nat_def])

section \<open>The loop\<close>

definition half_done :: "nat \<Rightarrow> 'a list \<Rightarrow> nat \<Rightarrow> 'a list \<Rightarrow> bool" where
  "half_done e xs m iq \<longleftrightarrow> length iq = 2 ^ e \<and>
     (\<forall>i < 2 ^ e. iq ! i = (if min i (bitrev e i) < m then xs ! bitrev e i else xs ! i))"

lemma half_done_step:
  assumes "half_done e xs m iq" and "m < 2 ^ e"
  shows "half_done e xs (Suc m) (if bitrev e m \<le> m then iq else swap m (bitrev e m) iq)"
proof -
  have l: "length iq = 2 ^ e" using assms(1) by (simp add: half_done_def)
  have old: "iq ! i = (if min i (bitrev e i) < m then xs ! bitrev e i else xs ! i)" if "i < 2 ^ e" for i
    using assms(1) that by (simp add: half_done_def)
  have inv: "bitrev e i = m \<longleftrightarrow> i = bitrev e m" if "i < 2 ^ e" for i
    using that assms(2) bitrev_bitrev by metis
  have r: "bitrev e m < 2 ^ e" by (rule bitrev_less)
  have new: "(if bitrev e m \<le> m then iq else swap m (bitrev e m) iq) ! i =
      (if min i (bitrev e i) < Suc m then xs ! bitrev e i else xs ! i)" if i: "i < 2 ^ e" for i
  proof (cases "bitrev e m \<le> m")
    case True
    have "i = m \<and> bitrev e m = m" if "min i (bitrev e i) = m"
      using that inv [OF i] True by (auto simp: min_def split: if_splits)
    with old [OF i] True show ?thesis by (cases "min i (bitrev e i) = m") (auto simp: less_Suc_eq)
  next
    case False
    have rr: "bitrev e (bitrev e m) = m" by (rule bitrev_bitrev [OF assms(2)])
    consider "i = m" | "i = bitrev e m" "i \<noteq> m" | "i \<noteq> m" "i \<noteq> bitrev e m" by blast
    then show ?thesis
    proof cases
      case 1
      then show ?thesis using False l r assms(2) old [OF r] rr by (simp add: swap_def)
    next
      case 2
      then show ?thesis using False l r assms(2) old [OF assms(2)] rr by (simp add: swap_def)
    next
      case 3
      then have "min i (bitrev e i) \<noteq> m" using inv [OF i] by (auto simp: min_def)
      then show ?thesis using 3 False old [OF i] by (simp add: swap_def less_Suc_eq)
    qed
  qed
  show ?thesis unfolding half_done_def using l new by (simp add: swap_def)
qed

lemma reorder_loop_bitrev:
  "half_done e xs m iq \<Longrightarrow> 1 \<le> m \<Longrightarrow> m \<le> 2 ^ e \<Longrightarrow>
    half_done e xs (2 ^ e) (reorder_loop (2 ^ e) [m..<2 ^ e] (bitrev e (m - 1)) iq)"
proof (induction "2 ^ e - m" arbitrary: m iq)
  case (Suc k)
  then have m: "m < 2 ^ e" "[m..<2 ^ e] = m # [Suc m..<2 ^ e]" by (simp_all add: upt_conv_Cons)
  have mr: "next_mr (2 ^ e) (bitrev e (m - 1)) = bitrev e m"
    using next_mr_bitrev [of "m - 1" e] m Suc.prems(2) by simp
  have "k = 2 ^ e - Suc m" "1 \<le> Suc m" "Suc m \<le> 2 ^ e" using Suc.hyps(2) m by simp_all
  from Suc.hyps(1) [OF this(1) half_done_step [OF Suc.prems(1) m(1)] this(2,3)] show ?case
    unfolding m(2) reorder_loop.simps mr Let_def by simp
qed simp

lemma reorder_bitrev:
  assumes "length iq = 2 ^ e"
  shows "reorder e iq = map (\<lambda>i. iq ! bitrev e i) [0..<2 ^ e]"
proof -
  have "bitrev e i = 0 \<Longrightarrow> i < 2 ^ e \<Longrightarrow> i = 0" for i using bitrev_bitrev [of i e] by simp
  then have "half_done e iq 1 iq"
    using assms by (auto simp: half_done_def min_def)
  from reorder_loop_bitrev [OF this] have "half_done e iq (2 ^ e) (reorder e iq)" by (simp add: reorder_def)
  then show ?thesis
    using bitrev_less by (intro nth_equalityI) (auto simp: half_done_def min_less_iff_disj)
qed

section \<open>The loops compute the recursive transform\<close>

text \<open>The transform by decimation in time: the even and the odd samples are transformed and combined.\<close>

definition evens :: "'a list \<Rightarrow> 'a list" where
  "evens xs = map (\<lambda>i. xs ! (2 * i)) [0..<length xs div 2]"

definition odds :: "'a list \<Rightarrow> 'a list" where
  "odds xs = map (\<lambda>i. xs ! (2 * i + 1)) [0..<length xs div 2]"

definition combine :: "(nat \<Rightarrow> 'a \<Rightarrow> 'a \<Rightarrow> 'a \<times> 'a) \<Rightarrow> 'a list \<Rightarrow> 'a list \<Rightarrow> 'a list" where
  "combine f us vs =
     map (\<lambda>m. fst (f m (us ! m) (vs ! m))) [0..<length us] @ map (\<lambda>m. snd (f m (us ! m) (vs ! m))) [0..<length us]"

fun fft_rec :: "(nat \<Rightarrow> nat \<Rightarrow> 'a \<Rightarrow> 'a \<Rightarrow> 'a \<times> 'a) \<Rightarrow> nat \<Rightarrow> 'a list \<Rightarrow> 'a list" where
  "fft_rec f 0 xs = xs"
| "fft_rec f (Suc e) xs = combine (f e) (fft_rec f e (evens xs)) (fft_rec f e (odds xs))"

lemma length_halves [simp]: "length (evens xs) = length xs div 2" "length (odds xs) = length xs div 2"
  by (simp_all add: evens_def odds_def)

lemma length_combine [simp]: "length (combine f us vs) = 2 * length us"
  by (simp add: combine_def)

lemma length_fft_rec [simp]: "length xs = 2 ^ e \<Longrightarrow> length (fft_rec f e xs) = 2 ^ e"
  by (induction f e xs rule: fft_rec.induct) simp_all

lemma reorder_Suc:
  assumes "length xs = 2 ^ Suc e"
  shows "reorder (Suc e) xs = reorder e (evens xs) @ reorder e (odds xs)"
proof (rule nth_equalityI)
  have h: "length (evens xs) = 2 ^ e" "length (odds xs) = 2 ^ e" using assms by simp_all
  show "length (reorder (Suc e) xs) = length (reorder e (evens xs) @ reorder e (odds xs))"
    using assms h by (simp add: reorder_bitrev)
  fix i
  assume "i < length (reorder (Suc e) xs)"
  then have i: "i < 2 ^ Suc e" using assms by (simp add: reorder_bitrev)
  show "reorder (Suc e) xs ! i = (reorder e (evens xs) @ reorder e (odds xs)) ! i"
  proof (cases "i < 2 ^ e")
    case True
    then have "bitrev (Suc e) i = 2 * bitrev e i" using bitrev_top [of i e 0] by simp
    then show ?thesis using True i assms h bitrev_less [of e i]
      by (simp add: reorder_bitrev nth_append evens_def del: bitrev.simps)
  next
    case False
    define k where "k = i - 2 ^ e"
    have k: "i = 1 * 2 ^ e + k" "k < 2 ^ e" using False i by (simp_all add: k_def)
    then have "bitrev (Suc e) i = 2 * bitrev e k + 1" using bitrev_top [of k e 1] by simp
    then show ?thesis using k i assms h bitrev_less [of e k]
      by (simp add: reorder_bitrev nth_append odds_def del: bitrev.simps)
  qed
qed

lemma length_butterfly [simp]: "length (butterfly f i j iq) = length iq"
  by (simp add: butterfly_def split: prod.split)

lemma length_fft_inner [simp]: "length (fft_inner f l n i iq) = length iq"
  by (induction f l n i iq rule: fft_inner.induct) (subst fft_inner.simps, simp)

lemma nth_butterfly:
  "i < length iq \<Longrightarrow> j < length iq \<Longrightarrow> i \<noteq> j \<Longrightarrow>
    butterfly f i j iq ! p = (if p = i then fst (f (iq ! i) (iq ! j)) else if p = j then snd (f (iq ! i) (iq ! j)) else iq ! p)"
  by (simp add: butterfly_def split: prod.split)

text \<open>The innermost loop changes the samples \<open>m\<close> and \<open>m + l\<close> of each block of \<open>2 l\<close>, from the block \<open>b\<close> on.\<close>

lemma block_unique:
  assumes "r < d" and "m < d"
  shows "d * q + r = d * b + m \<longleftrightarrow> q = b \<and> (r :: nat) = m"
proof
  assume "d * q + r = d * b + m"
  then have "(d * q + r) div d = (d * b + m) div d" "(d * q + r) mod d = (d * b + m) mod d" by simp_all
  then show "q = b \<and> r = m" using assms by simp
qed simp

lemma block_less: "r < d \<Longrightarrow> d * q + r < d * c \<longleftrightarrow> q < (c :: nat)"
proof -
  assume r: "r < d"
  show ?thesis
  proof (cases "q < c")
    case True
    then have "d * (q + 1) \<le> d * c" by (intro mult_le_mono2) simp
    with r True show ?thesis by simp
  next
    case False
    then have "d * c \<le> d * q" by simp
    with False show ?thesis by linarith
  qed
qed

lemma nth_fft_inner:
  assumes "m < l" and "q < c" and "r < 2 * l"
  shows "length iq = 2 * l * c \<Longrightarrow> fft_inner f l (2 * l * c) (2 * l * b + m) iq ! (2 * l * q + r) =
      (if b \<le> q \<and> r = m then fst (f (iq ! (2 * l * q + m)) (iq ! (2 * l * q + (m + l))))
       else if b \<le> q \<and> r = m + l then snd (f (iq ! (2 * l * q + m)) (iq ! (2 * l * q + (m + l)))) else iq ! (2 * l * q + r))"
proof (induction "c - b" arbitrary: b iq)
  case 0
  have "\<not> 2 * l * b + m < 2 * l * c" using 0 assms block_less [of m "2 * l" b c] by simp
  then show ?case using 0 assms by (subst fft_inner.simps) simp
next
  case (Suc k)
  let ?i = "2 * l * b + m" and ?j = "2 * l * b + (m + l)"
  let ?iq = "butterfly f ?i ?j iq"
  have i: "?i < 2 * l * c" "?j < 2 * l * c" using Suc.hyps(2) assms by (simp_all only: block_less)
  have u: "fft_inner f l (2 * l * c) ?i iq = fft_inner f l (2 * l * c) (2 * l * Suc b + m) ?iq"
    using i assms by (subst fft_inner.simps) (simp add: algebra_simps)
  have at: "?iq ! (2 * l * a + s) = (if a = b \<and> s = m then fst (f (iq ! ?i) (iq ! ?j))
      else if a = b \<and> s = m + l then snd (f (iq ! ?i) (iq ! ?j)) else iq ! (2 * l * a + s))" if "s < 2 * l" for a s
    using i Suc.prems that assms by (subst nth_butterfly) (simp_all only: block_unique, simp_all)
  have "k = c - Suc b" using Suc.hyps(2) by simp
  from Suc.hyps(1) [OF this, of ?iq] Suc.prems show ?case
    unfolding u using assms by (auto simp: at simp del: mult_Suc_right)
qed


lemma length_fft_fold [simp]: "length (fold (\<lambda>m iq. fft_inner (f m) l n m iq) ms iq) = length iq"
  by (induction ms arbitrary: iq) simp_all

lemma length_fft_stage [simp]: "length (fft_stage f l n iq) = length iq"
  by (simp add: fft_stage_def)

lemma nth_fft_fold:
  assumes "q < c" and "r < 2 * l" and "length iq = 2 * l * c"
  shows "M \<le> l \<Longrightarrow> fold (\<lambda>m iq. fft_inner (f m) l (2 * l * c) m iq) [0..<M] iq ! (2 * l * q + r) =
      (if r < M then fst (f r (iq ! (2 * l * q + r)) (iq ! (2 * l * q + (r + l))))
       else if l \<le> r \<and> r < l + M then snd (f (r - l) (iq ! (2 * l * q + (r - l))) (iq ! (2 * l * q + r)))
       else iq ! (2 * l * q + r))"
  using assms(2)
proof (induction M arbitrary: r)
  case (Suc M)
  let ?iq = "fold (\<lambda>m iq. fft_inner (f m) l (2 * l * c) m iq) [0..<M] iq"
  have "fft_inner (f M) l (2 * l * c) M ?iq ! (2 * l * q + r) =
      (if r = M then fst (f M (?iq ! (2 * l * q + M)) (?iq ! (2 * l * q + (M + l))))
       else if r = M + l then snd (f M (?iq ! (2 * l * q + M)) (?iq ! (2 * l * q + (M + l)))) else ?iq ! (2 * l * q + r))"
    using nth_fft_inner [of M l q c r ?iq "f M" 0] Suc.prems assms by simp
  then show ?case using Suc.prems by (simp add: Suc.IH)
qed auto

lemma nth_fft_stage:
  assumes "q < c" and "r < 2 * l" and "length iq = 2 * l * c"
  shows "fft_stage f l (2 * l * c) iq ! (2 * l * q + r) =
      (if r < l then fst (f r (iq ! (2 * l * q + r)) (iq ! (2 * l * q + (r + l))))
       else snd (f (r - l) (iq ! (2 * l * q + (r - l))) (iq ! (2 * l * q + r))))"
  using nth_fft_fold [OF assms, of l] assms(2) by (simp add: fft_stage_def)

text \<open>A stage works on the halves independently, as long as its blocks fit in them; the last one combines them.\<close>

lemma fft_stage_append:
  assumes "length us = 2 * l * c" and "length vs = 2 * l * d" and "0 < l"
  shows "fft_stage f l (2 * l * (c + d)) (us @ vs) = fft_stage f l (2 * l * c) us @ fft_stage f l (2 * l * d) vs"
proof (rule nth_equalityI)
  fix p
  assume "p < length (fft_stage f l (2 * l * (c + d)) (us @ vs))"
  then have p: "p < 2 * l * (c + d)" using assms by (simp add: algebra_simps)
  define q r where "q = p div (2 * l)" and "r = p mod (2 * l)"
  have pq: "p = 2 * l * q + r" "r < 2 * l" using assms(3) by (simp_all add: q_def r_def)
  then have q: "q < c + d" using p by (simp only: block_less)
  have whole: "fft_stage f l (2 * l * (c + d)) (us @ vs) ! p =
        (if r < l then fst (f r ((us @ vs) ! (2 * l * q + r)) ((us @ vs) ! (2 * l * q + (r + l))))
         else snd (f (r - l) ((us @ vs) ! (2 * l * q + (r - l))) ((us @ vs) ! (2 * l * q + r))))"
      unfolding pq(1) using q pq(2) assms by (intro nth_fft_stage) (simp_all add: distrib_left)
  show "fft_stage f l (2 * l * (c + d)) (us @ vs) ! p = (fft_stage f l (2 * l * c) us @ fft_stage f l (2 * l * d) vs) ! p"
  proof (cases "q < c")
    case True
    have less: "2 * l * q + s < 2 * l * c" if "s < 2 * l" for s using that True by (simp only: block_less)
    have n: "(us @ vs) ! (2 * l * q + s) = us ! (2 * l * q + s)" if "s < 2 * l" for s
      using less [OF that] assms(1) by (simp add: nth_append)
    have "(fft_stage f l (2 * l * c) us @ fft_stage f l (2 * l * d) vs) ! p = fft_stage f l (2 * l * c) us ! (2 * l * q + r)"
      using less [OF pq(2)] assms(1) pq by (simp add: nth_append)
    with whole show ?thesis using n [of r] n [of "r + l"] n [of "r - l"] True assms(1) pq(2) by (cases "r < l") (simp_all add: nth_fft_stage)
  next
    case False
    define b where "b = q - c"
    have b: "q = c + b" "b < d" using False q by (simp_all add: b_def)
    have n: "(us @ vs) ! (2 * l * q + s) = vs ! (2 * l * b + s)" for s
      using b assms(1) by (simp add: nth_append distrib_left)
    have x: "(fft_stage f l (2 * l * c) us @ fft_stage f l (2 * l * d) vs) ! p = fft_stage f l (2 * l * d) vs ! (2 * l * b + r)"
      using b assms(1) pq by (simp add: nth_append distrib_left)
    show ?thesis unfolding whole n x using b(2) assms(2) pq(2) by (simp only: nth_fft_stage)
  qed
qed (use assms in \<open>simp add: distrib_left\<close>)

lemma fft_stage_last:
  assumes "length us = l" and "length vs = l"
  shows "fft_stage f l (2 * l) (us @ vs) = combine f us vs"
proof (rule nth_equalityI)
  fix p
  assume "p < length (fft_stage f l (2 * l) (us @ vs))"
  then have "p < 2 * l" using assms by simp
  then show "fft_stage f l (2 * l) (us @ vs) ! p = combine f us vs ! p"
    using nth_fft_stage [of 0 1 p l "us @ vs" f] assms by (cases "p < l") (auto simp: combine_def nth_append)
qed (use assms in simp)

lemma fft_stages_fold:
  "t \<le> e \<Longrightarrow> fft_stages f (2 ^ e) (k - t) (2 ^ t) iq = fold (\<lambda>t. fft_stage (f (k - t)) (2 ^ t) (2 ^ e)) [t..<e] iq"
proof (induction "e - t" arbitrary: t iq)
  case 0
  then show ?case by (subst fft_stages.simps) simp
next
  case (Suc d)
  then have t: "t < e" "[t..<e] = t # [Suc t..<e]" by (simp_all add: upt_conv_Cons)
  then have "fft_stages f (2 ^ e) (k - t) (2 ^ t) iq =
      fft_stages f (2 ^ e) (k - Suc t) (2 ^ Suc t) (fft_stage (f (k - t)) (2 ^ t) (2 ^ e) iq)"
    by (subst fft_stages.simps) simp
  then show ?case using Suc.hyps(1) [of "Suc t"] Suc.hyps(2) t by simp
qed

lemma fft_fold_append:
  "length us = 2 ^ e \<Longrightarrow> length vs = 2 ^ e \<Longrightarrow> t \<le> e \<Longrightarrow>
    fold (\<lambda>t. fft_stage (f t) (2 ^ t) (2 ^ Suc e)) [0..<t] (us @ vs) =
      fold (\<lambda>t. fft_stage (f t) (2 ^ t) (2 ^ e)) [0..<t] us @ fold (\<lambda>t. fft_stage (f t) (2 ^ t) (2 ^ e)) [0..<t] vs"
proof (induction t)
  case (Suc t)
  have l: "length (fold (\<lambda>t. fft_stage (f t) (2 ^ t) (2 ^ e)) [0..<t] ws) = length ws" for ws
    by (induction t) simp_all
  define c where "c = (2 :: nat) ^ (e - Suc t)"
  have c: "2 ^ e = 2 * 2 ^ t * c" "2 ^ Suc e = 2 * 2 ^ t * (c + c)"
  proof -
    show "2 ^ e = 2 * 2 ^ t * c"
      using Suc.prems(3) by (simp add: c_def power_add [symmetric] power_Suc [symmetric] del: power_Suc)
    then show "2 ^ Suc e = 2 * 2 ^ t * (c + c)" by simp
  qed
  show ?case using Suc fft_stage_append [of _ "2 ^ t" c _ c "f t"] l by (simp add: c del: power_Suc)
qed simp

lemma fft_fold_rec:
  "length xs = 2 ^ e \<Longrightarrow> fold (\<lambda>t. fft_stage (f t) (2 ^ t) (2 ^ e)) [0..<e] (reorder e xs) = fft_rec f e xs"
proof (induction e arbitrary: xs)
  case 0
  then show ?case by (simp add: reorder_def)
next
  case (Suc e)
  let ?pass = "\<lambda>e xs. fold (\<lambda>t. fft_stage (f t) (2 ^ t) (2 ^ e)) [0..<e] (reorder e xs)"
  have h: "length (evens xs) = 2 ^ e" "length (odds xs) = 2 ^ e" using Suc.prems by simp_all
  have "fold (\<lambda>t. fft_stage (f t) (2 ^ t) (2 ^ Suc e)) [0..<e] (reorder (Suc e) xs) = ?pass e (evens xs) @ ?pass e (odds xs)"
    unfolding reorder_Suc [OF Suc.prems] using h by (intro fft_fold_append) (simp_all add: reorder_bitrev)
  also have "\<dots> = fft_rec f e (evens xs) @ fft_rec f e (odds xs)" by (simp only: Suc.IH h)
  finally have "?pass (Suc e) xs = fft_stage (f e) (2 ^ e) (2 * 2 ^ e) (fft_rec f e (evens xs) @ fft_rec f e (odds xs))"
    by simp
  then show ?case using h by (simp only: fft_stage_last length_fft_rec fft_rec.simps)
qed

lemma fix_fft_rec:
  assumes "length iq = 2 ^ e"
  shows "fix_fft Sinewave L iq e =
    (if e \<le> L then Some (fft_rec (\<lambda>t m. fix_pair (twiddle Sinewave (2 ^ L) (L - 1 - t) m)) e iq) else None)"
  using fft_stages_fold [of 0 e "\<lambda>k m. fix_pair (twiddle Sinewave (2 ^ L) k m)" "L - 1"] fft_fold_rec [OF assms]
  by (simp add: fix_fft_def Let_def)

section \<open>The recursive transform is the discrete Fourier transform\<close>

definition exact_pair :: "nat \<Rightarrow> nat \<Rightarrow> complex \<Rightarrow> complex \<Rightarrow> complex \<times> complex" where
  "exact_pair t m q x = (let w = cis (- pi * real m / 2 ^ t) in ((q + w * x) / 2, (q - w * x) / 2))"

text \<open>The transform of \<open>2\<^sup>e\<close> samples, divided by their number.\<close>

definition dft :: "nat \<Rightarrow> complex list \<Rightarrow> nat \<Rightarrow> complex" where
  "dft e xs k = (\<Sum>j < 2 ^ e. xs ! j * cis (- 2 * pi * real (j * k) / 2 ^ e)) / 2 ^ e"

lemma cis_turns: "cis (- 2 * pi * real n) = 1"
  using cis_multiple_2pi [of "- real n"] by (simp add: mult.commute)

lemma cis_period: "cis (- 2 * pi * real (j * (k + 2 ^ e)) / 2 ^ e) = cis (- 2 * pi * real (j * k) / 2 ^ e)"
proof -
  have "- 2 * pi * real (j * (k + 2 ^ e)) / 2 ^ e = - 2 * pi * real (j * k) / 2 ^ e + (- 2 * pi * real j)"
    by (simp add: field_simps)
  then show ?thesis using cis_turns [of j] by (simp only: cis_mult [symmetric] mult_1_right)
qed

lemma dft_period: "dft e xs (k + 2 ^ e) = dft e xs k"
  by (simp only: dft_def cis_period)

lemma sum_even_odd: "(\<Sum>j < 2 * n. f j) = (\<Sum>i < n. f (2 * i)) + (\<Sum>i < (n :: nat). f (2 * i + 1) :: complex)"
  by (induction n) (simp_all add: algebra_simps)

lemma dft_Suc:
  assumes "length xs = 2 ^ Suc e"
  shows "dft (Suc e) xs k = (dft e (evens xs) k + cis (- pi * real k / 2 ^ e) * dft e (odds xs) k) / 2"
proof -
  let ?w = "cis (- pi * real k / 2 ^ e)"
  have e: "- 2 * pi * real (2 * i * k) / (2 * 2 ^ e) = - 2 * pi * real (i * k) / 2 ^ e" for i by simp
  have "- 2 * pi * real ((2 * i + 1) * k) / (2 * 2 ^ e) = - pi * real k / 2 ^ e + - 2 * pi * real (i * k) / 2 ^ e" for i
    by (simp add: field_simps)
  then have o: "cis (- 2 * pi * real ((2 * i + 1) * k) / (2 * 2 ^ e)) = ?w * cis (- 2 * pi * real (i * k) / 2 ^ e)" for i
    by (simp only: cis_mult)
  have "(\<Sum>j < 2 * 2 ^ e. xs ! j * cis (- 2 * pi * real (j * k) / (2 * 2 ^ e))) =
      (\<Sum>i < 2 ^ e. xs ! (2 * i) * cis (- 2 * pi * real (i * k) / 2 ^ e)) +
      (\<Sum>i < 2 ^ e. xs ! (2 * i + 1) * (?w * cis (- 2 * pi * real (i * k) / 2 ^ e)))"
    using sum_even_odd [of "\<lambda>j. xs ! j * cis (- 2 * pi * real (j * k) / (2 * 2 ^ e))" "2 ^ e"] by (simp only: e o)
  also have "(\<Sum>i < 2 ^ e. xs ! (2 * i + 1) * (?w * cis (- 2 * pi * real (i * k) / 2 ^ e))) =
      ?w * (\<Sum>i < 2 ^ e. xs ! (2 * i + 1) * cis (- 2 * pi * real (i * k) / 2 ^ e))"
    by (simp only: sum_distrib_left mult.left_commute)
  finally show ?thesis using assms by (simp add: dft_def evens_def odds_def add_divide_distrib mult.commute [of _ 2])
qed

lemma fft_rec_dft: "length xs = 2 ^ e \<Longrightarrow> k < 2 ^ e \<Longrightarrow> fft_rec exact_pair e xs ! k = dft e xs k"
proof (induction e arbitrary: xs k)
  case 0
  then show ?case by (simp add: dft_def)
next
  case (Suc e)
  have h: "length (evens xs) = 2 ^ e" "length (odds xs) = 2 ^ e" using Suc.prems by simp_all
  define m where "m = (if k < 2 ^ e then k else k - 2 ^ e)"
  have m: "m < 2 ^ e" "k = m \<or> k = m + 2 ^ e" "k < 2 ^ e \<longleftrightarrow> k = m" using Suc.prems(2) by (auto simp: m_def)
  have "- pi * real (m + 2 ^ e) / 2 ^ e = - pi * real m / 2 ^ e + - pi" by (simp add: field_simps)
  then have w: "cis (- pi * real (m + 2 ^ e) / 2 ^ e) = - cis (- pi * real m / 2 ^ e)"
    by (simp only: cis_mult [symmetric]) (simp add: complex_eq_iff)
  have "fft_rec exact_pair (Suc e) xs ! k =
      (if k < 2 ^ e then fst (exact_pair e m (dft e (evens xs) m) (dft e (odds xs) m))
       else snd (exact_pair e m (dft e (evens xs) m) (dft e (odds xs) m)))"
    using m Suc.IH h by (auto simp: combine_def nth_append)
  also have "\<dots> = dft (Suc e) xs k"
  proof (cases "k < 2 ^ e")
    case True
    then show ?thesis using m(3) by (simp add: dft_Suc [OF Suc.prems(1)] exact_pair_def Let_def)
  next
    case False
    then have k: "k = m + 2 ^ e" using m(2,3) by blast
    have "dft (Suc e) xs (m + 2 ^ e) = (dft e (evens xs) m + - cis (- pi * real m / 2 ^ e) * dft e (odds xs) m) / 2"
      by (simp only: dft_Suc [OF Suc.prems(1)] dft_period w)
    then show ?thesis using False k by (simp add: exact_pair_def Let_def)
  qed
  finally show ?case .
qed

section \<open>The error of the fixed-point transform\<close>

definition cval :: "int \<times> int \<Rightarrow> complex" where
  "cval z = Complex (of_int (fst z)) (of_int (snd z))"

lemma cval_simps [simp]: "Re (cval z) = of_int (fst z)" "Im (cval z) = of_int (snd z)"
  by (simp_all add: cval_def)

lemma to_int16_small: "\<bar>x\<bar> \<le> 32767 \<Longrightarrow> to_int16 x = x"
  by (simp add: to_int16_def signed_take_bit_int_eq_self)

lemma FIX_MPY_error:
  assumes "\<bar>a\<bar> \<le> 32767" and "\<bar>b\<bar> \<le> 32767"
  shows "\<bar>real_of_int (FIX_MPY a b) - of_int a * of_int b / 32768\<bar> \<le> 1 / 2"
proof -
  define c where "c = a * b div 16384"
  have "\<bar>a * b\<bar> \<le> 32767 * 32767" unfolding abs_mult using assms by (intro mult_mono) simp_all
  moreover obtain k where k: "0 \<le> k" "k < 16384" "16384 * c + k = a * b"
    using mult_div_mod_eq [of 16384 "a * b"] unfolding c_def by (meson pos_mod_bound pos_mod_sign zero_less_numeral)
  ultimately have c: "\<bar>c\<bar> \<le> 65534" by linarith
  have ab: "16384 * c \<le> a * b" "a * b < 16384 * (c + 1)" using k by (simp_all add: distrib_left)
  have m: "2 * (c div 2 + c mod 2) = c + c mod 2" "0 \<le> c mod 2" "c mod 2 \<le> 1"
    using mult_div_mod_eq [of 2 c] pos_mod_bound [of 2 c] by simp_all
  have bound: "\<bar>x\<bar> \<le> 32767" if "2 * x = c + b" "0 \<le> b" "b \<le> 1" for x b :: int using that c by linarith
  have "FIX_MPY a b = c div 2 + c mod 2"
    using bound [OF m] by (simp add: FIX_MPY_def c_def [symmetric] drop_bit_eq_div Let_def and_one_eq to_int16_small)
  then have "2 * FIX_MPY a b = c + c mod 2" using m(1) by simp
  then have f: "32768 * FIX_MPY a b \<le> a * b + 16384" "a * b \<le> 32768 * FIX_MPY a b + 16384"
    using ab m(2,3) by simp_all
  have "32768 * real_of_int (FIX_MPY a b) \<le> of_int a * of_int b + 16384"
    using f(1) by (metis (mono_tags, lifting) of_int_add of_int_le_iff of_int_mult of_int_numeral of_int_power)
  moreover have "of_int a * of_int b \<le> 32768 * real_of_int (FIX_MPY a b) + 16384"
    using f(2) by (metis (mono_tags, lifting) of_int_add of_int_le_iff of_int_mult of_int_numeral of_int_power)
  ultimately show ?thesis by (simp add: abs_le_iff field_simps)
qed

lemma halved_error: "\<bar>real_of_int (drop_bit 1 x) - of_int x / 2\<bar> \<le> 1 / 2"
proof -
  have "2 * (x div 2) \<le> x" "x \<le> 2 * (x div 2) + 1" by linarith+
  then have "2 * real_of_int (x div 2) \<le> of_int x" "of_int x \<le> 2 * real_of_int (x div 2) + 1" by linarith+
  then show ?thesis by (simp add: drop_bit_eq_div abs_le_iff field_simps)
qed

text \<open>A factor of the table: the pair is within 5/4 of \<open>2\<^sup>1\<^sup>4 w\<close>.\<close>

definition near_twiddle :: "int \<times> int \<Rightarrow> complex \<Rightarrow> bool" where
  "near_twiddle tw w \<longleftrightarrow> cmod w = 1 \<and> \<bar>of_int (fst tw) - 16384 * Re w\<bar> \<le> 5 / 4 \<and> \<bar>of_int (snd tw) - 16384 * Im w\<bar> \<le> 5 / 4"

lemma product_error:
  assumes "\<bar>real_of_int a - 16384 * u\<bar> \<le> 5 / 4" and "\<bar>u\<bar> \<le> 1" and "\<bar>b\<bar> \<le> 32767"
  shows "\<bar>real_of_int (FIX_MPY a b) - u * of_int b / 2\<bar> \<le> 7 / 4"
proof -
  have "\<bar>real_of_int a\<bar> \<le> 32767" using assms(1,2) by linarith
  then have "\<bar>a\<bar> \<le> 32767" by linarith
  from FIX_MPY_error [OF this assms(3)] have 1: "\<bar>real_of_int (FIX_MPY a b) - of_int a * of_int b / 32768\<bar> \<le> 1 / 2" .
  have "\<bar>(real_of_int a - 16384 * u) * of_int b\<bar> \<le> 5 / 4 * 32768"
    unfolding abs_mult using assms by (intro mult_mono) linarith+
  then have "\<bar>of_int a * of_int b / 32768 - u * of_int b / 2\<bar> \<le> 5 / 4"
    by (simp add: abs_le_iff field_simps)
  with 1 show ?thesis by linarith
qed


lemma cmod_parts: "cmod z \<le> r \<Longrightarrow> \<bar>Re z\<bar> \<le> r \<and> \<bar>Im z\<bar> \<le> r"
  using abs_Re_le_cmod [of z] abs_Im_le_cmod [of z] by linarith

lemma cmod_small: "\<bar>Re z\<bar> \<le> 4 \<Longrightarrow> \<bar>Im z\<bar> \<le> 4 \<Longrightarrow> cmod z \<le> 6"
proof -
  assume "\<bar>Re z\<bar> \<le> 4" "\<bar>Im z\<bar> \<le> 4"
  then have "(Re z)\<^sup>2 \<le> 4\<^sup>2" "(Im z)\<^sup>2 \<le> 4\<^sup>2" by (simp_all only: abs_le_square_iff [symmetric] abs_numeral)
  then show ?thesis unfolding cmod_def by (intro real_le_lsqrt) simp_all
qed

text \<open>One pair: nothing wraps, and the results are within 6 of the exact ones.\<close>

lemma fix_pair_error:
  assumes w: "near_twiddle tw w" and q: "cmod (cval q) \<le> r" and x: "cmod (cval x) \<le> r" and r: "r \<le> 32761"
  shows "cmod (cval (fst (fix_pair tw q x)) - (cval q + w * cval x) / 2) \<le> 6"
    and "cmod (cval (snd (fix_pair tw q x)) - (cval q - w * cval x) / 2) \<le> 6"
proof -
  obtain wr wi qr qi jr ji where e: "tw = (wr, wi)" "q = (qr, qi)" "x = (jr, ji)" by (cases tw; cases q; cases x)
  let ?u = "Re w" and ?v = "Im w"
  have uv: "\<bar>?u\<bar> \<le> 1" "\<bar>?v\<bar> \<le> 1" "cmod w = 1" using w cmod_parts [of w 1] by (auto simp: near_twiddle_def)
  have b: "\<bar>real_of_int qr\<bar> \<le> 32761" "\<bar>real_of_int qi\<bar> \<le> 32761" "\<bar>real_of_int jr\<bar> \<le> 32761" "\<bar>real_of_int ji\<bar> \<le> 32761"
    using cmod_parts [OF q] cmod_parts [OF x] r by (simp_all add: e)
  then have j: "\<bar>jr\<bar> \<le> 32767" "\<bar>ji\<bar> \<le> 32767" by linarith+
  have p: "\<bar>real_of_int (FIX_MPY wr jr) - ?u * of_int jr / 2\<bar> \<le> 7 / 4" "\<bar>real_of_int (FIX_MPY wr ji) - ?u * of_int ji / 2\<bar> \<le> 7 / 4"
    "\<bar>real_of_int (FIX_MPY wi jr) - ?v * of_int jr / 2\<bar> \<le> 7 / 4" "\<bar>real_of_int (FIX_MPY wi ji) - ?v * of_int ji / 2\<bar> \<le> 7 / 4"
    using w uv j by (intro product_error; simp add: near_twiddle_def e)+
  have wx: "cmod (w * cval x) \<le> 32761" using x r uv by (simp add: norm_mult)
  have t: "\<bar>?u * of_int jr - ?v * of_int ji\<bar> \<le> 32761" "\<bar>?u * of_int ji + ?v * of_int jr\<bar> \<le> 32761"
    using cmod_parts [OF wx] by (simp_all add: e algebra_simps)
  define tr ti where "tr = FIX_MPY wr jr - FIX_MPY wi ji" and "ti = FIX_MPY wr ji + FIX_MPY wi jr"
  have te: "\<bar>real_of_int tr - (?u * of_int jr - ?v * of_int ji) / 2\<bar> \<le> 7 / 2"
    "\<bar>real_of_int ti - (?u * of_int ji + ?v * of_int jr) / 2\<bar> \<le> 7 / 2"
    using p unfolding tr_def ti_def of_int_add of_int_diff add_divide_distrib diff_divide_distrib by linarith+
  define hr hi where "hr = drop_bit (Suc 0) qr" and "hi = drop_bit (Suc 0) qi"
  have he: "\<bar>real_of_int hr - of_int qr / 2\<bar> \<le> 1 / 2" "\<bar>real_of_int hi - of_int qi / 2\<bar> \<le> 1 / 2"
    using halved_error [of qr] halved_error [of qi] by (simp_all add: hr_def hi_def)
  have half: "\<bar>a\<bar> \<le> 16384" if "\<bar>a - u / 2\<bar> \<le> 7 / 2" "\<bar>u\<bar> \<le> 32761" for a u :: real using that by linarith
  have "\<bar>real_of_int tr\<bar> \<le> 16384" by (rule half [OF te(1) t(1)])
  moreover have "\<bar>real_of_int ti\<bar> \<le> 16384" by (rule half [OF te(2) t(2)])
  moreover have "\<bar>real_of_int hr\<bar> \<le> 16383" using he(1) b(1) by linarith
  moreover have "\<bar>real_of_int hi\<bar> \<le> 16383" using he(2) b(2) by linarith
  ultimately have "\<bar>tr\<bar> \<le> 16384" "\<bar>ti\<bar> \<le> 16384" "\<bar>hr\<bar> \<le> 16383" "\<bar>hi\<bar> \<le> 16383" by linarith+
  then have s: "\<bar>tr\<bar> \<le> 32767" "\<bar>ti\<bar> \<le> 32767" "\<bar>hr + tr\<bar> \<le> 32767" "\<bar>hi + ti\<bar> \<le> 32767" "\<bar>hr - tr\<bar> \<le> 32767" "\<bar>hi - ti\<bar> \<le> 32767"
    by linarith+
  have f: "fix_pair tw q x = ((hr + tr, hi + ti), (hr - tr, hi - ti))"
    using s by (simp add: fix_pair_def e Let_def tr_def [symmetric] ti_def [symmetric] hr_def [symmetric] hi_def [symmetric] to_int16_small)
  show "cmod (cval (fst (fix_pair tw q x)) - (cval q + w * cval x) / 2) \<le> 6"
    using te he by (intro cmod_small) (simp_all add: f [unfolded e] e abs_le_iff field_simps)
  show "cmod (cval (snd (fix_pair tw q x)) - (cval q - w * cval x) / 2) \<le> 6"
    using te he by (intro cmod_small) (simp_all add: f [unfolded e] e abs_le_iff field_simps)
qed


lemma exact_pair_bound:
  assumes "cmod q \<le> r" and "cmod x \<le> r"
  shows "cmod (fst (exact_pair t m q x)) \<le> r" and "cmod (snd (exact_pair t m q x)) \<le> r"
proof -
  have w: "cmod (cis (- pi * real m / 2 ^ t) * x) \<le> r" using assms(2) by (simp add: norm_mult)
  show "cmod (fst (exact_pair t m q x)) \<le> r" "cmod (snd (exact_pair t m q x)) \<le> r"
    using norm_triangle_ineq [of q "cis (- pi * real m / 2 ^ t) * x"]
      norm_triangle_ineq4 [of q "cis (- pi * real m / 2 ^ t) * x"] assms(1) w
    by (simp_all add: exact_pair_def Let_def norm_divide)
qed

lemma halves_near:
  assumes "cmod (q - q') \<le> d" and "cmod (x - x') \<le> d" and "cmod w = 1"
  shows "cmod ((q + w * x) / 2 - (q' + w * x') / 2) \<le> d" and "cmod ((q - w * x) / 2 - (q' - w * x') / 2) \<le> d"
proof -
  have w: "cmod (w * (x - x')) \<le> d" using assms by (simp add: norm_mult)
  have "(q + w * x) / 2 - (q' + w * x') / 2 = (q - q' + w * (x - x')) / 2"
    "(q - w * x) / 2 - (q' - w * x') / 2 = (q - q' - w * (x - x')) / 2" by (simp_all add: field_simps)
  then show "cmod ((q + w * x) / 2 - (q' + w * x') / 2) \<le> d" "cmod ((q - w * x) / 2 - (q' - w * x') / 2) \<le> d"
    using norm_triangle_ineq [of "q - q'" "w * (x - x')"] norm_triangle_ineq4 [of "q - q'" "w * (x - x')"] assms(1) w
    by (simp_all only: norm_divide) simp_all
qed

lemma near_trans: "cmod (a - b) \<le> d \<Longrightarrow> cmod (b - c) \<le> d' \<Longrightarrow> cmod (a - c) \<le> d + d'"
  using norm_triangle_ineq [of "a - b" "b - c"] by simp

text \<open>The samples of a transform are within \<open>d\<close> of exact ones of at most \<open>r\<close>.\<close>

definition approximates :: "real \<Rightarrow> real \<Rightarrow> (int \<times> int) list \<Rightarrow> complex list \<Rightarrow> bool" where
  "approximates d r zs xs \<longleftrightarrow> list_all2 (\<lambda>z x. cmod (cval z - x) \<le> d \<and> cmod x \<le> r) zs xs"

lemma combine_approximates:
  assumes a: "approximates d r us qs" "approximates d r vs xs" and r: "r + d \<le> 32761"
    and l: "length us = 2 ^ t" "length vs = 2 ^ t"
    and w: "\<And>m. m < 2 ^ t \<Longrightarrow> near_twiddle (tw m) (cis (- pi * real m / 2 ^ t))"
  shows "approximates (d + 6) r (combine (\<lambda>m. fix_pair (tw m)) us vs) (combine (exact_pair t) qs xs)"
proof -
  have lq: "length qs = 2 ^ t" "length xs = 2 ^ t" using a l by (auto simp: approximates_def dest: list_all2_lengthD)
  have pair: "cmod (cval (fst (fix_pair (tw m) (us ! m) (vs ! m))) - fst (exact_pair t m (qs ! m) (xs ! m))) \<le> d + 6 \<and>
      cmod (cval (snd (fix_pair (tw m) (us ! m) (vs ! m))) - snd (exact_pair t m (qs ! m) (xs ! m))) \<le> d + 6 \<and>
      cmod (fst (exact_pair t m (qs ! m) (xs ! m))) \<le> r \<and> cmod (snd (exact_pair t m (qs ! m) (xs ! m))) \<le> r"
    if m: "m < 2 ^ t" for m
  proof -
    let ?w = "cis (- pi * real m / 2 ^ t)"
    have n: "cmod (cval (us ! m) - qs ! m) \<le> d" "cmod (cval (vs ! m) - xs ! m) \<le> d" "cmod (qs ! m) \<le> r" "cmod (xs ! m) \<le> r"
      using a l m by (auto simp: approximates_def list_all2_conv_all_nth)
    have b: "cmod (cval (us ! m)) \<le> r + d" "cmod (cval (vs ! m)) \<le> r + d"
      using n norm_triangle_sub [of "cval (us ! m)" "qs ! m"] norm_triangle_sub [of "cval (vs ! m)" "xs ! m"] by linarith+
    have e: "exact_pair t m (qs ! m) (xs ! m) = ((qs ! m + ?w * xs ! m) / 2, (qs ! m - ?w * xs ! m) / 2)"
      by (simp add: exact_pair_def Let_def)
    have "cmod (cval (fst (fix_pair (tw m) (us ! m) (vs ! m))) - (qs ! m + ?w * xs ! m) / 2) \<le> d + 6"
      using near_trans [OF fix_pair_error(1) [OF w [OF m] b r] halves_near(1) [OF n(1,2) norm_cis]] by simp
    moreover have "cmod (cval (snd (fix_pair (tw m) (us ! m) (vs ! m))) - (qs ! m - ?w * xs ! m) / 2) \<le> d + 6"
      using near_trans [OF fix_pair_error(2) [OF w [OF m] b r] halves_near(2) [OF n(1,2) norm_cis]] by simp
    ultimately show ?thesis using exact_pair_bound [OF n(3,4), of t m] unfolding e by simp
  qed
  show ?thesis
    unfolding approximates_def list_all2_conv_all_nth using pair l lq
    by (auto simp: combine_def nth_append)
qed

text \<open>The table of sines, rounded to whole numbers, for the three quarters of a turn it holds.\<close>

definition sine_table_ok :: "(nat \<Rightarrow> int) \<Rightarrow> nat \<Rightarrow> bool" where
  "sine_table_ok Sinewave L \<longleftrightarrow>
     (\<forall>j < 3 * 2 ^ L div 4. \<bar>real_of_int (Sinewave j) - 32767 * sin (2 * pi * real j / 2 ^ L)\<bar> \<le> 1 / 2)"

lemma halved_sine:
  assumes "\<bar>real_of_int s - 32767 * u\<bar> \<le> 1 / 2" and "\<bar>u\<bar> \<le> 1"
  shows "\<bar>real_of_int (drop_bit 1 s) - 16384 * u\<bar> \<le> 5 / 4"
  using halved_error [of s] assms by linarith

lemma near_twiddle_table:
  assumes s: "sine_table_ok Sinewave L" and "2 \<le> L" and "t < L" and "m < 2 ^ t"
  shows "near_twiddle (twiddle Sinewave (2 ^ L) (L - 1 - t) m) (cis (- pi * real m / 2 ^ t))"
proof -
  define j where "j = push_bit (L - 1 - t) m"
  have j: "j = m * 2 ^ (L - 1 - t)" by (simp add: j_def push_bit_eq_mult)
  have pow: "(2 :: nat) ^ t * 2 ^ (L - 1 - t) * 2 = 2 ^ L" "(2 :: real) ^ t * 2 ^ (L - 1 - t) * 2 = 2 ^ L"
    using assms(2,3) by (simp_all add: power_add [symmetric] power_Suc2 [symmetric] del: power_Suc)
  have "m * 2 ^ (L - 1 - t) < 2 ^ t * 2 ^ (L - 1 - t)" using assms(4) by simp
  then have j2: "2 * j < 2 ^ L" using pow(1) unfolding j by linarith
  obtain k where "L = 2 + k" using assms(2) le_Suc_ex by blast
  then have k: "2 ^ L = 4 * (2 :: nat) ^ k" "2 ^ L = 4 * (2 :: real) ^ k" by (simp_all add: power_add)
  define x where "x = pi * real m / 2 ^ t"
  have a: "2 * pi * real j / 2 ^ L = x" unfolding j x_def pow(2) [symmetric] by simp
  have "2 * pi * real (j + 2 ^ L div 4) / 2 ^ L = x + pi / 2" unfolding a [symmetric] k by (simp add: field_simps)
  then have c: "sin (2 * pi * real (j + 2 ^ L div 4) / 2 ^ L) = cos x" by (simp add: sin_cos_eq [symmetric] sin_add)
  have table: "j < 3 * 2 ^ L div 4 \<Longrightarrow> \<bar>real_of_int (Sinewave j) - 32767 * sin (2 * pi * real j / 2 ^ L)\<bar> \<le> 1 / 2" for j
    using s by (simp add: sine_table_ok_def)
  have in_table: "j < 3 * 2 ^ L div 4" "j + 2 ^ L div 4 < 3 * 2 ^ L div 4" using j2 k(1) by simp_all
  have S: "\<bar>real_of_int (Sinewave j) - 32767 * sin x\<bar> \<le> 1 / 2" "\<bar>real_of_int (Sinewave (j + 2 ^ L div 4)) - 32767 * cos x\<bar> \<le> 1 / 2"
    using table [of j] table [of "j + 2 ^ L div 4"] in_table unfolding a c by blast+
  have "\<bar>real_of_int (Sinewave j)\<bar> \<le> 32767 + 1 / 2" using S(1) abs_sin_le_one [of x] by linarith
  then have "\<bar>- Sinewave j\<bar> \<le> 32767" by linarith
  then have n: "to_int16 (- Sinewave j) = - Sinewave j" by (rule to_int16_small)
  have "\<bar>real_of_int (- Sinewave j) - 32767 * (- sin x)\<bar> \<le> 1 / 2"
    using S(1) by (simp add: abs_minus_commute)
  from halved_sine [OF this] halved_sine [OF S(2)] show ?thesis
    unfolding near_twiddle_def twiddle_def Let_def j_def [symmetric] n
    by (simp add: x_def)
qed

lemma fft_rec_approximates:
  assumes s: "sine_table_ok Sinewave L" and L: "2 \<le> L"
  shows "e \<le> L \<Longrightarrow> length zs = 2 ^ e \<Longrightarrow> list_all (\<lambda>z. cmod (cval z) \<le> r) zs \<Longrightarrow> r + 6 * real e \<le> 32767 \<Longrightarrow>
    approximates (6 * real e) r (fft_rec (\<lambda>t m. fix_pair (twiddle Sinewave (2 ^ L) (L - 1 - t) m)) e zs)
      (fft_rec exact_pair e (map cval zs))"
proof (induction e arbitrary: zs)
  case 0
  then show ?case by (auto simp: approximates_def list_all2_conv_all_nth list_all_length)
next
  case (Suc e)
  have h: "map cval (evens zs) = evens (map cval zs)" "map cval (odds zs) = odds (map cval zs)"
    using Suc.prems(2) by (auto simp: evens_def odds_def)
  have p: "list_all (\<lambda>z. cmod (cval z) \<le> r) (evens zs)" "list_all (\<lambda>z. cmod (cval z) \<le> r) (odds zs)"
    using Suc.prems(2,3) by (auto simp: list_all_length evens_def odds_def)
  have l: "length (evens zs) = 2 ^ e" "length (odds zs) = 2 ^ e" "e \<le> L" "r + 6 * real e \<le> 32767" "r + 6 * real e \<le> 32761" "e < L"
    using Suc.prems by simp_all
  from combine_approximates [OF Suc.IH [OF l(3,1) p(1) l(4)] Suc.IH [OF l(3,2) p(2) l(4)] l(5)
      length_fft_rec [OF l(1)] length_fft_rec [OF l(2)] near_twiddle_table [OF s L l(6)]]
  show ?case unfolding h by (simp add: distrib_left add.commute)
qed

section \<open>Accuracy\<close>

text \<open>C8: With a table of correctly rounded sines of at least four entries, the in-place integer transform of \<open>2\<^sup>e\<close> samples
  returns, for each of the \<open>2\<^sup>e\<close> bins, the discrete Fourier transform divided by \<open>2\<^sup>e\<close> with an error of at most \<open>6 e\<close>, and
  nothing wraps, as long as no sample is larger than \<open>32767 - 6 e\<close>.\<close>

theorem fft_accurate:
  assumes "2 \<le> L" and "e \<le> L" and "length iq = 2 ^ e" and "sine_table_ok Sinewave L"
    and "list_all (\<lambda>z. cmod (cval z) \<le> 32767 - 6 * real e) iq"
  shows "\<exists>bins. fix_fft Sinewave L iq e = Some bins \<and> length bins = 2 ^ e \<and>
    list_all (\<lambda>k. cmod (cval (bins ! k) - dft e (map cval iq) k) \<le> 6 * real e) [0..<2 ^ e]"
proof -
  let ?bins = "fft_rec (\<lambda>t m. fix_pair (twiddle Sinewave (2 ^ L) (L - 1 - t) m)) e iq"
  have "approximates (6 * real e) (32767 - 6 * real e) ?bins (fft_rec exact_pair e (map cval iq))"
    using assms by (intro fft_rec_approximates) simp_all
  then show ?thesis
    using assms(2,3) fft_rec_dft [of "map cval iq" e]
    by (auto simp: fix_fft_rec approximates_def list_all2_conv_all_nth list_all_length)
qed

text \<open>With four samples and the table \<open>0, 32767, 0\<close>.\<close>

definition sines4 :: "nat \<Rightarrow> int" where
  "sines4 j = (if j = 1 then 32767 else 0)"

lemma fft_accurate_witness:
  "\<exists>bins. fix_fft sines4 2 [(0, 0), (300, 400), (-100, 0), (0, 7)] 2 = Some bins \<and> length bins = 4 \<and>
    list_all (\<lambda>k. cmod (cval (bins ! k) - dft 2 (map cval [(0, 0), (300, 400), (-100, 0), (0, 7)]) k) \<le> 12) [0..<4]"
proof -
  have "sine_table_ok sines4 2" unfolding sine_table_ok_def
  proof (intro allI impI)
    fix j :: nat
    assume "j < 3 * 2 ^ 2 div 4"
    then have "j = 0 \<or> j = 1 \<or> j = 2" by auto
    then show "\<bar>real_of_int (sines4 j) - 32767 * sin (2 * pi * real j / 2 ^ 2)\<bar> \<le> 1 / 2" by (auto simp: sines4_def)
  qed
  moreover have "list_all (\<lambda>z. cmod (cval z) \<le> 32767 - 6 * real 2) [(0, 0), (300, 400), (-100, 0), (0, 7)]"
    by (simp add: cval_def cmod_def real_le_lsqrt)
  ultimately show ?thesis
    using fft_accurate [of 2 2 "[(0, 0), (300, 400), (-100, 0), (0, 7)]" sines4] by simp
qed

end
