(* ===== verification/Rtl_Power.thy ===== *)
theory Rtl_Power
  imports Fix_Fft Double_Fp "HOL-Library.Signed_Division" "HOL-Library.Log_Nat"
begin

unbundle bit_operations_syntax

text \<open>
  \<open>rtl_power\<close> (src/src/rtl_power.c): the plan of a scan (\<open>frequency_range\<close>), the filters and the loop of \<open>scanner\<close> from
  the bytes of a read to the sums of each bin, and the report (\<open>csv_dbm\<close>) up to the conversion to decibels. The window and the table of sines are
  arguments; \<open>fft_buf\<close> is a list of pairs; where the code divides by zero, overflows an \<open>int\<close> or leaves the buffer the result is
  \<open>Inl Undefined\<close> or \<open>None\<close>.
\<close>

section \<open>The plan of a scan\<close>

record tuning_state =
  ts_freq :: int
  ts_rate :: int
  ts_bin_e :: nat
  ts_avg :: "int list"
  ts_samples :: int
  ts_downsample :: int
  ts_passes :: nat
  ts_crop :: rat
  ts_buf_len :: int

datatype range_error = Undefined | Too_wide

abbreviation (input) MAXIMUM_RATE :: int where "MAXIMUM_RATE \<equiv> 2800000"
abbreviation (input) MINIMUM_RATE :: int where "MINIMUM_RATE \<equiv> 1000000"
abbreviation (input) MAX_TUNES :: int where "MAX_TUNES \<equiv> 3000"
abbreviation (input) DEFAULT_BUF_LENGTH :: int where "DEFAULT_BUF_LENGTH \<equiv> 16384"

text \<open>The rate that leaves \<open>bw\<close> after cropping. \<open>None\<close>: a division by zero, or a value outside \<open>int\<close>.\<close>

definition crop_bw :: "rat \<Rightarrow> int \<Rightarrow> int option" where
  "crop_bw crop bw =
     (if fl (1 - crop) = 0 then None
      else let used = dbl_trunc (fl (of_int bw / fl (1 - crop))) in if int32 used then Some used else None)"

text \<open>The number of hops, found by trying 1 to 1499 in turn: \<open>tune_count\<close>, \<open>bw_seen\<close>, \<open>bw_used\<close> after the loop.\<close>

fun hops_loop :: "rat \<Rightarrow> int \<Rightarrow> int list \<Rightarrow> int \<times> int \<times> int \<Rightarrow> (int \<times> int \<times> int) option" where
  "hops_loop crop width [] r = Some r"
| "hops_loop crop width (i # is) (count, seen, used) =
     (let seen = width sdiv i in
      case crop_bw crop seen of None \<Rightarrow> None
      | Some used \<Rightarrow> if used > MAXIMUM_RATE then hops_loop crop width is (count, seen, used) else Some (i, seen, used))"

text \<open>With \<open>downsample = 0\<close> the bandwidth is zero too: the bin size is not a number and no comparison holds.\<close>

fun bins_loop :: "int \<Rightarrow> int \<Rightarrow> int \<Rightarrow> nat list \<Rightarrow> nat \<Rightarrow> nat option" where
  "bins_loop used downsample max_size [] e = Some e"
| "bins_loop used downsample max_size (i # is) e =
     (if \<not> int32 (2 ^ i * downsample) then None
      else if downsample \<noteq> 0 \<and> fl (of_int used / of_int (2 ^ i * downsample)) \<le> of_int max_size then Some i
      else bins_loop used downsample max_size is i)"

text \<open>The array \<open>tunes\<close>, from the numbers of the argument.\<close>

definition frequency_range :: "bool \<Rightarrow> rat \<Rightarrow> int \<Rightarrow> int \<Rightarrow> int \<Rightarrow> range_error + tuning_state list" where
  "frequency_range use_boxcar crop lower upper max_size =
     (if \<not> int32 (upper - lower) then Inl Undefined else
      case hops_loop crop (upper - lower) [1..1499] (0, 0, 0) of None \<Rightarrow> Inl Undefined
      | Some (tune_count, bw_seen, bw_used) \<Rightarrow>
        let small = (bw_used < MINIMUM_RATE) in
        if small \<and> bw_used = 0 then Inl Undefined else
        let tune_count = (if small then 1 else tune_count);
            downsample = (if small then MAXIMUM_RATE sdiv bw_used else 1);
            bw_used = (if small then bw_used * downsample else bw_used);
            halving = (\<not> use_boxcar \<and> downsample > 1);
            downsample_passes = (if halving then floorlog 2 (nat downsample) - 1 else 0);
            downsample = (if halving then 2 ^ downsample_passes else downsample)
        in case (if halving then crop_bw crop (bw_seen * downsample) else Some bw_used) of None \<Rightarrow> Inl Undefined
        | Some bw_used \<Rightarrow>
          case bins_loop bw_used downsample max_size [1..<22] 0 of None \<Rightarrow> Inl Undefined
          | Some bin_e \<Rightarrow>
            let giant = (max_size \<ge> MINIMUM_RATE);
                bw_seen = (if giant then max_size else bw_seen);
                bw_used = (if giant then max_size else bw_used);
                tune_count = (if giant then (upper - lower) sdiv bw_seen else tune_count);
                bin_e = (if giant then 0 else bin_e);
                crop = (if giant then 0 else crop);
                buf_len = max DEFAULT_BUF_LENGTH (2 * 2 ^ bin_e * downsample)
            in if tune_count > MAX_TUNES then Inl Too_wide
               else Inr (map (\<lambda>i. \<lparr>ts_freq = lower + i * bw_seen + bw_seen sdiv 2, ts_rate = bw_used, ts_bin_e = bin_e,
                 ts_avg = replicate (2 ^ bin_e) 0, ts_samples = 0, ts_downsample = downsample,
                 ts_passes = downsample_passes, ts_crop = crop, ts_buf_len = buf_len\<rparr>) [0..tune_count - 1]))"

section \<open>Power of a wide bin\<close>

definition round_away :: "rat \<Rightarrow> int" where
  "round_away x = (if x < 0 then - \<lfloor>- x + 1 / 2\<rfloor> else \<lfloor>x + 1 / 2\<rfloor>)"

definition max_or_sum :: "bool \<Rightarrow> int \<Rightarrow> int \<Rightarrow> int" where
  "max_or_sum peak_hold p a = (if peak_hold then max p a else a + p)"

definition rms_power :: "bool \<Rightarrow> u8 list \<Rightarrow> tuning_state \<Rightarrow> tuning_state" where
  "rms_power peak_hold buf ts =
     (let s = map (\<lambda>b. uint b - 127) buf; t = sum_list s; p = sum_list (map (\<lambda>s. s * s) s);
          dc = fl (of_int t / of_int (ts_buf_len ts));
          err = fl (fl (of_int (t * 2) * dc) - fl (fl (dc * dc) * of_int (ts_buf_len ts)));
          p = p - round_away err
      in ts\<lparr>ts_avg := (ts_avg ts)[0 := max_or_sum peak_hold p (ts_avg ts ! 0)], ts_samples := ts_samples ts + 1\<rparr>)"

section \<open>Filters on one channel of the buffer\<close>

text \<open>\<open>n\<close> is the number of samples of the channel the filter works on; the rest of the array stays.\<close>

definition fifth_order_ease :: "nat \<Rightarrow> int list \<Rightarrow> int list" where
  "fifth_order_ease n xs =
     (let a = xs ! 0; b = xs ! 1; c = xs ! 2; d = xs ! 3; e = xs ! 4; f = xs ! 5;
          ys = [to_int16 (drop_bit 4 ((a + b) * 10 + (c + d) * 5 + d + f)),
                to_int16 (drop_bit 4 ((b + c) * 10 + (a + d) * 5 + e + f)), fifth_tap a b c d e f]
            @ fst (fifth_loop a b c d e f (drop 5 (take n xs)))
      in ys @ drop (length ys) xs)"

text \<open>The average is taken over \<open>len\<close>, the number of values of both channels.\<close>

definition remove_dc :: "nat \<Rightarrow> int list \<Rightarrow> int list" where
  "remove_dc len xs =
     (let n = (len + 1) div 2; ave = to_int16 (sum_list (take n xs) sdiv int len) in
      if ave = 0 then xs else map (\<lambda>x. to_int16 (x - ave)) (take n xs) @ drop n xs)"

definition generic_fir_ease :: "nat \<Rightarrow> (nat \<Rightarrow> int) \<Rightarrow> int list \<Rightarrow> int list" where
  "generic_fir_ease n fir xs = take 9 xs @ fst (generic_fir fir (drop 9 (take n xs)) (take 9 xs)) @ drop (max 9 n) xs"

definition channels :: "(int list \<Rightarrow> int list) \<Rightarrow> (int list \<Rightarrow> int list) \<Rightarrow> (int \<times> int) list \<Rightarrow> (int \<times> int) list" where
  "channels f g iq = zip (f (map fst iq)) (g (map snd iq))"

definition downsample_iq :: "nat \<Rightarrow> (int \<times> int) list \<Rightarrow> (int \<times> int) list" where
  "downsample_iq n = channels (fifth_order_ease n) (fifth_order_ease n)"

definition real_conj :: "int \<Rightarrow> int \<Rightarrow> int" where
  "real_conj r i = r * r + i * i"

section \<open>One tuning range\<close>

definition cic_9_tables :: "int list list" where
  "cic_9_tables =
    [[0],
     [9, -156, -97, 2798, -15489, 61019, -15489, 2798, -97, -156],
     [9, -128, -568, 5593, -24125, 74126, -24125, 5593, -568, -128],
     [9, -129, -639, 6187, -26281, 77511, -26281, 6187, -639, -129],
     [9, -122, -612, 6082, -26353, 77818, -26353, 6082, -612, -122],
     [9, -120, -602, 6015, -26269, 77757, -26269, 6015, -602, -120],
     [9, -120, -582, 5951, -26128, 77542, -26128, 5951, -582, -120],
     [9, -119, -580, 5931, -26094, 77505, -26094, 5931, -580, -119],
     [9, -119, -578, 5921, -26077, 77484, -26077, 5921, -578, -119],
     [9, -119, -577, 5917, -26067, 77473, -26067, 5917, -577, -119],
     [9, -199, -362, 5303, -25505, 77489, -25505, 5303, -362, -199]]"

record power_config =
  pc_boxcar :: bool
  pc_comp_fir_size :: int
  pc_peak_hold :: bool
  pc_sines :: "nat \<Rightarrow> int"
  pc_log2_wave :: nat
  pc_window :: "nat \<Rightarrow> int"

definition add_iq :: "int \<times> int \<Rightarrow> int \<times> int \<Rightarrow> int \<times> int" where
  "add_iq x y = (to_int16 (fst x + fst y), to_int16 (snd x + snd y))"

function boxcar_loop :: "nat \<Rightarrow> nat \<Rightarrow> nat \<Rightarrow> (int \<times> int) list \<Rightarrow> (int \<times> int) list" where
  "boxcar_loop ds j j2 iq =
     (if j < length iq
      then boxcar_loop ds (j + 1) (if (j + 1) mod ds = 0 then j2 + 1 else j2)
             (iq[j2 := add_iq (iq ! j2) (iq ! j), j := (0, 0)])
      else iq)"
  by auto
termination by (relation "measure (\<lambda>(ds, j, j2, iq). length iq - j)") auto

declare boxcar_loop.simps [simp del]

definition reduce :: "power_config \<Rightarrow> nat \<Rightarrow> nat \<Rightarrow> (int \<times> int) list \<Rightarrow> (int \<times> int) list" where
  "reduce cfg ds passes iq =
     (if pc_boxcar cfg \<and> ds > 1 then boxcar_loop ds 1 0 iq
      else if passes > 0
      then let n = length iq;
               iq = fold (\<lambda>j. downsample_iq (n div 2 ^ j)) [0..<passes] iq
           in if pc_comp_fir_size cfg = 9 \<and> passes \<le> 10
              then channels (generic_fir_ease (n div 2 ^ passes) (\<lambda>i. cic_9_tables ! passes ! i))
                     (generic_fir_ease (n div 2 ^ passes) (\<lambda>i. cic_9_tables ! passes ! i)) iq
              else iq
      else iq)"

definition windowed :: "(nat \<Rightarrow> int) \<Rightarrow> (int \<times> int) list \<Rightarrow> (int \<times> int) list" where
  "windowed coefs blk = map (\<lambda>j. (to_int16 (fst (blk ! j) * coefs j), to_int16 (snd (blk ! j) * coefs j))) [0..<length blk]"

text \<open>The blocks of \<open>2\<^sup>b\<^sup>i\<^sup>n\<^sup>_\<^sup>e\<close> samples at \<open>offset, offset + 2\<^sup>b\<^sup>i\<^sup>n\<^sup>_\<^sup>e, \<dots>\<close> below \<open>n\<close>. \<open>None\<close>: a block ends outside
  the array, or the table of sines is too short and the block is not transformed.\<close>

function fft_blocks :: "power_config \<Rightarrow> nat \<Rightarrow> nat \<Rightarrow> nat \<Rightarrow> (int \<times> int) list \<Rightarrow> tuning_state \<Rightarrow> tuning_state option" where
  "fft_blocks cfg n bin_e offset iq ts =
     (if offset < n
      then if length iq < offset + 2 ^ bin_e then None
        else case fix_fft (pc_sines cfg) (pc_log2_wave cfg) (windowed (pc_window cfg) (take (2 ^ bin_e) (drop offset iq))) bin_e of
          None \<Rightarrow> None
        | Some bins \<Rightarrow> fft_blocks cfg n bin_e (offset + 2 ^ bin_e) iq
            (ts\<lparr>ts_avg := map2 (\<lambda>(r, i) a. max_or_sum (pc_peak_hold cfg) (real_conj r i) a) bins (ts_avg ts),
                ts_samples := ts_samples ts + ts_downsample ts\<rparr>)
      else Some ts)"
  by auto
termination by (relation "measure (\<lambda>(cfg, n, bin_e, offset, iq, ts). n - offset)") (auto intro!: diff_less_mono2)

declare fft_blocks.simps [simp del]

fun pairs_of :: "'a list \<Rightarrow> ('a \<times> 'a) list" where
  "pairs_of (x # y # xs) = (x, y) # pairs_of xs"
| "pairs_of xs = []"

text \<open>The body of the loop of \<open>scanner\<close>, from the bytes \<open>buf8\<close> on. \<open>None\<close>: also a division by zero.\<close>

definition scan_tune :: "power_config \<Rightarrow> u8 list \<Rightarrow> tuning_state \<Rightarrow> tuning_state option" where
  "scan_tune cfg buf8 ts =
     (if ts_bin_e ts = 0 then Some (rms_power (pc_peak_hold cfg) buf8 ts)
      else if ts_downsample ts = 0 then None
      else let iq = pairs_of (map (\<lambda>b. to_int16 (uint b) - 127) buf8);
               ds = nat (ts_downsample ts);
               iq = reduce cfg ds (ts_passes ts) iq;
               len = nat (ts_buf_len ts) div ds;
               iq = channels (remove_dc len) (remove_dc (len - 1)) iq
           in fft_blocks cfg ((len + 1) div 2) (ts_bin_e ts) 0 iq ts)"

text \<open>A pass over all ranges; the buffers are what the reads leave in \<open>buf8\<close>.\<close>

fun scanner :: "power_config \<Rightarrow> (tuning_state \<times> u8 list) list \<Rightarrow> tuning_state list option" where
  "scanner cfg [] = Some []"
| "scanner cfg ((ts, buf8) # rest) =
     Option.bind (scan_tune cfg buf8 ts) (\<lambda>ts. Option.bind (scanner cfg rest) (\<lambda>tss. Some (ts # tss)))"

section \<open>The report\<close>

definition fft_quirks :: "nat \<Rightarrow> int list \<Rightarrow> int list" where
  "fft_quirks bin_e avg =
     (if bin_e > 0
      then fold (\<lambda>i avg. swap i (i + 2 ^ bin_e div 2) avg) [0..<2 ^ bin_e div 2] (avg[0 := avg ! 1])
      else avg)"

text \<open>The frequencies, the number of samples, the bins printed (as sums, before the conversion to decibels), and the
  range with its sums cleared.\<close>

definition csv_dbm :: "tuning_state \<Rightarrow> (int \<times> int \<times> int \<times> int list) \<times> tuning_state" where
  "csv_dbm ts =
     (let len = 2 ^ ts_bin_e ts; avg = fft_quirks (ts_bin_e ts) (ts_avg ts);
          bin_count = dbl_trunc (fl (of_nat len * fl (1 - ts_crop ts)));
          bw2 = dbl_trunc (fl (fl (of_int (ts_rate ts) * of_int bin_count) / of_int (int len * 2 * ts_downsample ts)));
          i1 = nat (dbl_trunc (fl (fl (of_nat len * ts_crop ts) * (1 / 2))));
          i2 = (len - 1) - i1;
          last_bin = (if ts_bin_e ts = 0 then avg ! 0 else avg ! i2)
      in ((ts_freq ts - bw2, ts_freq ts + bw2, ts_samples ts, map (\<lambda>i. avg ! i) [i1..<i2 + 1] @ [last_bin]),
          ts\<lparr>ts_avg := replicate len 0, ts_samples := 0\<rparr>))"

section \<open>The plan of a scan without cropping\<close>

lemma dbl_trunc_int: "dbl_trunc (of_int k) = k"
  by (simp add: dbl_trunc_def)

lemma crop_bw_0: "int32 bw \<Longrightarrow> crop_bw 0 bw = Some bw"
proof -
  assume b: "int32 bw"
  then have "\<bar>bw\<bar> < 2 ^ 53" unfolding int32_def by (simp add: abs_less_iff)
  from fl_int [OF this] fl_int [of 1] b show ?thesis by (simp add: crop_bw_def dbl_trunc_int)
qed

lemma div_le: "0 \<le> w \<Longrightarrow> 1 \<le> i \<Longrightarrow> w div i \<le> (w :: int)"
  using zdiv_mono2 [of w 1 i] by simp

lemma hops_loop_spec:
  assumes w: "0 \<le> w" "w < 2 ^ 31"
  shows "1 \<le> i \<Longrightarrow> i \<le> 1499 \<Longrightarrow> \<exists>k. i \<le> k \<and> k \<le> 1499 \<and> hops_loop 0 w [i..1499] r = Some (k, w div k, w div k) \<and>
    w div k \<le> 2800000 \<and> (i < k \<longrightarrow> 2800000 < w div (k - 1))"
proof (induction "nat (1499 - i)" arbitrary: i r rule: less_induct)
  case less
  have "0 \<le> w div i" "w div i \<le> w" using w less.prems by (simp_all add: pos_imp_zdiv_nonneg_iff div_le)
  then have c: "crop_bw 0 (w div i) = Some (w div i)" using w by (intro crop_bw_0) (simp add: int32_def)
  have s: "w sdiv i = w div i" using w less.prems by (intro sdiv_pos) auto
  have u: "[i..1499] = i # [i + 1..1499]" using less.prems by (simp add: upto_rec1)
  obtain c0 s0 u0 where r: "r = (c0, s0, u0)" by (cases r)
  show ?case
  proof (cases "2800000 < w div i")
    case True
    have "w div 1499 \<le> 2 ^ 31 div 1499" using w by (intro zdiv_mono1) auto
    then have "i \<noteq> 1499" using True by auto
    then obtain k where "i + 1 \<le> k \<and> k \<le> 1499 \<and> hops_loop 0 w [i + 1..1499] (c0, w div i, w div i) = Some (k, w div k, w div k) \<and>
        w div k \<le> 2800000 \<and> (i + 1 < k \<longrightarrow> 2800000 < w div (k - 1))"
      using less.hyps [of "i + 1" "(c0, w div i, w div i)"] less.prems by force
    then show ?thesis using True unfolding u r by (intro exI [of _ k]) (auto simp: c s Let_def intro: le_less_trans dest: order_le_imp_less_or_eq)
  next
    case False
    then show ?thesis using less.prems unfolding u r by (intro exI [of _ i]) (simp add: c s Let_def)
  qed
qed

lemma round_even_le:
  assumes "x \<le> of_int k"
  shows "round_even x \<le> k"
proof (cases "x = of_int k")
  case False
  then have "\<lfloor>x\<rfloor> < k" using assms by (simp add: floor_less_iff)
  then show ?thesis by (simp add: round_even_def Let_def)
qed simp

lemma fl_le_whole:
  assumes x: "0 < x" "x \<le> of_int k" "x < 2 ^ 53"
  shows "fl x \<le> of_int k"
proof -
  define n where "n = nat (52 - dbl_exp x)"
  have "pow2i (dbl_exp x) < pow2i 53" using dbl_exp_bounds(1) [of x] x by (simp add: pow2i_nat)
  then have "dbl_exp x < 53" using pow2i_mono [of 53 "dbl_exp x"] by linarith
  then have u: "pow2i (dbl_exp x - 52) = 1 / 2 ^ n"
    using pow2i_add [of "dbl_exp x - 52" "int n"] by (simp add: n_def pow2i_nat field_simps)
  have "x * 2 ^ n \<le> of_int (k * 2 ^ n)" using x(2) by simp
  then have "round_even (x * 2 ^ n) \<le> k * 2 ^ n" by (rule round_even_le)
  then have "(of_int (round_even (x * 2 ^ n)) :: rat) \<le> of_int (k * 2 ^ n)" by (simp only: of_int_le_iff)
  then have "of_int (round_even (x * 2 ^ n)) / 2 ^ n \<le> (of_int k :: rat)" by (simp add: divide_le_eq)
  then show ?thesis using x(1) by (simp add: fl_def u Let_def)
qed

lemma fl_le_int:
  assumes "0 < u" and "u < 2 ^ 53" and "0 < d"
  shows "fl (of_int u / of_int d) \<le> of_int m \<longleftrightarrow> u \<le> m * d"
proof
  let ?x = "of_int u / of_int d :: rat"
  have pos: "0 < (of_int d :: rat)" "0 < ?x" using assms by simp_all
  have err: "\<bar>fl ?x - ?x\<bar> \<le> ?x / 2 ^ 53" using fl_rel_error [of ?x] pos by simp
  assume le: "fl ?x \<le> of_int m"
  show "u \<le> m * d"
  proof (rule ccontr)
    assume "\<not> u \<le> m * d"
    then have "m * d + 1 \<le> u" by simp
    then have "(of_int m * of_int d + 1 :: rat) \<le> of_int u" by (metis of_int_1 of_int_add of_int_le_iff of_int_mult)
    moreover have "?x - ?x / 2 ^ 53 \<le> of_int m" using err le by linarith
    then have "(?x - ?x / 2 ^ 53) * of_int d \<le> of_int m * of_int d" using pos by (intro mult_right_mono) simp_all
    then have "(of_int u :: rat) - of_int u / 2 ^ 53 \<le> of_int m * of_int d" using pos by (simp add: field_simps)
    ultimately have "(1 :: rat) \<le> of_int u / 2 ^ 53" by linarith
    then have "(of_int (2 ^ 53) :: rat) \<le> of_int u" by simp
    then show False using assms(2) by (simp only: of_int_le_iff)
  qed
next
  assume "u \<le> m * d"
  then have "(of_int u :: rat) \<le> of_int m * of_int d" by (metis of_int_le_iff of_int_mult)
  then have x: "of_int u / of_int d \<le> (of_int m :: rat)" using assms(3) by (simp add: field_simps)
  have "(of_int u :: rat) < of_int (2 ^ 53)" using assms(2) by (simp only: of_int_less_iff)
  moreover have "(of_int u / of_int d :: rat) \<le> of_int u" using assms by (simp add: divide_le_eq)
  ultimately show "fl (of_int u / of_int d) \<le> of_int m" using assms x by (intro fl_le_whole) simp_all
qed


lemma bins_loop_spec:
  assumes u: "0 < u" "u \<le> 2800000" and d: "0 < d" "d \<le> 2800000" and m: "2 \<le> m"
  shows "1 \<le> i \<Longrightarrow> i \<le> 21 \<Longrightarrow> i = 1 \<or> m * (2 ^ (i - 1) * d) < u \<Longrightarrow>
    \<exists>e. i \<le> e \<and> e \<le> 21 \<and> bins_loop u d m [i..<22] e0 = Some e \<and> u \<le> m * (2 ^ e * d) \<and> (e = 1 \<or> m * (2 ^ (e - 1) * d) < u)"
proof (induction "21 - i" arbitrary: i e0 rule: less_induct)
  case less
  have "2 ^ i * d \<le> 5600000"
  proof (cases "i = 1")
    case False
    then have "2 ^ i * d = 2 * (2 ^ (i - 1) * d)" using less.prems(1) by (simp add: power_eq_if)
    also have "\<dots> \<le> m * (2 ^ (i - 1) * d)" using m d by (intro mult_right_mono) simp_all
    finally show ?thesis using False less.prems(3) u by simp
  qed (use d in simp)
  moreover have p: "0 < 2 ^ i * d" using d by simp
  ultimately have o: "int32 (2 ^ i * d)" by (simp add: int32_def)
  have f: "fl (of_int u / of_int (2 ^ i * d)) \<le> of_int m \<longleftrightarrow> u \<le> m * (2 ^ i * d)"
    using u p by (intro fl_le_int) simp_all
  have l: "[i..<22] = i # [i + 1..<22]" using less.prems by (simp add: upt_conv_Cons)
  show ?case
  proof (cases "u \<le> m * (2 ^ i * d)")
    case True
    then show ?thesis using o f d less.prems unfolding l by (intro exI [of _ i]) simp
  next
    case False
    have "i \<noteq> 21"
    proof
      assume "i = 21"
      have "2 * (2097152 * 1) \<le> m * (2097152 * d)" using m d by (intro mult_mono) simp_all
      then have "u \<le> m * (2097152 * d)" using u by linarith
      then show False using False \<open>i = 21\<close> by simp
    qed
    then have "i < 21" "21 - (i + 1) < 21 - i" using less.prems by simp_all
    then obtain e where "i + 1 \<le> e \<and> e \<le> 21 \<and> bins_loop u d m [i + 1..<22] i = Some e \<and> u \<le> m * (2 ^ e * d) \<and>
        (e = 1 \<or> m * (2 ^ (e - 1) * d) < u)"
      using less.hyps [of "i + 1" i] less.prems False by auto
    then show ?thesis using o f d False unfolding l by (intro exI [of _ e]) simp
  qed
qed

lemma downsampled_rate:
  assumes w: "0 < w" and d: "2800000 div w < 2 * ds" "ds \<le> 2800000 div w"
  shows "1000000 \<le> w * ds \<and> w * ds \<le> (2800000 :: int)"
proof -
  define q where "q = 2800000 div w"
  have "w * q \<le> 2800000" "2800000 < w * q + w"
    using mult_div_mod_eq [of w 2800000] pos_mod_sign [OF w, of 2800000] pos_mod_bound [OF w, of 2800000]
    unfolding q_def by linarith+
  moreover have "w * ds \<le> w * q" using d(2) w unfolding q_def by (intro mult_left_mono) simp_all
  moreover have "w * (q + 1) \<le> w * (2 * ds)" using d(1) w unfolding q_def by (intro mult_left_mono) simp_all
  then have "w * q + w \<le> 2 * (w * ds)" by (simp add: distrib_left)
  ultimately show ?thesis by linarith
qed

text \<open>A range below 1 MHz is sampled faster and reduced; both ways of reducing keep the rate in bounds.\<close>

lemma reduction:
  assumes w: "0 < w" "w < 1000000"
  defines "D \<equiv> 2800000 div (w :: int)"
  defines "p \<equiv> floorlog 2 (nat D) - 1"
  shows "1 < D" "D \<le> 2800000" "1000000 \<le> w * D \<and> w * D \<le> 2800000" "2 ^ p \<le> D" "1000000 \<le> w * 2 ^ p \<and> w * 2 ^ p \<le> 2800000"
proof -
  have "2800000 div 1000000 \<le> D" unfolding D_def using w by (intro zdiv_mono2) simp_all
  then show D: "1 < D" by simp
  show "D \<le> 2800000" unfolding D_def using zdiv_mono2 [of 2800000 1 w] w by simp
  show "1000000 \<le> w * D \<and> w * D \<le> 2800000"
    using downsampled_rate [OF w(1), of D] D by (simp add: D_def)
  have b: "2 ^ p \<le> nat D" "nat D < 2 ^ floorlog 2 (nat D)" using floorlog_bounds [of "nat D" 2] D by (simp_all add: p_def)
  have "floorlog 2 (nat D) = Suc p" using b(2) D unfolding p_def by (cases "floorlog 2 (nat D)") simp_all
  then have "nat D < 2 * 2 ^ p" using b(2) by simp
  then have i: "int (nat D) < int (2 * 2 ^ p)" "int (2 ^ p) \<le> int (nat D)" using b(1) by (simp_all only: of_nat_less_iff of_nat_le_iff)
  then show "2 ^ p \<le> D" using D by simp
  show "1000000 \<le> w * 2 ^ p \<and> w * 2 ^ p \<le> 2800000"
    using downsampled_rate [OF w(1), of "2 ^ p"] i D by (simp add: D_def)
qed

text \<open>The plan: \<open>k\<close> ranges of \<open>seen\<close>, and what is common to them.\<close>

definition scan_state :: "int \<Rightarrow> int \<Rightarrow> int \<Rightarrow> nat \<Rightarrow> int \<Rightarrow> nat \<Rightarrow> int \<Rightarrow> tuning_state" where
  "scan_state lower seen rate e ds p i =
     \<lparr>ts_freq = lower + i * seen + seen div 2, ts_rate = rate, ts_bin_e = e, ts_avg = replicate (2 ^ e) 0, ts_samples = 0,
      ts_downsample = ds, ts_passes = p, ts_crop = 0, ts_buf_len = max 16384 (2 * 2 ^ e * ds)\<rparr>"

definition good_plan :: "int \<Rightarrow> int \<Rightarrow> int \<Rightarrow> int \<Rightarrow> int \<Rightarrow> nat \<Rightarrow> int \<Rightarrow> nat \<Rightarrow> bool" where
  "good_plan w max_size k seen rate e ds p \<longleftrightarrow>
     0 < k \<and> k \<le> 1499 \<and> seen = w div k \<and> (k = 1 \<or> 2800000 < w div (k - 1)) \<and> 0 < ds \<and> rate = seen * ds \<and>
     1000000 \<le> rate \<and> rate \<le> 2800000 \<and> rate \<le> max_size * (2 ^ e * ds) \<and> (e = 1 \<or> max_size * (2 ^ (e - 1) * ds) < rate) \<and>
     1 \<le> e \<and> e \<le> 21 \<and> (p = 0 \<or> ds = 2 ^ p)"

lemma frequency_range_plan:
  assumes w: "0 < upper - lower" "upper - lower < 2 ^ 31" and m: "2 \<le> max_size" "max_size < 1000000"
  shows "\<exists>k seen rate e ds p. good_plan (upper - lower) max_size k seen rate e ds p \<and>
    frequency_range use_boxcar 0 lower upper max_size = Inr (map (scan_state lower seen rate e ds p) [0..k - 1])"
proof -
  let ?w = "upper - lower"
  obtain k where k: "1 \<le> k" "k \<le> 1499" "hops_loop 0 ?w [1..1499] (0, 0, 0) = Some (k, ?w div k, ?w div k)"
      "?w div k \<le> 2800000" "k = 1 \<or> 2800000 < ?w div (k - 1)"
    using hops_loop_spec [of ?w 1 "(0, 0, 0)"] w by force
  define seen where "seen = ?w div k"
  have i32: "int32 ?w" using w by (simp add: int32_def)
  have small: "k = 1 \<and> seen = ?w" if "seen < 1000000"
  proof -
    have "k = 1"
    proof (rule ccontr)
      assume "k \<noteq> 1"
      then have "2800000 < ?w div (k - 1)" "1 \<le> k - 1" using k by auto
      then have "(k - 1) * 2800001 \<le> (k - 1) * (?w div (k - 1))" by (intro mult_left_mono) simp_all
      moreover have "(k - 1) * (?w div (k - 1)) \<le> ?w"
        using mult_div_mod_eq [of "k - 1" ?w] pos_mod_sign [of "k - 1" ?w] \<open>1 \<le> k - 1\<close> by linarith
      ultimately have "2800001 * (k - 1) \<le> ?w" by (simp add: mult.commute)
      then have "1000000 * k \<le> ?w" using \<open>1 \<le> k - 1\<close> by (simp add: algebra_simps)
      then have "1000000 \<le> seen" using k(1) zdiv_mono1 [of "1000000 * k" ?w k] by (simp add: seen_def)
      then show False using that by simp
    qed
    then show ?thesis by (simp add: seen_def)
  qed
  define ds where "ds = (if seen < 1000000 then (if use_boxcar then 2800000 div seen else 2 ^ (floorlog 2 (nat (2800000 div seen)) - 1)) else 1)"
  define p where "p = (if seen < 1000000 \<and> \<not> use_boxcar then floorlog 2 (nat (2800000 div seen)) - 1 else 0)"
  define rate where "rate = seen * ds"
  have s0: "0 < seen"
    using small w(1) by (cases "seen < 1000000") auto
  have ds: "0 < ds" "ds \<le> 2800000" "1000000 \<le> rate" "rate \<le> 2800000" "p = 0 \<or> ds = 2 ^ p"
    using reduction [OF s0] k(4) by (auto simp: ds_def rate_def p_def seen_def [symmetric])
  have r32: "int32 rate" using ds by (simp add: int32_def)
  obtain e where e: "1 \<le> e" "e \<le> 21" "bins_loop rate ds max_size [1..<22] 0 = Some e" "rate \<le> max_size * (2 ^ e * ds)"
      "e = 1 \<or> max_size * (2 ^ (e - 1) * ds) < rate"
    using bins_loop_spec [of rate ds max_size 1 0] ds m by force
  have good: "good_plan ?w max_size k seen rate e ds p"
    unfolding good_plan_def using k ds e by (auto simp: rate_def seen_def)
  have hop: "hops_loop 0 ?w [1..1499] (0, 0, 0) = Some (k, seen, seen)" using k(3) by (simp add: seen_def)
  have sd: "seen sdiv 2 = seen div 2" "2800000 sdiv seen = 2800000 div seen" using s0 by (simp_all add: sdiv_pos)
  have "frequency_range use_boxcar 0 lower upper max_size = Inr (map (scan_state lower seen rate e ds p) [0..k - 1])"
  proof (cases "seen < 1000000")
    case True
    then have h: "1 < 2800000 div seen" and k1: "k = 1" using reduction(1) [OF s0] small by simp_all
    show ?thesis
    proof (cases use_boxcar)
      case b: True
      then have v: "ds = 2800000 div seen" "p = 0" "rate = seen * (2800000 div seen)" using True by (simp_all add: ds_def p_def rate_def)
      show ?thesis using True b m(2) s0 e(3) i32 hop [unfolded k1] k1 
        by (simp add: frequency_range_def scan_state_def Let_def sd v)
    next
      case b: False
      then have v: "ds = 2 ^ p" "p = floorlog 2 (nat (2800000 div seen)) - 1" "rate = seen * 2 ^ p" using True by (simp_all add: ds_def p_def rate_def)
      show ?thesis using True b m(2) s0 e(3) i32 hop [unfolded k1] k1 h crop_bw_0 [OF r32]
        by (simp add: frequency_range_def scan_state_def Let_def sd v(1,3) v(2) [symmetric] v(2) [symmetric, unfolded One_nat_def])
    qed
  next
    case False
    then have v: "ds = 1" "p = 0" "rate = seen" by (simp_all add: ds_def p_def rate_def)
    show ?thesis using False k(2) m(2) s0 e(3) i32 hop
      by (simp add: frequency_range_def scan_state_def Let_def sd v)
  qed
  with good show ?thesis by blast
qed

section \<open>The scan stays inside its buffers\<close>

lemma length_fifth_loop: "length (fst (fifth_loop a b c d e f xs)) = length xs div 2"
  by (induction a b c d e f xs rule: fifth_loop.induct) (auto split: prod.split)

lemma length_generic_fir: "length (fst (generic_fir fir xs hist)) = length xs"
  by (induction fir xs hist rule: generic_fir.induct) (auto split: prod.split)

lemma length_fifth_order_ease: "6 \<le> length xs \<Longrightarrow> length (fifth_order_ease n xs) = length xs"
  by (simp add: fifth_order_ease_def Let_def length_fifth_loop)

lemma length_generic_fir_ease: "9 \<le> length xs \<Longrightarrow> n \<le> length xs \<Longrightarrow> length (generic_fir_ease n fir xs) = length xs"
  by (simp add: generic_fir_ease_def length_generic_fir)

lemma length_remove_dc: "length (remove_dc len xs) = length xs"
  by (auto simp: remove_dc_def Let_def min_def)

lemma length_channels: "length (f (map fst iq)) = length iq \<Longrightarrow> length (g (map snd iq)) = length iq \<Longrightarrow>
    length (channels f g iq) = length iq"
  by (simp add: channels_def)

lemma length_boxcar_loop: "length (boxcar_loop ds j j2 iq) = length iq"
  by (induction ds j j2 iq rule: boxcar_loop.induct) (subst boxcar_loop.simps, simp)

lemma length_downsample: "6 \<le> length iq \<Longrightarrow> length (fold (\<lambda>j. downsample_iq (n j)) js iq) = length iq"
  by (induction js arbitrary: iq) (simp_all add: downsample_iq_def length_channels length_fifth_order_ease)

lemma length_reduce: "9 \<le> length iq \<Longrightarrow> length (reduce cfg ds passes iq) = length iq"
  by (simp add: reduce_def Let_def length_boxcar_loop length_downsample length_channels length_generic_fir_ease)

lemma length_pairs_of: "length (pairs_of xs) = length xs div 2"
  by (induction xs rule: pairs_of.induct) simp_all

lemma length_windowed [simp]: "length (windowed w blk) = length blk"
  by (simp add: windowed_def)

text \<open>Every range after a pass: the spectrum keeps its length and no sum shrinks.\<close>

definition grown :: "tuning_state \<Rightarrow> tuning_state \<Rightarrow> bool" where
  "grown ts ts' \<longleftrightarrow> list_all2 (\<le>) (ts_avg ts) (ts_avg ts') \<and> ts_samples ts \<le> ts_samples ts' \<and>
     ts' = ts\<lparr>ts_avg := ts_avg ts', ts_samples := ts_samples ts'\<rparr>"

lemma grown_refl: "grown ts ts"
  by (simp add: grown_def list_all2_refl)

lemma grown_trans: "grown a b \<Longrightarrow> grown b c \<Longrightarrow> grown a c"
  unfolding grown_def by (cases a; cases b; cases c) (auto elim: list_all2_trans [rotated] intro: order_trans)

lemma max_or_sum_grows: "0 \<le> p \<Longrightarrow> a \<le> max_or_sum b p a"
  by (simp add: max_or_sum_def)

lemma length_fix_fft: "length iq = 2 ^ e \<Longrightarrow> fix_fft S L iq e = Some bins \<Longrightarrow> length bins = 2 ^ e"
  by (auto simp: fix_fft_rec split: if_splits)

lemma fft_blocks_total:
  assumes e: "e \<le> pc_log2_wave cfg" and n: "n \<le> 2 ^ e * c" and iq: "2 ^ e * c \<le> length iq"
  shows "b \<le> c \<Longrightarrow> length (ts_avg ts) = 2 ^ e \<Longrightarrow> 0 \<le> ts_downsample ts \<Longrightarrow>
    \<exists>ts'. fft_blocks cfg n e (2 ^ e * b) iq ts = Some ts' \<and> grown ts ts'"
proof (induction "c - b" arbitrary: b ts)
  case 0
  then show ?case using n grown_refl by (subst fft_blocks.simps) simp
next
  case (Suc k)
  show ?case
  proof (cases "2 ^ e * b < n")
    case True
    have "2 ^ e * b + 2 ^ e \<le> length iq"
      using iq mult_le_mono2 [of "Suc b" c "2 ^ e"] Suc.hyps(2) by force
    then have blk: "length (windowed (pc_window cfg) (take (2 ^ e) (drop (2 ^ e * b) iq))) = 2 ^ e" by simp
    then obtain bins where bins: "fix_fft (pc_sines cfg) (pc_log2_wave cfg) (windowed (pc_window cfg) (take (2 ^ e) (drop (2 ^ e * b) iq))) e = Some bins"
      using e by (simp add: fix_fft_rec)
    have l: "length bins = 2 ^ e" by (rule length_fix_fft [OF blk bins])
    define ts1 where "ts1 = ts\<lparr>ts_avg := map2 (\<lambda>(r, i) a. max_or_sum (pc_peak_hold cfg) (real_conj r i) a) bins (ts_avg ts),
      ts_samples := ts_samples ts + ts_downsample ts\<rparr>"
    have g: "grown ts ts1" using l Suc.prems(2,3)
      by (auto simp: grown_def ts1_def list_all2_conv_all_nth real_conj_def intro!: max_or_sum_grows split: prod.split)
    have "k = c - Suc b" "Suc b \<le> c" "length (ts_avg ts1) = 2 ^ e" "0 \<le> ts_downsample ts1"
      using Suc.hyps(2) Suc.prems l by (simp_all add: ts1_def)
    from Suc.hyps(1) [OF this] obtain ts' where "fft_blocks cfg n e (2 ^ e * b + 2 ^ e) iq ts1 = Some ts'" "grown ts1 ts'"
      by (auto simp: add.commute)
    then show ?thesis using True \<open>2 ^ e * b + 2 ^ e \<le> length iq\<close> bins grown_trans [OF g]
      by (subst fft_blocks.simps) (simp add: ts1_def)
  next
    case False
    then show ?thesis using grown_refl by (subst fft_blocks.simps) simp
  qed
qed

text \<open>What a planned range keeps: its buffer holds whole blocks.\<close>

definition scan_ok :: "nat \<Rightarrow> tuning_state \<Rightarrow> bool" where
  "scan_ok e ts \<longleftrightarrow> ts_bin_e ts = e \<and> 1 \<le> e \<and> length (ts_avg ts) = 2 ^ e \<and> 0 < ts_downsample ts \<and>
     ts_buf_len ts = max 16384 (2 * 2 ^ e * ts_downsample ts)"

lemma scan_ok_grown: "scan_ok e ts \<Longrightarrow> grown ts ts' \<Longrightarrow> scan_ok e ts'"
  unfolding grown_def scan_ok_def by (cases ts; cases ts') (auto dest: list_all2_lengthD)

lemma whole_blocks:
  fixes ds :: nat
  assumes "0 < ds" and "len = max 16384 (2 * 2 ^ e * ds) div ds"
  shows "\<exists>c. (len + 1) div 2 \<le> 2 ^ e * c \<and> 2 ^ e * c \<le> max 16384 (2 * 2 ^ e * ds) div 2"
proof (cases "16384 \<le> 2 * 2 ^ e * ds")
  case True
  then have "len = 2 * 2 ^ e" using assms by simp
  then show ?thesis using True assms(1) by (intro exI [of _ 1]) simp
next
  case False
  then have l: "len = 16384 div ds" "max 16384 (2 * 2 ^ e * ds) = 16384" using assms by simp_all
  have "2 * 2 ^ e * 1 \<le> 2 * 2 ^ e * ds" using assms(1) by (intro mult_le_mono2) simp
  then have "2 * 2 ^ e < (16384 :: nat)" using False by linarith
  then have "(2 :: nat) ^ Suc e < 2 ^ 14" by simp
  then have "e \<le> 13" using power_less_imp_less_exp [of "2 :: nat" "Suc e" 14] by simp
  then have "2 ^ e * 2 ^ (13 - e) = (2 :: nat) ^ 13" by (simp only: power_add [symmetric] le_add_diff_inverse)
  moreover have "len \<le> 16384" unfolding l by (rule div_le_dividend)
  then have "(len + 1) div 2 \<le> 8192" by linarith
  ultimately show ?thesis unfolding l(2) by (intro exI [of _ "2 ^ (13 - e)"]) simp
qed

lemma scan_tune_total:
  assumes ts: "scan_ok e ts" and cfg: "e \<le> pc_log2_wave cfg" and buf: "int (length buf8) = ts_buf_len ts"
  shows "\<exists>ts'. scan_tune cfg buf8 ts = Some ts' \<and> grown ts ts'"
proof -
  define ds where "ds = nat (ts_downsample ts)"
  define len where "len = nat (ts_buf_len ts) div ds"
  define iq where "iq = channels (remove_dc len) (remove_dc (len - 1))
    (reduce cfg ds (ts_passes ts) (pairs_of (map (\<lambda>b. to_int16 (uint b) - 127) buf8)))"
  have d: "0 < ds" "ts_downsample ts = int ds" using ts by (simp_all add: scan_ok_def ds_def)
  have "int (length buf8) = int (max 16384 (2 * 2 ^ e * ds))" using ts buf d by (simp add: scan_ok_def of_nat_max)
  then have l: "length buf8 = max 16384 (2 * 2 ^ e * ds)" by (simp only: of_nat_eq_iff)
  then have n: "nat (ts_buf_len ts) = max 16384 (2 * 2 ^ e * ds)" using buf by simp
  have "9 \<le> length buf8 div 2" using l by simp
  then have iq_len: "length iq = length buf8 div 2"
    unfolding iq_def by (simp add: length_channels length_remove_dc length_reduce length_pairs_of)
  obtain c where c: "(len + 1) div 2 \<le> 2 ^ e * c" "2 ^ e * c \<le> length iq"
    using whole_blocks [OF d(1), of len e] unfolding iq_len l len_def n by blast
  obtain ts' where "fft_blocks cfg ((len + 1) div 2) e 0 iq ts = Some ts' \<and> grown ts ts'"
    using fft_blocks_total [OF cfg c, of 0 ts] ts by (auto simp: scan_ok_def)
  moreover have "ts_bin_e ts = e" "e \<noteq> 0" "ts_downsample ts \<noteq> 0" using ts by (simp_all add: scan_ok_def)
  then have "scan_tune cfg buf8 ts = fft_blocks cfg ((len + 1) div 2) e 0 iq ts"
    unfolding scan_tune_def Let_def ds_def [symmetric] len_def [symmetric] iq_def [symmetric] by simp
  ultimately show ?thesis by simp
qed

text \<open>Passes one after the other; each gives every range a buffer.\<close>

fun scans :: "power_config \<Rightarrow> tuning_state list \<Rightarrow> u8 list list list \<Rightarrow> tuning_state list option" where
  "scans cfg tunes [] = Some tunes"
| "scans cfg tunes (bufs # rest) = Option.bind (scanner cfg (zip tunes bufs)) (\<lambda>tunes. scans cfg tunes rest)"

definition buffers_fit :: "tuning_state list \<Rightarrow> u8 list list \<Rightarrow> bool" where
  "buffers_fit tunes bufs \<longleftrightarrow> list_all2 (\<lambda>ts buf8. int (length buf8) = ts_buf_len ts) tunes bufs"

lemma scanner_total:
  assumes "e \<le> pc_log2_wave cfg"
  shows "list_all (scan_ok e) tunes \<Longrightarrow> buffers_fit tunes bufs \<Longrightarrow>
    \<exists>tunes'. scanner cfg (zip tunes bufs) = Some tunes' \<and> list_all2 grown tunes tunes'"
proof (induction tunes arbitrary: bufs)
  case (Cons ts tunes)
  then obtain buf8 bufs' where b: "bufs = buf8 # bufs'" "int (length buf8) = ts_buf_len ts" "buffers_fit tunes bufs'"
    by (auto simp: buffers_fit_def list_all2_Cons1)
  obtain ts' where "scan_tune cfg buf8 ts = Some ts'" "grown ts ts'"
    using scan_tune_total [OF _ assms b(2)] Cons.prems(1) by auto
  moreover obtain tunes' where "scanner cfg (zip tunes bufs') = Some tunes'" "list_all2 grown tunes tunes'"
    using Cons.IH b(3) Cons.prems(1) by auto
  ultimately show ?case by (simp add: b)
qed (simp add: buffers_fit_def)

lemma grown_buf_len: "grown ts ts' \<Longrightarrow> ts_buf_len ts' = ts_buf_len ts"
  unfolding grown_def by (cases ts; cases ts') auto

lemma buffers_fit_grown: "list_all2 grown tunes tunes' \<Longrightarrow> buffers_fit tunes bufs \<Longrightarrow> buffers_fit tunes' bufs"
  by (auto simp: buffers_fit_def list_all2_conv_all_nth grown_buf_len)

lemma scans_total:
  assumes "e \<le> pc_log2_wave cfg"
  shows "list_all (scan_ok e) tunes \<Longrightarrow> list_all (buffers_fit tunes) rounds \<Longrightarrow>
    \<exists>tunes'. scans cfg tunes rounds = Some tunes' \<and> list_all2 grown tunes tunes'"
proof (induction rounds arbitrary: tunes)
  case Nil
  then show ?case by (simp add: list_all2_refl grown_refl)
next
  case (Cons bufs rounds)
  then obtain tunes1 where 1: "scanner cfg (zip tunes bufs) = Some tunes1" "list_all2 grown tunes tunes1"
    using scanner_total [OF assms Cons.prems(1)] by auto
  have "list_all (scan_ok e) tunes1"
    using 1(2) Cons.prems(1) by (auto simp: list_all_length list_all2_conv_all_nth intro: scan_ok_grown)
  moreover have "list_all (buffers_fit tunes1) rounds"
    using Cons.prems(2) buffers_fit_grown [OF 1(2)] by (auto simp: list_all_iff)
  ultimately obtain tunes' where "scans cfg tunes1 rounds = Some tunes'" "list_all2 grown tunes1 tunes'"
    using Cons.IH by blast
  then show ?case using 1 list_all2_trans [OF grown_trans 1(2)] by auto
qed

section \<open>The report\<close>

lemma nth_swap:
  "i < length xs \<Longrightarrow> j < length xs \<Longrightarrow> i \<noteq> j \<Longrightarrow> swap i j xs ! p = (if p = i then xs ! j else if p = j then xs ! i else xs ! p)"
  by (auto simp: swap_def nth_list_update)

lemma length_swap: "length (swap i j xs) = length xs"
  by (simp add: swap_def)

lemma swap_halves:
  assumes "length xs = 2 * h" and "i \<le> h"
  shows "length (fold (\<lambda>i xs. swap i (i + h) xs) [0..<i] xs) = 2 * h \<and>
    (\<forall>p < 2 * h. fold (\<lambda>i xs. swap i (i + h) xs) [0..<i] xs ! p =
      (if p < i then xs ! (p + h) else if h \<le> p \<and> p < h + i then xs ! (p - h) else xs ! p))"
  using assms(2)
proof (induction i)
  case (Suc i)
  let ?ys = "fold (\<lambda>i xs. swap i (i + h) xs) [0..<i] xs"
  have ys: "length ?ys = 2 * h" "\<And>p. p < 2 * h \<Longrightarrow> ?ys ! p =
      (if p < i then xs ! (p + h) else if h \<le> p \<and> p < h + i then xs ! (p - h) else xs ! p)"
    using Suc by auto
  have "swap i (i + h) ?ys ! p = (if p = i then ?ys ! (i + h) else if p = i + h then ?ys ! i else ?ys ! p)" if "p < 2 * h" for p
    using ys(1) Suc.prems by (intro nth_swap) simp_all
  then show ?case using ys Suc.prems by (auto simp: length_swap)
qed (use assms in auto)

lemma swap_all:
  assumes xs: "length xs = 2 * h"
  shows "fold (\<lambda>i xs. swap i (i + h) xs) [0..<h] xs = drop h xs @ take h xs"
proof (rule nth_equalityI)
  fix p
  assume "p < length (fold (\<lambda>i xs. swap i (i + h) xs) [0..<h] xs)"
  then have "p < 2 * h" using swap_halves [OF xs order_refl] by simp
  then show "fold (\<lambda>i xs. swap i (i + h) xs) [0..<h] xs ! p = (drop h xs @ take h xs) ! p"
    using swap_halves [OF xs order_refl] xs by (cases "p < h") (simp_all add: nth_append add.commute)
qed (use swap_halves [OF xs order_refl] xs in simp)

lemma fft_quirks_shift:
  assumes e: "1 \<le> e" and l: "length avg = 2 ^ e"
  shows "fft_quirks e avg = drop (2 ^ (e - 1)) avg @ avg ! 1 # drop 1 (take (2 ^ (e - 1)) avg)"
proof -
  define h where "h = (2 :: nat) ^ (e - 1)"
  have h: "2 ^ e = 2 * h" "0 < h" using e by (cases e; simp add: h_def)+
  let ?xs = "avg[0 := avg ! 1]"
  have xs: "length ?xs = 2 * h" using l h by simp
  have "fft_quirks e avg = fold (\<lambda>i xs. swap i (i + h) xs) [0..<h] ?xs" using e h by (simp add: fft_quirks_def)
  also have "\<dots> = drop h ?xs @ take h ?xs"
    using xs by (rule swap_all)
  also have "\<dots> = drop h avg @ avg ! 1 # drop 1 (take h avg)"
    using h l by (cases "take h avg") (simp_all add: drop_update_cancel take_update_swap)
  finally show ?thesis by (simp add: h_def)
qed

lemma csv_bandwidth:
  assumes "0 \<le> rate" "rate < 2 ^ 22" "0 < ds" "2 ^ e * ds < (2 :: int) ^ 31" "e \<le> 21"
  shows "dbl_trunc (fl (fl (of_int rate * of_int (2 ^ e)) / of_int (2 ^ e * 2 * ds))) = rate div (2 * ds)"
proof -
  define a b where "a = nat (rate * 2 ^ e)" and "b = nat (2 ^ e * 2 * ds)"
  have ab: "int a = rate * 2 ^ e" "int b = 2 ^ e * 2 * ds" using assms by (simp_all add: a_def b_def)
  have le: "(2 :: int) ^ e \<le> 2 ^ 21" using assms(5) by (intro power_increasing) simp_all
  have "rate * 2 ^ e \<le> 2 ^ 22 * 2 ^ 21" using assms le by (intro mult_mono) simp_all
  then have "\<bar>rate * 2 ^ e\<bar> < 2 ^ 53" using assms(1) by (simp add: abs_mult)
  from fl_int [OF this] have f: "fl (of_int rate * of_int (2 ^ e)) = of_nat a" by (simp flip: ab(1) add: of_int_mult [symmetric] del: of_int_power of_int_mult)
  have b: "0 < b" "int b < int (2 ^ 32)" unfolding ab using assms by (simp_all add: b_def mult.commute)
  have "rate * 2 ^ e < 2 ^ 22 * 2 ^ e" using assms(2) by simp
  also have "\<dots> \<le> 2 ^ 22 * (2 ^ e * 2 * ds)" using assms(3) by simp
  finally have "int a < int (2 ^ 22 * b)" unfolding ab of_nat_mult by simp
  then have "dbl_trunc (fl (of_nat a / of_nat b)) = int (a div b)" using b by (intro trunc_div [of b a 22]) (simp_all only: of_nat_less_iff, simp_all)
  moreover have "of_int (2 ^ e * 2 * ds) = (of_nat b :: rat)" by (simp flip: ab(2) del: of_int_mult of_int_power)
  moreover have "int (a div b) = rate div (2 * ds)" by (simp add: zdiv_int ab mult.commute [of rate] mult.assoc)
  ultimately show ?thesis by (simp only: f)
qed

section \<open>Properties\<close>

text \<open>C30: Without cropping the report of a range gives the frequencies half a bandwidth below and above its centre, the
  bins in the order of their frequencies (the second half of the transform first, the bin of the centre replaced by its neighbour), the
  last one twice, and clears the sums.\<close>

theorem power_report:
  assumes "scan_ok e ts" and "e \<le> 21" and "ts_crop ts = 0" and "0 \<le> ts_rate ts" and "ts_rate ts < 2 ^ 22"
    and "2 ^ e * ts_downsample ts < 2 ^ 31"
  shows "let half = ts_rate ts div (2 * ts_downsample ts);
      bins = drop (2 ^ (e - 1)) (ts_avg ts) @ ts_avg ts ! 1 # drop 1 (take (2 ^ (e - 1)) (ts_avg ts))
    in csv_dbm ts = ((ts_freq ts - half, ts_freq ts + half, ts_samples ts, bins @ [last bins]),
      ts\<lparr>ts_avg := replicate (2 ^ e) 0, ts_samples := 0\<rparr>)"
proof -
  have ts: "ts_bin_e ts = e" "1 \<le> e" "length (ts_avg ts) = 2 ^ e" "0 < ts_downsample ts" using assms(1) by (simp_all add: scan_ok_def)
  define bins where "bins = fft_quirks e (ts_avg ts)"
  have l: "length bins = 2 ^ e" unfolding bins_def fft_quirks_shift [OF ts(2,3)] using ts(2,3) by (cases e) simp_all
  have le: "(2 :: int) ^ e \<le> 2 ^ 21" using assms(2) by (intro power_increasing) simp_all
  have f1: "fl (1 - ts_crop ts) = 1" using fl_int [of 1] by (simp add: assms(3))
  have "fl (of_int (2 ^ e)) = of_int (2 ^ e)" using le by (intro fl_int) simp
  then have c: "dbl_trunc (fl (of_nat (2 ^ e) * fl (1 - ts_crop ts))) = 2 ^ e"
    using dbl_trunc_int [of "2 ^ e"] by (simp add: f1)
  have z: "dbl_trunc (fl (fl (of_nat (2 ^ e) * ts_crop ts) * (1 / 2))) = 0" by (simp add: assms(3) fl_def dbl_trunc_def)
  have p: "map ((!) bins) [0..<2 ^ e - 1 - 0 + 1] @ [bins ! (2 ^ e - 1 - 0)] = bins @ [last bins]"
    using l map_nth [of bins] last_conv_nth [of bins] by (cases bins) simp_all
  have "csv_dbm ts = ((ts_freq ts - ts_rate ts div (2 * ts_downsample ts), ts_freq ts + ts_rate ts div (2 * ts_downsample ts),
      ts_samples ts, bins @ [last bins]), ts\<lparr>ts_avg := replicate (2 ^ e) 0, ts_samples := 0\<rparr>)"
    using csv_bandwidth [OF assms(4,5) ts(4) assms(6,2)] ts(2) p
    unfolding csv_dbm_def Let_def ts(1) bins_def [symmetric] c z by simp
  then show ?thesis unfolding Let_def bins_def fft_quirks_shift [OF ts(2,3)] .
qed





lemma power_report_witness:
  "let ts = \<lparr>ts_freq = 100000000, ts_rate = 2000000, ts_bin_e = 2, ts_avg = [50, 1, 2, 3], ts_samples = 7, ts_downsample = 1,
      ts_passes = 0, ts_crop = 0, ts_buf_len = 16384\<rparr>
    in csv_dbm ts = ((99000000, 101000000, 7, [2, 3, 1, 1] @ [1]), ts\<lparr>ts_avg := [0, 0, 0, 0], ts_samples := 0\<rparr>)"
  using power_report [of 2 "\<lparr>ts_freq = 100000000, ts_rate = 2000000, ts_bin_e = 2, ts_avg = [50, 1, 2, 3], ts_samples = 7, ts_downsample = 1,
      ts_passes = 0, ts_crop = 0, ts_buf_len = 16384\<rparr>"]
  by (simp add: scan_ok_def numeral_eq_Suc)

lemma bins_loop_exhausted:
  assumes "0 < d" "m * (2 ^ 21 * d) < u" "u < 2147483648" "0 < m"
  shows "i \<le> 22 \<Longrightarrow> bins_loop u d m [i..<22] e0 = Some (if i = 22 then e0 else 21)"
proof (induction "22 - i" arbitrary: i e0)
  case (Suc k)
  have "2 ^ i * d \<le> 2 ^ 21 * d" using Suc.hyps(2) assms(1) by (intro mult_right_mono power_increasing) simp_all
  moreover have "1 * (2 ^ 21 * d) \<le> m * (2 ^ 21 * d)" using assms by (intro mult_right_mono) simp_all
  moreover have "m * (2 ^ i * d) \<le> m * (2 ^ 21 * d)" using calculation(1) assms(4) by (intro mult_left_mono) simp_all
  moreover have "0 < 2 ^ i * d" using assms(1) by simp
  ultimately have r: "0 < 2 ^ i * d" "2 ^ i * d < 2147483648" "\<not> u \<le> m * (2 ^ i * d)" "0 < u"
    using assms(2,3) by linarith+
  then have b: "0 < 2 ^ i * d" "int32 (2 ^ i * d)" "\<not> u \<le> m * (2 ^ i * d)" "0 < u" by (simp_all add: int32_def)
  then have "\<not> fl (of_int u / of_int (2 ^ i * d)) \<le> of_int m"
    using assms(3) by (subst fl_le_int) simp_all
  moreover have "[i..<22] = i # [Suc i..<22]" using Suc.hyps(2) by (simp add: upt_conv_Cons)
  ultimately show ?case using b(2) Suc.hyps(1) [of "Suc i" i] Suc.hyps(2) by auto
qed simp


end
