(* ===== verification/Librtlsdr_Xtal.thy ===== *)
theory Librtlsdr_Xtal
  imports Librtlsdr_Inv
begin

unbundle bit_operations_syntax

text \<open>
  What every call of the library leaves alone: the crystal frequency, which only
  \<open>rtlsdr_set_xtal_freq\<close> changes, and a fault that was recorded.
\<close>

section \<open>What no call undoes\<close>

text \<open>The crystal frequency, changed by \<open>rtlsdr_set_xtal_freq\<close> only, and a fault once recorded.\<close>

definition stays :: "nat \<Rightarrow> bool \<Rightarrow> 'h rtlsdr \<Rightarrow> bool" where
  "stays x b s \<longleftrightarrow> d_rtl_xtal s = x \<and> (b \<longrightarrow> d_fault s)"

named_theorems stay_rules \<open>computations that keep the crystal and the faults\<close>

lemma stays_modify [stay_rules]:
  "(\<And>s. d_rtl_xtal (f s) = d_rtl_xtal s \<and> (d_fault s \<longrightarrow> d_fault (f s))) \<Longrightarrow> always (stays x b) (modify f)"
  by (rule always_modify) (simp add: stays_def)

lemma stays_io [stay_rules]:
  "always (stays x b) (d_io m)" "always (stays x b) (d_e4k_io n)" "always (stays x b) (d_r82xx_io p)"
  by (auto simp: always_def d_io_def d_e4k_io_def d_r82xx_io_def stays_def split: prod.splits)

lemma stays_ensure [stay_rules]: "always (stays x b) (d_ensure c)"
  unfolding d_ensure_def by (rule stays_modify) simp

lemma stays_tuner_op:
  "always (stays x b) (k None) \<Longrightarrow> (\<And>t. always (stays x b) (k (c t U))) \<Longrightarrow>
    always (stays x b) (State_Monad.bind (tuner_op c U) k)"
  unfolding tuner_op_def by (rule always_gets_bind) (auto split: Option.bind_split)

lemma stays_with_repeater: "(\<And>m. f = Some m \<Longrightarrow> always (stays x b) m) \<Longrightarrow> always (stays x b) (with_repeater U f)"
  unfolding with_repeater_def by (cases f) (auto intro!: always_rules stay_rules)

lemma stays_clock [stay_rules]: "always (stays x b) get_rtl_xtal" "always (stays x b) rtlsdr_get_tuner_clock"
  unfolding get_rtl_xtal_def rtlsdr_get_tuner_clock_def by (intro always_rules stay_rules)+

lemma stays_if_freq [stay_rules]: "always (stays x b) (rtlsdr_set_if_freq U freq)"
  unfolding rtlsdr_set_if_freq_def by (intro always_rules stay_rules)

lemma stays_sample_corr [stay_rules]: "always (stays x b) (rtlsdr_set_sample_freq_correction U ppm)"
  unfolding rtlsdr_set_sample_freq_correction_def by (intro always_rules stay_rules)

lemma stays_bias_tee [stay_rules]: "always (stays x b) (rtlsdr_set_bias_tee U on)"
  unfolding rtlsdr_set_bias_tee_def rtlsdr_set_bias_tee_gpio_def by (intro always_rules stay_rules)

lemma stays_tuner_init: "tuner_init t U = Some m \<Longrightarrow> always (stays x b) m"
  by (cases t) (auto simp: e4000_init_def r820t_init_def intro!: always_rules stay_rules)

lemma stays_tuner_exit: "tuner_exit t U = Some m \<Longrightarrow> always (stays x b) m"
  by (cases t) (auto simp: e4000_exit_def r820t_exit_def intro!: always_rules stay_rules)

lemma stays_tuner_set_freq: "tuner_set_freq t U = Some f \<Longrightarrow> always (stays x b) (f freq)"
  by (cases t) (auto simp: e4000_set_freq_def fc0012_set_freq_def fc0013_set_freq_def r820t_set_freq_def
    intro!: always_rules stay_rules)

lemma stays_apply_freq [stay_rules]: "always (stays x b) (apply_freq U freq)"
  unfolding apply_freq_def
  by (rule always_bind, rule always_gets, rule stays_tuner_op; intro always_rules stay_rules)
    (auto dest: stays_tuner_set_freq)

lemma stays_enable_ds [stay_rules]: "always (stays x b) (enable_ds U on)"
  unfolding enable_ds_def
  by (rule stays_tuner_op; intro always_rules stay_rules stays_with_repeater) (auto dest: stays_tuner_exit)

lemma stays_disable_ds [stay_rules]: "always (stays x b) (disable_ds U)"
  unfolding disable_ds_def
  by (rule stays_tuner_op; intro always_rules stay_rules stays_with_repeater) (auto dest: stays_tuner_init)

lemma stays_center_freq_fuel [stay_rules]: "always (stays x b) (center_freq_fuel n U freq)"
proof (induction n arbitrary: freq)
  case (Suc n)
  then show ?case
    unfolding center_freq_fuel.simps center_freq_with_def direct_sampling_with_def
    by (intro always_rules stay_rules) simp_all
qed (simp add: always_rules)

lemma stays_center_freq [stay_rules]: "always (stays x b) (rtlsdr_set_center_freq U freq)"
  unfolding rtlsdr_set_center_freq_def or_fault_def by (intro always_rules stay_rules)

lemma stays_tuner_set_bw: "tuner_set_bw t U = Some f \<Longrightarrow> always (stays x b) (f bw)"
  by (cases t) (auto simp: e4000_set_bw_def fc2580_set_bw_def r820t_set_bw_def Let_def intro!: always_rules stay_rules)

lemma stays_offset_tuning [stay_rules]: "always (stays x b) (rtlsdr_set_offset_tuning U on)"
  unfolding rtlsdr_set_offset_tuning_def
  by (rule always_if always_ret stays_tuner_op stays_with_repeater stay_rules
      | rule always_bind always_gets | (auto dest: stays_tuner_set_bw; fail))+

lemma stays_apply_sample_rate [stay_rules]: "always (stays x b) (apply_sample_rate U ratio)"
  unfolding apply_sample_rate_def
  by (rule always_if always_ret always_seq_or_rules stays_tuner_op stays_with_repeater stay_rules
      | rule always_bind always_gets | (auto dest: stays_tuner_set_bw; fail))+

lemma stays_sample_rate [stay_rules]: "always (stays x b) (rtlsdr_set_sample_rate U rate)"
  unfolding rtlsdr_set_sample_rate_def by (intro always_rules stay_rules) simp

lemma stays_update_clocks [stay_rules]: "always (stays x b) update_tuner_clocks"
  unfolding update_tuner_clocks_def by (intro always_rules stay_rules) simp

section \<open>Crystal frequencies that break the resampler\<close>

lemma xtal_freq_sets:
  assumes "28799000 \<le> x" and "x \<le> 28801000"
  shows "d_rtl_xtal (snd (run_state (rtlsdr_set_xtal_freq U x y) s)) = x"
proof -
  let ?first = "if x > 0 \<and> d_rtl_xtal s \<noteq> x then do {
      _ \<leftarrow> modify (\<lambda>s. s\<lparr>d_rtl_xtal := x\<rparr>);
      rate \<leftarrow> gets d_rate;
      if rate \<noteq> 0 then rtlsdr_set_sample_rate U rate else ret 0 }
    else ret 0"
  let ?rest = "\<lambda>r. do {
      tun_xtal \<leftarrow> gets d_tun_xtal;
      if tun_xtal \<noteq> y then do {
        _ \<leftarrow> modify (\<lambda>s. s\<lparr>d_tun_xtal := (if y = 0 then d_rtl_xtal s else y)\<rparr>);
        _ \<leftarrow> update_tuner_clocks;
        freq \<leftarrow> gets d_freq;
        if freq \<noteq> 0 then rtlsdr_set_center_freq U freq else ret r }
      else ret r }"
  obtain r s' where 1: "run_state ?first s = (r, s')" by fastforce
  have "stays x False (snd (run_state ?first s))"
    using stays_sample_rate [of x False U] assms by (auto simp: always_def stays_def)
  then have "stays x False s'" using 1 by simp
  moreover have "always (stays x False) (?rest r)" by (intro always_rules stay_rules) simp
  ultimately have "stays x False (snd (run_state (?rest r) s'))" by (simp only: always_def)
  moreover have "run_state (rtlsdr_set_xtal_freq U x y) s = run_state (?rest r) s'"
  proof -
    have "\<not> (x > 0 \<and> (x < 28799000 \<or> x > 28801000))" using assms by simp
    then show ?thesis
      unfolding rtlsdr_set_xtal_freq_def by (simp only: if_False run_state_bind run_gets prod.case 1)
  qed
  ultimately show ?thesis by (simp add: stays_def)
qed

lemma sample_rate_faults:
  assumes "rate_supported rate" and "real_rate (d_rtl_xtal s) (rsamp_ratio (d_rtl_xtal s) rate) = None"
  shows "d_fault (snd (run_state (rtlsdr_set_sample_rate U rate) s))"
proof -
  let ?s = "s\<lparr>d_fault := True, d_rate := 0\<rparr>"
  have "run_state (rtlsdr_set_sample_rate U rate) s = run_state (apply_sample_rate U (rsamp_ratio (d_rtl_xtal s) rate)) ?s"
    using assms by (simp add: rtlsdr_set_sample_rate_def d_ensure_def Let_def)
  moreover have "stays (d_rtl_xtal s) True ?s" by (simp add: stays_def)
  ultimately show ?thesis
    using stays_apply_sample_rate [of "d_rtl_xtal s" True U] unfolding always_def stays_def by metis
qed

end
