(* ===== verification/Rtl_Tcp.thy ===== *)
theory Rtl_Tcp
  imports Librtlsdr_Correct Convenience Librtlsdr_Xtal "HOL-Library.Sublist"
begin

unbundle bit_operations_syntax

text \<open>
  The server (src/src/rtl_tcp.c): the list of sample buffers between the callback and the worker thread, as a
  step relation over their interleavings; the command thread, from the bytes of the socket to the calls of the
  library; the settings before listening and the greeting of a client. Sockets are the bytes that come and
  go; addresses, options and the accept loop are not modelled.
\<close>

section \<open>The list of buffers\<close>

text \<open>
  \<open>ll_buffers\<close> as the list of the buffers in it. The worker waits, sends what it took from the
  list (the current element without the bytes already sent, then the others), or has exited.
\<close>

datatype worker = Waiting | Sending "u8 list list" | Exited

record rtl_tcp =
  ll_buffers :: "u8 list list"
  global_numq :: int
  do_exit :: bool
  tcp_worker_at :: worker
  stream :: "u8 list"

text \<open>The state in which a client is served: \<open>main\<close> empties the list and resets the flags.\<close>

definition new_client :: rtl_tcp where
  "new_client = \<lparr>ll_buffers = [], global_numq = 0, do_exit = False, tcp_worker_at = Waiting, stream = []\<rparr>"

text \<open>\<open>num_queued\<close> counts the elements after the first. \<open>None\<close>: the only element is freed and then
  written to through \<open>cur\<close>.\<close>

definition rtlsdr_callback :: "int \<Rightarrow> u8 list \<Rightarrow> rtl_tcp \<Rightarrow> rtl_tcp option" where
  "rtlsdr_callback llbuf_num buf s =
     (if do_exit s then Some s
      else if ll_buffers s = [] then Some (s\<lparr>ll_buffers := [buf]\<rparr>)
      else let num_queued = int (length (ll_buffers s)) - 1 in
        if llbuf_num \<noteq> 0 \<and> llbuf_num = num_queued - 2
        then if tl (ll_buffers s) = [] then None
             else Some (s\<lparr>ll_buffers := tl (ll_buffers s) @ [buf], global_numq := num_queued\<rparr>)
        else Some (s\<lparr>ll_buffers := ll_buffers s @ [buf], global_numq := num_queued\<rparr>))"

text \<open>The element to send next; an empty one is freed at once.\<close>

fun next_element :: "u8 list list \<Rightarrow> worker" where
  "next_element [] = Waiting"
| "next_element (data # elems) = (if data = [] then next_element elems else Sending (data # elems))"

text \<open>The worker takes the whole list, the mutex being held.\<close>

definition worker_take :: "rtl_tcp \<Rightarrow> rtl_tcp" where
  "worker_take s = s\<lparr>tcp_worker_at := next_element (ll_buffers s), ll_buffers := []\<rparr>"

text \<open>\<open>sighandler\<close>, then \<open>pthread_exit\<close>.\<close>

definition worker_bye :: "rtl_tcp \<Rightarrow> rtl_tcp" where
  "worker_bye s = s\<lparr>do_exit := True, tcp_worker_at := Exited\<rparr>"

text \<open>One round of the loop over \<open>bytesleft\<close> in which \<open>send\<close> accepted \<open>n\<close> bytes (none, when
  \<open>select\<close> timed out), and the step to the next element.\<close>

definition worker_send :: "nat \<Rightarrow> u8 list \<Rightarrow> u8 list list \<Rightarrow> rtl_tcp \<Rightarrow> rtl_tcp" where
  "worker_send n data elems s =
     (let s = s\<lparr>stream := stream s @ take n data\<rparr> in
      if do_exit s then worker_bye s else s\<lparr>tcp_worker_at := next_element (drop n data # elems)\<rparr>)"

text \<open>The interleavings of the callback and the worker, with the buffers delivered so far.\<close>

inductive serving :: "int \<Rightarrow> u8 list list \<Rightarrow> rtl_tcp \<Rightarrow> bool" for llbuf_num where
  start: "serving llbuf_num [] new_client"
| callback: "serving llbuf_num bufs s \<Longrightarrow> rtlsdr_callback llbuf_num buf s = Some s' \<Longrightarrow> serving llbuf_num (bufs @ [buf]) s'"
| exit_flag: "serving llbuf_num bufs s \<Longrightarrow> serving llbuf_num bufs (s\<lparr>do_exit := True\<rparr>)"
| leave: "serving llbuf_num bufs s \<Longrightarrow> tcp_worker_at s = Waiting \<Longrightarrow> do_exit s \<Longrightarrow>
    serving llbuf_num bufs (s\<lparr>tcp_worker_at := Exited\<rparr>)"
| timed_out: "serving llbuf_num bufs s \<Longrightarrow> tcp_worker_at s = Waiting \<Longrightarrow> serving llbuf_num bufs (worker_bye s)"
| signalled: "serving llbuf_num bufs s \<Longrightarrow> tcp_worker_at s = Waiting \<Longrightarrow> serving llbuf_num bufs (worker_take s)"
| sent: "serving llbuf_num bufs s \<Longrightarrow> tcp_worker_at s = Sending (data # elems) \<Longrightarrow> n \<le> length data \<Longrightarrow>
    serving llbuf_num bufs (worker_send n data elems s)"
| send_error: "serving llbuf_num bufs s \<Longrightarrow> tcp_worker_at s = Sending (data # elems) \<Longrightarrow>
    serving llbuf_num bufs (worker_bye s)"

section \<open>What the client gets\<close>

fun pending :: "worker \<Rightarrow> u8 list" where
  "pending (Sending elems) = concat elems"
| "pending _ = []"

lemma next_element_alive [simp]: "next_element elems \<noteq> Exited"
  by (induction elems) auto

lemma pending_next: "pending (next_element elems) = concat elems"
  by (induction elems) auto

text \<open>The buffers kept: those not dropped from the head of the list. While the worker lives, what it
  has sent, what it holds and what is in the list are these buffers.\<close>

definition served :: "int \<Rightarrow> u8 list list \<Rightarrow> rtl_tcp \<Rightarrow> bool" where
  "served llbuf_num bufs s \<longleftrightarrow>
     (0 < llbuf_num \<longrightarrow> int (length (ll_buffers s)) \<le> llbuf_num + 3) \<and>
     (tcp_worker_at s = Exited \<longrightarrow> do_exit s) \<and>
     (\<exists>kept. subseq kept bufs \<and> prefix (stream s) (concat kept) \<and>
       (tcp_worker_at s \<noteq> Exited \<longrightarrow>
          (\<exists>old. kept = old @ ll_buffers s \<and> concat old = stream s @ pending (tcp_worker_at s))) \<and>
       (llbuf_num = 0 \<and> \<not> do_exit s \<longrightarrow> kept = bufs))"

lemma subseq_prefix_snoc: "subseq xs ys \<Longrightarrow> subseq xs (ys @ [y])"
  by (rule subseq_order.order_trans) auto

lemma served_alive:
  assumes "subseq (old @ ll_buffers s) bufs" and "concat old = stream s @ pending (tcp_worker_at s)"
    and "tcp_worker_at s \<noteq> Exited" and "0 < n \<Longrightarrow> int (length (ll_buffers s)) \<le> n + 3"
    and "n = 0 \<Longrightarrow> \<not> do_exit s \<Longrightarrow> old @ ll_buffers s = bufs"
  shows "served n bufs s"
  unfolding served_def using assms by (intro conjI impI exI [of _ "old @ ll_buffers s"] exI [of _ old]) auto

lemma served_init: "served n [] new_client"
  by (auto simp: served_def new_client_def)

lemma served_callback:
  assumes "served n bufs s" and "rtlsdr_callback n buf s = Some s'" and "0 \<le> n"
  shows "served n (bufs @ [buf]) s'"
proof (cases "do_exit s")
  case True
  with assms show ?thesis by (auto simp: served_def rtlsdr_callback_def intro: subseq_prefix_snoc)
next
  case False
  then have alive: "tcp_worker_at s \<noteq> Exited" using assms(1) by (auto simp: served_def)
  obtain old where old: "subseq (old @ ll_buffers s) bufs" "concat old = stream s @ pending (tcp_worker_at s)"
    "n = 0 \<Longrightarrow> old @ ll_buffers s = bufs" "0 < n \<Longrightarrow> int (length (ll_buffers s)) \<le> n + 3"
    using assms(1) False alive by (auto simp: served_def)
  have same: "stream s' = stream s \<and> tcp_worker_at s' = tcp_worker_at s \<and> do_exit s' = do_exit s"
    using assms(2) False by (auto simp: rtlsdr_callback_def Let_def split: if_splits)
  define drops where "drops \<longleftrightarrow> n \<noteq> 0 \<and> n = int (length (ll_buffers s)) - 3"
  have q: "ll_buffers s' = (if drops then tl (ll_buffers s) else ll_buffers s) @ [buf]"
    using assms(2,3) False by (auto simp: rtlsdr_callback_def drops_def Let_def split: if_splits)
  have "subseq (if drops then tl (ll_buffers s) else ll_buffers s) (ll_buffers s)"
    by (cases "ll_buffers s") auto
  then have "subseq (old @ ll_buffers s') ((old @ ll_buffers s) @ [buf])"
    unfolding q by (metis append.assoc list_emb_append_mono subseq_order.order_refl)
  then have "subseq (old @ ll_buffers s') (bufs @ [buf])"
    using old(1) by (meson list_emb_append_mono subseq_order.order_refl subseq_order.order_trans)
  moreover have "n = 0 \<Longrightarrow> old @ ll_buffers s' = bufs @ [buf]"
    using old(3) q by (auto simp: drops_def)
  moreover have "0 < n \<Longrightarrow> int (length (ll_buffers s')) \<le> n + 3"
    using old(4) q by (auto simp: drops_def)
  ultimately show ?thesis
    using old(2) same alive by (intro served_alive [of old]) auto
qed

lemma served_sent:
  assumes "served n bufs s" and "tcp_worker_at s = Sending (data # elems)" and "m \<le> length data"
  shows "served n bufs (worker_send m data elems s)"
proof -
  obtain old where old: "subseq (old @ ll_buffers s) bufs" "concat old = stream s @ data @ concat elems"
    "n = 0 \<and> \<not> do_exit s \<Longrightarrow> old @ ll_buffers s = bufs" "0 < n \<Longrightarrow> int (length (ll_buffers s)) \<le> n + 3"
    using assms(1,2) by (auto simp: served_def)
  have "concat old = (stream s @ take m data) @ drop m data @ concat elems" using old(2) by simp
  moreover have "prefix (stream s @ take m data) (concat (old @ ll_buffers s))"
    using calculation by (auto simp: prefix_def)
  ultimately show ?thesis
  proof (cases "do_exit s")
    case True
    with old \<open>prefix _ _\<close> show ?thesis
      by (auto simp: served_def worker_send_def worker_bye_def intro!: exI [of _ "old @ ll_buffers s"])
  next
    case False
    with old show ?thesis
      by (intro served_alive [of old]) (auto simp: worker_send_def pending_next simp del: next_element.simps)
  qed
qed

lemma served_bye: "served n bufs s \<Longrightarrow> served n bufs (worker_bye s)"
  by (auto simp: served_def worker_bye_def)

lemma served_take:
  assumes "served n bufs s" and "tcp_worker_at s = Waiting"
  shows "served n bufs (worker_take s)"
  using assms by (auto simp: served_def worker_take_def pending_next)

lemma serving_served: "serving n bufs s \<Longrightarrow> 0 \<le> n \<Longrightarrow> served n bufs s"
proof (induction rule: serving.induct)
  case (exit_flag bufs s)
  then show ?case by (auto simp: served_def)
next
  case (leave bufs s)
  then show ?case by (auto simp: served_def)
qed (auto intro: served_init served_callback served_sent served_bye served_take)

lemma callback_defined: "0 \<le> n \<Longrightarrow> rtlsdr_callback n buf s \<noteq> None"
  by (cases "ll_buffers s"; cases "tl (ll_buffers s)") (auto simp: rtlsdr_callback_def Let_def)

section \<open>Commands\<close>

definition set_gain_by_index :: "'h usb_ops \<Rightarrow> nat \<Rightarrow> ('h rtlsdr, int) prog" where
  "set_gain_by_index U index = do {
     (count, gains) \<leftarrow> rtlsdr_get_tuner_gains;
     if 0 < count \<and> int index < count then rtlsdr_set_tuner_gain U (gains ! index) else ret 0 }"

text \<open>The five bytes of a \<open>struct command\<close>; \<open>ntohl\<close> reads the last four with the highest first.\<close>

definition ntohl_param :: "u8 list \<Rightarrow> u32" where
  "ntohl_param cmd = word_of_nat (unat (cmd ! 1) * 2 ^ 24 + unat (cmd ! 2) * 2 ^ 16 + unat (cmd ! 3) * 2 ^ 8 + unat (cmd ! 4))"

text \<open>The dispatch; the parameter is an \<open>unsigned int\<close> and is converted to \<open>int\<close> for a signed one.\<close>

definition dispatch :: "'h usb_ops \<Rightarrow> u8 list \<Rightarrow> ('h rtlsdr, int) prog" where
  "dispatch U cmd =
     (let c = cmd ! 0; tmp = ntohl_param cmd; param = unat tmp; sparam = sint tmp in
      if c = 0x01 then rtlsdr_set_center_freq U param
      else if c = 0x02 then rtlsdr_set_sample_rate U param
      else if c = 0x03 then rtlsdr_set_tuner_gain_mode U (sparam \<noteq> 0)
      else if c = 0x04 then rtlsdr_set_tuner_gain U sparam
      else if c = 0x05 then rtlsdr_set_freq_correction U sparam
      else if c = 0x06 then rtlsdr_set_tuner_if_gain U (int (param div 2 ^ 16)) (sint (ucast tmp :: 16 word))
      else if c = 0x07 then rtlsdr_set_testmode U (sparam \<noteq> 0)
      else if c = 0x08 then rtlsdr_set_agc_mode U (sparam \<noteq> 0)
      else if c = 0x09 then rtlsdr_set_direct_sampling U sparam
      else if c = 0x0a then rtlsdr_set_offset_tuning U (sparam \<noteq> 0)
      else if c = 0x0b then rtlsdr_set_xtal_freq U param 0
      else if c = 0x0c then rtlsdr_set_xtal_freq U 0 param
      else if c = 0x0d then set_gain_by_index U param
      else if c = 0x0e then rtlsdr_set_bias_tee U (sparam \<noteq> 0)
      else ret 0)"

text \<open>
  \<open>command_worker\<close> on the bytes of the socket. Each number is the size of what \<open>recv\<close> has
  ready, of which it is asked for the bytes that the command still lacks; after 0 the loop asks again. The result is the
  unfinished command and the device.
\<close>

primrec command_worker :: "'h usb_ops \<Rightarrow> nat list \<Rightarrow> u8 list \<Rightarrow> u8 list \<Rightarrow> 'h rtlsdr \<Rightarrow> u8 list \<times> 'h rtlsdr" where
  "command_worker U [] socket cmd s = (cmd, s)"
| "command_worker U (n # ns) socket cmd s =
     (let left = 5 - length cmd; received = min n (min left (length socket));
          cmd = cmd @ take received socket
      in if length cmd < 5 then command_worker U ns (drop received socket) cmd s
         else command_worker U ns (drop received socket) [] (snd (run_state (dispatch U cmd) s)))"

section \<open>The stream of commands\<close>

text \<open>The commands of a stream do not depend on how it arrives.\<close>

function groups :: "u8 list \<Rightarrow> u8 list list" where
  "groups xs = (if length xs < 5 then [] else take 5 xs # groups (drop 5 xs))"
  by auto
termination by (relation "measure length") auto

declare groups.simps [simp del]

definition run_commands :: "'h usb_ops \<Rightarrow> u8 list list \<Rightarrow> 'h rtlsdr \<Rightarrow> 'h rtlsdr" where
  "run_commands U cmds s = fold (\<lambda>cmd s. snd (run_state (dispatch U cmd) s)) cmds s"

lemma groups_short: "length xs < 5 \<Longrightarrow> groups xs = []"
  by (simp add: groups.simps)

lemma groups_append: "length cmd = 5 \<Longrightarrow> groups (cmd @ xs) = cmd # groups xs"
  by (subst groups.simps) simp

lemma command_worker_groups:
  assumes "length cmd < 5"
  shows "\<exists>k. snd (command_worker U ns socket cmd s) = run_commands U (groups (cmd @ take k socket)) s"
  using assms
proof (induction ns arbitrary: socket cmd s)
  case Nil
  then show ?case by (intro exI [of _ 0]) (simp add: groups_short run_commands_def)
next
  case (Cons n ns)
  define r where "r = min n (min (5 - length cmd) (length socket))"
  define cmd' where "cmd' = cmd @ take r socket"
  have r: "r \<le> length socket" "length cmd' = length cmd + r" "length cmd' \<le> 5"
    using Cons.prems by (simp_all add: r_def cmd'_def)
  have join: "cmd' @ take k (drop r socket) = cmd @ take (r + k) socket" for k
    by (simp add: cmd'_def take_add)
  show ?case
  proof (cases "length cmd' < 5")
    case True
    then show ?thesis
      using Cons.IH [OF True, of "drop r socket" s] join r(2) by (auto simp: Let_def r_def [symmetric] cmd'_def [symmetric])
  next
    case False
    then have five: "length cmd' = 5" using r by simp
    obtain k where "snd (command_worker U ns (drop r socket) [] (snd (run_state (dispatch U cmd') s))) =
        run_commands U (groups (take k (drop r socket))) (snd (run_state (dispatch U cmd') s))"
      using Cons.IH [of "[]" "drop r socket"] by auto
    also have "\<dots> = run_commands U (groups (cmd @ take (r + k) socket)) s"
      unfolding join [symmetric] groups_append [OF five] by (simp add: run_commands_def)
    finally show ?thesis
      using False r(2) by (auto simp: Let_def r_def [symmetric] cmd'_def [symmetric])
  qed
qed

lemma groups_take: "set (groups (take k xs)) \<subseteq> set (groups xs)"
proof (induction xs arbitrary: k rule: groups.induct)
  case (1 xs)
  show ?case
  proof (cases "length (take k xs) < 5")
    case False
    then have "take 5 (take k xs) = take 5 xs" "drop 5 (take k xs) = take (k - 5) (drop 5 xs)" "\<not> length xs < 5"
      by (auto simp: drop_take min_def split: if_splits)
    then show ?thesis using 1 [of "k - 5"] False by (auto simp: groups.simps [of "take k xs"] groups.simps [of xs])
  qed (simp add: groups_short)
qed

section \<open>Commands that keep the invariant\<close>

definition command_ok :: "u8 list \<Rightarrow> bool" where
  "command_ok cmd \<longleftrightarrow>
     (let param = unat (ntohl_param cmd) in
      (cmd ! 0 = 0x05 \<longrightarrow> \<bar>sint (ntohl_param cmd)\<bar> \<le> 1000) \<and>
      (cmd ! 0 = 0x0b \<longrightarrow> param = 0 \<or> param = DEF_RTL_XTAL_FREQ) \<and>
      (cmd ! 0 = 0x0c \<longrightarrow> param = 0 \<or> 1000000 \<le> param \<and> param \<le> 32000000))"

lemma dispatch_keeps:
  assumes "command_ok cmd"
  shows "always (lib_inv True t) (dispatch U cmd)"
proof -
  have p: "unat (ntohl_param cmd) < 2 ^ 32" using unsigned_less [of "ntohl_param cmd"] by simp
  have gain: "always (lib_inv True t) (set_gain_by_index U index)" for index
    unfolding set_gain_by_index_def rtlsdr_get_tuner_gains_def by (intro always_rules lib_rules)
  have do: "always (lib_inv True t) (rtlsdr_do U c)" if "call_ok c" for c
    using lib_do [OF that] .
  show ?thesis
    unfolding dispatch_def Let_def
    using p assms do [of "SetTestmode _"] do [of "SetAgcMode _"]
    by (intro always_if always_ret lib_rules gain)
      (auto simp: command_ok_def Let_def rtlsdr_set_bias_tee_def intro: lib_rules)
qed

lemma run_commands_keeps:
  "list_all command_ok cmds \<Longrightarrow> lib_inv True t s \<Longrightarrow> lib_inv True t (run_commands U cmds s)"
proof (induction cmds arbitrary: s)
  case (Cons c cmds)
  then show ?case using dispatch_keeps [of c t U] by (simp add: run_commands_def always_def)
qed (simp add: run_commands_def)

section \<open>The server\<close>

text \<open>The settings \<open>main\<close> makes before it listens; their results are only reported.\<close>

definition server_setup :: "'h usb_ops \<Rightarrow> bool \<Rightarrow> int \<Rightarrow> nat \<Rightarrow> nat \<Rightarrow> int \<Rightarrow> bool \<Rightarrow> ('h rtlsdr, unit) prog" where
  "server_setup U direct_sampling ppm_error samp_rate frequency gain enable_biastee = do {
     _ \<leftarrow> (if direct_sampling then verbose_direct_sampling U 2 else ret 0);
     _ \<leftarrow> verbose_ppm_set U ppm_error;
     _ \<leftarrow> rtlsdr_set_sample_rate U samp_rate;
     _ \<leftarrow> rtlsdr_set_center_freq U frequency;
     _ \<leftarrow> (if gain = 0 then rtlsdr_set_tuner_gain_mode U False
          else do { _ \<leftarrow> rtlsdr_set_tuner_gain_mode U True; rtlsdr_set_tuner_gain U gain });
     _ \<leftarrow> rtlsdr_set_bias_tee U enable_biastee;
     _ \<leftarrow> rtlsdr_reset_buffer U;
     ret () }"

fun tuner_number :: "rtlsdr_tuner \<Rightarrow> nat" where
  "tuner_number RTLSDR_TUNER_UNKNOWN = 0"
| "tuner_number RTLSDR_TUNER_E4000 = 1"
| "tuner_number RTLSDR_TUNER_FC0012 = 2"
| "tuner_number RTLSDR_TUNER_FC0013 = 3"
| "tuner_number RTLSDR_TUNER_FC2580 = 4"
| "tuner_number RTLSDR_TUNER_R820T = 5"
| "tuner_number RTLSDR_TUNER_R828D = 6"

definition htonl :: "nat \<Rightarrow> u8 list" where
  "htonl n = map (\<lambda>k. word_of_nat (n div 256 ^ k)) [3, 2, 1, 0]"

text \<open>The twelve bytes a client gets first.\<close>

definition dongle_info :: "('h rtlsdr, u8 list) prog" where
  "dongle_info = do {
     type \<leftarrow> rtlsdr_get_tuner_type;
     (count, _) \<leftarrow> rtlsdr_get_tuner_gains;
     ret (map of_char ''RTL0'' @ htonl (tuner_number type) @ htonl (nat count)) }"

lemma setup_keeps:
  assumes "\<bar>ppm\<bar> \<le> 1000" and "frequency < 2 ^ 32"
  shows "always (lib_inv True t) (server_setup U ds ppm rate frequency gain bt)"
  unfolding server_setup_def verbose_direct_sampling_def verbose_ppm_set_def rtlsdr_set_bias_tee_def rtlsdr_reset_buffer_def
  using assms by (intro always_rules lib_rules)

section \<open>Properties\<close>

text \<open>C5: the client gets whole buffers in the order of their arrival. At every point of every
  interleaving of the callback, the worker, and the exit flag, what was sent is the beginning of the
  concatenation of a subsequence of the buffers delivered (of all of them when the list is not limited), no
  more than three buffers beyond the limit are kept, and the callback never writes to an element it
  has freed.\<close>

theorem tcp_stream:
  assumes "serving llbuf_num bufs s" and "0 \<le> llbuf_num"
  shows "(\<exists>kept. subseq kept bufs \<and> prefix (stream s) (concat kept) \<and> (llbuf_num = 0 \<and> \<not> do_exit s \<longrightarrow> kept = bufs)) \<and>
    (0 < llbuf_num \<longrightarrow> int (length (ll_buffers s)) \<le> llbuf_num + 3) \<and>
    (\<forall>buf. rtlsdr_callback llbuf_num buf s \<noteq> None)"
  using serving_served [OF assms] callback_defined [OF assms(2)] unfolding served_def by blast

lemma two_sent: "\<exists>s. serving 1 [[1, 2], [3]] s \<and> stream s = [1, 2]"
proof -
  let ?a = "new_client\<lparr>ll_buffers := [[1, 2]]\<rparr>" and ?b = "new_client\<lparr>ll_buffers := [[1, 2], [3]]\<rparr>"
  have "serving 1 [[1, 2]] ?a" using serving.callback [OF serving.start, of 1 "[1, 2]" ?a]
    by (simp add: rtlsdr_callback_def new_client_def)
  then have "serving 1 [[1, 2], [3]] ?b" using serving.callback [of 1 "[[1, 2]]" ?a "[3]" ?b]
    by (simp add: rtlsdr_callback_def new_client_def)
  from serving.sent [OF serving.signalled [OF this], of "[1, 2]" "[[3]]" 2] show ?thesis
    by (force simp: worker_take_def worker_send_def new_client_def)
qed

theorem tcp_stream_witness:
  "\<exists>s. serving 1 [[1, 2], [3]] s \<and> stream s = [1, 2] \<and> length (ll_buffers s) \<le> 4 \<and>
    (\<exists>kept. subseq kept [[1, 2], [3]] \<and> prefix (stream s) (concat kept))"
proof -
  obtain s where s: "serving 1 [[1, 2], [3]] s" "stream s = [1, 2]" using two_sent by blast
  from tcp_stream [OF s(1)] have "length (ll_buffers s) \<le> 4"
    "\<exists>kept. subseq kept [[1, 2], [3]] \<and> prefix (stream s) (concat kept)" by auto
  with s show ?thesis by blast
qed


lemma groups_ten: "groups [a, b, c, d, e, f, g, h, i, j] = [[a, b, c, d, e], [f, g, h, i, j]]"
  by (simp add: groups.simps)


text \<open>C36: two commands are enough to make the server divide by zero, whatever the state of the device:
  the RTL2832 crystal 28800128 Hz, then the sampling rate 225001.\<close>

theorem tcp_commands_fault:
  "d_fault (snd (command_worker U [5, 5] [0x0b, 0x01, 0xB7, 0x74, 0x80, 0x02, 0x00, 0x03, 0x6E, 0xE9] [] s))"
proof -
  let ?x = "[0x0b, 0x01, 0xB7, 0x74, 0x80] :: u8 list" and ?r = "[0x02, 0x00, 0x03, 0x6E, 0xE9] :: u8 list"
  have d: "dispatch U ?x = rtlsdr_set_xtal_freq U 28800128 0" "dispatch U ?r = rtlsdr_set_sample_rate U 225001"
    by (simp_all add: dispatch_def ntohl_param_def Let_def)
  let ?s = "snd (run_state (rtlsdr_set_xtal_freq U 28800128 0) s)"
  have "d_rtl_xtal ?s = 28800128" by (rule xtal_freq_sets) simp_all
  then have "d_fault (snd (run_state (rtlsdr_set_sample_rate U 225001) ?s))"
    using sample_rate_edges by (intro sample_rate_faults) simp_all
  then show ?thesis using d by simp
qed

end
