(* ===== verification/Hpsdr_Frames.thy ===== *)
theory Hpsdr_Frames
  imports Prelude
begin

unbundle bit_operations_syntax

text \<open>
  The frames of the HPSDR server (src/src/rtl_hpsdr.c): the control packets of the client
  (\<open>process_ep2\<close>), the samples of several receivers in one frame (\<open>load_packet\<close>) and the
  hand-over between the receiver threads and the thread that sends (\<open>handler_ep6\<close>), a step relation. The
  invariant \<open>hpsdr_ok\<close> holds after every packet.
\<close>

section \<open>Frames\<close>

text \<open>For one to eight receivers: the samples of each receiver in a frame, and where the data of its two halves end.\<close>

definition nsamps_packet :: "nat list" where
  "nsamps_packet = [126, 72, 50, 38, 30, 26, 22, 20]"

definition frame_offset1 :: "nat list" where
  "frame_offset1 = [520, 520, 516, 510, 496, 510, 500, 516]"

definition frame_offset2 :: "nat list" where
  "frame_offset2 = [1032, 1032, 1028, 1022, 1008, 1022, 1012, 1028]"

abbreviation (input) HPSDR_FRAME_LEN :: nat where "HPSDR_FRAME_LEN \<equiv> 1032"
abbreviation (input) MAX_RCVRS :: nat where "MAX_RCVRS \<equiv> 7"

definition format_payload :: "u8 list" where
  "format_payload =
     (let hpsdr_header = [0xEF, 0xFE, 1, 6, 0, 0, 0, 0]; proto_header = [0x7f, 0x7f, 0x7f, 0, 0x1e, 0, 0, 32] in
      store_at 520 proto_header (store_at 8 proto_header (store_at 0 hpsdr_header (replicate HPSDR_FRAME_LEN 0))))"

text \<open>The state of the server that the packets of the client change: \<open>mcb\<close> and the static variables beside it.\<close>

record hpsdr =
  total_num_rcvrs :: nat
  active_num_rcvrs :: nat
  rcvrs_mask :: nat
  packet_samples :: nat
  offset1 :: nat
  offset2 :: nat
  output_rate :: nat
  num_copy_rcvrs :: nat
  copy_rcvr :: "int list"
  last_num_rcvrs :: u8
  last_rate :: u8
  last_freq :: "int list"
  new_freq :: "int list"
  rcvr_mask :: "nat list"
  cal_rcvr_mask :: nat

text \<open>What \<open>main\<close> starts with once the number of receivers is known.\<close>

definition hpsdr_init :: "nat \<Rightarrow> hpsdr" where
  "hpsdr_init n =
     \<lparr>total_num_rcvrs = n, active_num_rcvrs = 1, rcvrs_mask = 1, packet_samples = nsamps_packet ! 0,
      offset1 = frame_offset1 ! 0, offset2 = frame_offset2 ! 0, output_rate = 48000, num_copy_rcvrs = 0,
      copy_rcvr = replicate MAX_RCVRS (- 1), last_num_rcvrs = 0, last_rate = 0, last_freq = replicate MAX_RCVRS 0,
      new_freq = replicate MAX_RCVRS 0, rcvr_mask = (replicate MAX_RCVRS 0)[0 := 1], cal_rcvr_mask = 0\<rparr>"

section \<open>Samples into the frame\<close>

text \<open>The bytes of one sample at \<open>b\<close>: of a file the upper three of four bytes from the lowest up, of a dongle the two
  of a \<open>short\<close> from the highest down, the third byte stays. The samples are given as integers, after
  the conversion from \<open>float\<close>.\<close>

definition put_sample :: "bool \<Rightarrow> nat \<Rightarrow> int \<Rightarrow> int \<Rightarrow> u8 list \<Rightarrow> u8 list" where
  "put_sample using_IQfiles b x y payload =
     (if using_IQfiles
      then payload[b := word_of_int (drop_bit 8 x), b + 1 := word_of_int (drop_bit 16 x), b + 2 := word_of_int (drop_bit 24 x),
             b + 3 := word_of_int (drop_bit 8 y), b + 4 := word_of_int (drop_bit 16 y), b + 5 := word_of_int (drop_bit 24 y)]
      else payload[b := word_of_int (drop_bit 8 x), b + 1 := word_of_int x,
             b + 3 := word_of_int (drop_bit 8 y), b + 4 := word_of_int y])"

text \<open>One row: the slots of all receivers. The state of the loops is \<open>(b, i, payload)\<close>; \<open>None\<close> is an access outside the frame or
  the samples.\<close>

fun load_row :: "(nat \<Rightarrow> bool) \<Rightarrow> (nat \<Rightarrow> bool) \<Rightarrow> bool \<Rightarrow> int list \<Rightarrow> nat list \<Rightarrow> nat \<times> nat \<times> u8 list \<Rightarrow> (nat \<times> nat \<times> u8 list) option" where
  "load_row mine advance files out_buf [] st = Some st"
| "load_row mine advance files out_buf (j # js) (b, i, payload) =
     (if mine j
      then if length out_buf < i + 2 \<or> length payload < b + 6 then None
           else load_row mine advance files out_buf js
                  (b + 6, if advance j then i + 2 else i, put_sample files b (out_buf ! i) (out_buf ! (i + 1)) payload)
      else load_row mine advance files out_buf js (b + 6, i, payload))"

lemma load_row_advances: "load_row mine advance files out_buf js (b, i, payload) = Some (b', st) \<Longrightarrow> b' = b + 6 * length js"
  by (induction mine advance files out_buf js "(b, i, payload)" arbitrary: b i payload rule: load_row.induct)
    (auto split: if_splits)

function load_rows :: "(nat \<Rightarrow> bool) \<Rightarrow> (nat \<Rightarrow> bool) \<Rightarrow> bool \<Rightarrow> int list \<Rightarrow> nat \<Rightarrow> nat \<Rightarrow> nat \<times> nat \<times> u8 list \<Rightarrow> (nat \<times> u8 list) option" where
  "load_rows mine advance files out_buf n offsetx (b, i, payload) =
     (if b < offsetx
      then case load_row mine advance files out_buf [0..<n] (b, i, payload) of None \<Rightarrow> None
           | Some (b', i', payload') \<Rightarrow> load_rows mine advance files out_buf n offsetx (b' + 2, i', payload')
      else Some (i, payload))"
  by pat_completeness auto
termination by (relation "measure (\<lambda>(mine, advance, files, out_buf, n, offsetx, b, i, payload). offsetx - b)")
    (auto dest: load_row_advances)

declare load_rows.simps [simp del]

text \<open>\<open>out_buf\<close> are the samples from \<open>iqSample_offset\<close> on.\<close>

definition load_packet :: "hpsdr \<Rightarrow> bool \<Rightarrow> nat \<Rightarrow> int list \<Rightarrow> u8 list \<Rightarrow> u8 list option" where
  "load_packet h files rcvr_num out_buf payload =
     (let copy_total = (active_num_rcvrs h - 1) + num_copy_rcvrs h;
          do_copy = (num_copy_rcvrs h > 0 \<and> rcvr_num = active_num_rcvrs h - 1);
          off1 = (if num_copy_rcvrs h > 0 then frame_offset1 ! copy_total else offset1 h);
          off2 = (if num_copy_rcvrs h > 0 then frame_offset2 ! copy_total else offset2 h);
          mine = (\<lambda>j. j = rcvr_num \<or> do_copy \<and> copy_rcvr h ! j = int j);
          advance = (\<lambda>j. if do_copy then j = copy_total else True);
          n = active_num_rcvrs h + num_copy_rcvrs h
      in case load_rows mine advance files out_buf n off1 (16, 0, payload) of None \<Rightarrow> None
         | Some (i, payload) \<Rightarrow>
           map_option snd (load_rows mine advance files out_buf n (if i = 0 then off1 else off2) (528, i, payload)))"

section \<open>Control packets\<close>

definition be32 :: "u8 list \<Rightarrow> nat \<Rightarrow> int" where
  "be32 buffer k = to_int32 (uint (buffer ! k) * 2 ^ 24 + uint (buffer ! (k + 1)) * 2 ^ 16 + uint (buffer ! (k + 2)) * 2 ^ 8 +
     uint (buffer ! (k + 3)))"

text \<open>A frequency in half \<open>c\<close> of the packet; \<open>C0\<close> is the address.\<close>

definition ep2_freq :: "u8 list \<Rightarrow> nat \<Rightarrow> hpsdr \<Rightarrow> hpsdr" where
  "ep2_freq buffer c h =
     (let C0 = uint ((if c = 0 then buffer ! 11 else buffer ! 523) AND 0xFE) in
      if C0 \<ge> 4 \<and> C0 \<le> 4 + (int (total_num_rcvrs h) - 1) * 2
      then let j = nat ((C0 - 4) div 2); freq = be32 buffer (12 + (if c = 0 then 0 else 512)) in
        if last_freq h ! j \<noteq> freq \<and> freq \<noteq> 0
        then h\<lparr>new_freq := (if j < total_num_rcvrs h then (new_freq h)[j := freq] else new_freq h),
               last_freq := (last_freq h)[j := freq]\<rparr>
        else h
      else h)"

definition ep2_rate :: "u8 \<Rightarrow> hpsdr \<Rightarrow> hpsdr" where
  "ep2_rate C1 h =
     (if last_rate h \<noteq> C1 AND 3
      then h\<lparr>last_rate := C1 AND 3,
             output_rate := (if C1 AND 3 = 3 then 384000 else if C1 AND 3 = 2 then 192000
                             else if C1 AND 3 = 1 then 96000 else 48000)\<rparr>
      else h)"

text \<open>\<open>None\<close>: more than seven receivers, the program exits.\<close>

definition ep2_rcvrs :: "u8 \<Rightarrow> hpsdr \<Rightarrow> hpsdr option" where
  "ep2_rcvrs C4 h =
     (if last_num_rcvrs h \<noteq> C4 AND 0x38
      then let num_rcvrs = unat (drop_bit 3 (C4 AND 0x38)) + 1 in
        if num_rcvrs > MAX_RCVRS then None
        else let copies = (if num_rcvrs \<le> total_num_rcvrs h then 0 else num_rcvrs - total_num_rcvrs h);
                 active = (if num_rcvrs \<le> total_num_rcvrs h then num_rcvrs else total_num_rcvrs h);
                 masks = fold (\<lambda>i ms. ms[i := 0]) [1..<total_num_rcvrs h] (rcvr_mask h);
                 (mask, masks) = fold (\<lambda>i (m, ms). (m OR push_bit i 1, ms[i := push_bit i 1])) [1..<active] (1, masks)
             in Some (h\<lparr>last_num_rcvrs := C4 AND 0x38, num_copy_rcvrs := copies, active_num_rcvrs := active,
                  packet_samples := nsamps_packet ! (active - 1), offset1 := frame_offset1 ! (active - 1),
                  offset2 := frame_offset2 ! (active - 1), rcvrs_mask := mask, rcvr_mask := masks, cal_rcvr_mask := mask,
                  copy_rcvr := (if copies > 0 then fold (\<lambda>i cs. cs[i := int i]) [active..<num_rcvrs] (copy_rcvr h) else copy_rcvr h)\<rparr>)
      else Some h)"

definition ep2_half :: "u8 list \<Rightarrow> nat \<Rightarrow> hpsdr \<Rightarrow> hpsdr option" where
  "ep2_half buffer c h =
     (let h = ep2_freq buffer c h; C0_1 = buffer ! 11 AND 0xFE; C0_2 = buffer ! 523 AND 0xFE in
      if C0_1 = 0 \<or> C0_2 = 0
      then let offset = (if C0_1 = 0 then 0 else 512) in ep2_rcvrs (buffer ! (15 + offset)) (ep2_rate (buffer ! (12 + offset)) h)
      else Some h)"

definition process_ep2 :: "u8 list \<Rightarrow> hpsdr \<Rightarrow> hpsdr option" where
  "process_ep2 buffer h = Option.bind (ep2_half buffer 0 h) (ep2_half buffer 1)"

section \<open>What a frame holds after a load\<close>

text \<open>The writes of a load: positions, each with the index of its sample.\<close>

definition apply_writes :: "bool \<Rightarrow> int list \<Rightarrow> (nat \<times> nat) list \<Rightarrow> u8 list \<Rightarrow> u8 list" where
  "apply_writes files out_buf ws payload =
     fold (\<lambda>(b, i) p. put_sample files b (out_buf ! i) (out_buf ! (i + 1)) p) ws payload"

lemma length_put_sample [simp]: "length (put_sample files b x y p) = length p"
  by (simp add: put_sample_def)

lemma apply_writes_append [simp]:
  "apply_writes files out_buf (ws @ vs) p = apply_writes files out_buf vs (apply_writes files out_buf ws p)"
  by (simp add: apply_writes_def)

lemma apply_writes_Nil [simp]: "apply_writes files out_buf [] p = p"
  by (simp add: apply_writes_def)

lemma apply_writes_single:
  "apply_writes files out_buf [(b, i)] p = put_sample files b (out_buf ! i) (out_buf ! (i + 1)) p"
  by (simp add: apply_writes_def)

lemma length_apply_writes [simp]: "length (apply_writes files out_buf ws p) = length p"
  by (induction ws arbitrary: p) (auto simp: apply_writes_def)

definition row_writes :: "(nat \<Rightarrow> bool) \<Rightarrow> nat list \<Rightarrow> nat \<Rightarrow> nat \<Rightarrow> (nat \<times> nat) list" where
  "row_writes mine js b i = map (\<lambda>j. (b + 6 * j, i)) (filter mine js)"

definition rows_writes :: "(nat \<Rightarrow> bool) \<Rightarrow> nat \<Rightarrow> nat \<Rightarrow> nat \<Rightarrow> nat \<Rightarrow> (nat \<times> nat) list" where
  "rows_writes mine n b i rows = concat (map (\<lambda>t. row_writes mine [0..<n] (b + t * (6 * n + 2)) (i + 2 * t)) [0..<rows])"

text \<open>The index moves on after the last slot of a row that is written.\<close>

definition moves_at :: "(nat \<Rightarrow> bool) \<Rightarrow> (nat \<Rightarrow> bool) \<Rightarrow> nat \<Rightarrow> nat \<Rightarrow> bool" where
  "moves_at mine advance n k \<longleftrightarrow> k < n \<and> mine k \<and> (\<forall>j < n. mine j \<longrightarrow> j \<le> k \<and> (advance j \<longleftrightarrow> j = k))"

lemma load_row_writes:
  assumes m: "moves_at mine advance n k" and out: "i + 2 \<le> length out_buf"
  shows "l \<le> n \<Longrightarrow> b + 6 * n \<le> length p \<Longrightarrow> c = b + 6 * l \<Longrightarrow>
    load_row mine advance files out_buf [l..<n] (c, if l \<le> k then i else i + 2, p) =
      Some (b + 6 * n, i + 2, apply_writes files out_buf (row_writes mine [l..<n] b i) p)"
proof (induction "n - l" arbitrary: l p c)
  case 0
  then show ?case using m by (auto simp: row_writes_def moves_at_def)
next
  case (Suc d)
  then have l: "l < n" "[l..<n] = l # [Suc l..<n]" by (simp_all add: upt_conv_Cons)
  show ?case
  proof (cases "mine l")
    case True
    then have "l \<le> k" "advance l \<longleftrightarrow> l = k" using m l(1) by (auto simp: moves_at_def)
    moreover have "b + 6 * l + 6 \<le> length p" using Suc.prems(2) l(1) by simp
    ultimately show ?thesis
      using Suc.hyps(1) [of "Suc l" "put_sample files c (out_buf ! i) (out_buf ! (i + 1)) p" "c + 6"] Suc.hyps(2) Suc.prems True out l
      by (auto simp: row_writes_def apply_writes_def Suc_le_eq)
  next
    case False
    then have "l \<noteq> k" using m by (auto simp: moves_at_def)
    then show ?thesis using Suc.hyps(1) [of "Suc l" p "c + 6"] Suc.hyps(2) Suc.prems False l
      by (auto simp: row_writes_def Suc_le_eq)
  qed
qed

lemma load_rows_writes:
  assumes m: "moves_at mine advance n k"
  shows "i + 2 * rows \<le> length out_buf \<Longrightarrow> b + rows * (6 * n + 2) \<le> length p + 2 \<Longrightarrow>
    load_rows mine advance files out_buf n (b + rows * (6 * n + 2)) (b, i, p) =
      Some (i + 2 * rows, apply_writes files out_buf (rows_writes mine n b i rows) p)"
proof (induction rows arbitrary: b i p)
  case 0
  then show ?case by (simp add: load_rows.simps rows_writes_def)
next
  case (Suc rows)
  let ?p = "apply_writes files out_buf (row_writes mine [0..<n] b i) p"
  have row: "load_row mine advance files out_buf [0..<n] (b, i, p) = Some (b + 6 * n, i + 2, ?p)"
    using load_row_writes [OF m, of i out_buf 0 b p b files] Suc.prems by simp
  have ws: "rows_writes mine n b i (Suc rows) = row_writes mine [0..<n] b i @ rows_writes mine n (b + (6 * n + 2)) (i + 2) rows"
    unfolding rows_writes_def upt_conv_Cons [OF zero_less_Suc] map_Suc_upt [symmetric]
    by (simp add: comp_def algebra_simps)
  have "load_rows mine advance files out_buf n (b + (6 * n + 2) + rows * (6 * n + 2)) (b + (6 * n + 2), i + 2, ?p) =
      Some (i + 2 + 2 * rows, apply_writes files out_buf (rows_writes mine n (b + (6 * n + 2)) (i + 2) rows) ?p)"
    using Suc.prems by (intro Suc.IH) simp_all
  then show ?case using row ws by (subst load_rows.simps) (simp add: algebra_simps)
qed

text \<open>Reading a sample of a dongle back from its slot, and writes that do not touch each other.\<close>

definition slot_value :: "u8 list \<Rightarrow> nat \<Rightarrow> int \<times> int" where
  "slot_value p b = (signed_take_bit 15 (uint (p ! b) * 256 + uint (p ! (b + 1))),
     signed_take_bit 15 (uint (p ! (b + 3)) * 256 + uint (p ! (b + 4))))"

definition separate :: "(nat \<times> nat) list \<Rightarrow> bool" where
  "separate ws \<longleftrightarrow> (\<forall>(b, i) \<in> set ws. \<forall>(c, j) \<in> set ws. (b = c \<and> i = j) \<or> b + 6 \<le> c \<or> c + 6 \<le> b)"

lemma short_bytes:
  assumes "- 32768 \<le> x" and "x \<le> 32767"
  shows "signed_take_bit 15 (uint (word_of_int (drop_bit 8 x) :: u8) * 256 + uint (word_of_int x :: u8)) = x"
proof -
  have e: "uint (word_of_int (drop_bit 8 x) :: u8) * 256 + uint (word_of_int x :: u8) = x mod 65536"
    using zmod_zmult2_eq [of 256 x 256] by (simp add: uint_word_of_int drop_bit_eq_div)
  have "signed_take_bit 15 (take_bit 16 x) = signed_take_bit 15 x" by (simp add: signed_take_bit_take_bit)
  then show ?thesis unfolding e using assms
    by (simp add: take_bit_eq_mod signed_take_bit_int_eq_self)
qed

lemma slot_written:
  assumes "b + 6 \<le> length p" and "\<bar>x\<bar> \<le> 32767" and "\<bar>y\<bar> \<le> 32767"
  shows "slot_value (put_sample False b x y p) b = (x, y)"
  using assms short_bytes [of x] short_bytes [of y] by (simp add: slot_value_def put_sample_def)

lemma put_sample_other: "q < b \<or> b + 6 \<le> q \<Longrightarrow> put_sample files b x y p ! q = p ! q"
  by (auto simp: put_sample_def)

lemma slot_other: "b + 6 \<le> c \<or> c + 6 \<le> b \<Longrightarrow> slot_value (put_sample files c x y p) b = slot_value p b"
  by (auto simp: slot_value_def put_sample_other)

lemma apply_writes_other:
  "list_all (\<lambda>(b, i). q < b \<or> b + 6 \<le> q) ws \<Longrightarrow> apply_writes files out_buf ws p ! q = p ! q"
  by (induction ws arbitrary: p) (auto simp: apply_writes_def put_sample_other)

lemma apply_writes_slot_other:
  "list_all (\<lambda>(c, i). b + 6 \<le> c \<or> c + 6 \<le> b) ws \<Longrightarrow> slot_value (apply_writes files out_buf ws p) b = slot_value p b"
  by (induction ws arbitrary: p) (auto simp: apply_writes_def slot_other)

lemma apply_writes_slot:
  assumes out: "\<And>i. i < length out_buf \<Longrightarrow> \<bar>out_buf ! i\<bar> \<le> 32767"
  shows "separate ws \<Longrightarrow> list_all (\<lambda>(b, i). b + 6 \<le> length p \<and> i + 2 \<le> length out_buf) ws \<Longrightarrow> (b, i) \<in> set ws \<Longrightarrow>
    slot_value (apply_writes False out_buf ws p) b = (out_buf ! i, out_buf ! (i + 1))"
proof (induction ws rule: rev_induct)
  case (snoc w ws)
  obtain c j where w: "w = (c, j)" by fastforce
  show ?case
  proof (cases "b = c \<and> i = j")
    case True
    then show ?thesis using snoc.prems(2) w out by (simp add: apply_writes_single slot_written)
  next
    case False
    then have "(b, i) \<in> set ws" "b + 6 \<le> c \<or> c + 6 \<le> b" using snoc.prems w by (auto simp: separate_def)
    moreover have "separate ws" using snoc.prems(1) by (auto simp: separate_def)
    ultimately show ?thesis using snoc.IH snoc.prems(2) w by (simp add: apply_writes_single slot_other)
  qed
qed simp

section \<open>The frame tables and the slots\<close>

definition frame_rows :: "nat \<Rightarrow> nat" where
  "frame_rows n = nsamps_packet ! (n - 1) div 2"

text \<open>Where sample \<open>s\<close> of receiver \<open>j\<close> is in a frame of \<open>n\<close> receivers.\<close>

definition slot :: "nat \<Rightarrow> nat \<Rightarrow> nat \<Rightarrow> nat" where
  "slot n s j = (if s < frame_rows n then 16 + s * (6 * n + 2) else 528 + (s - frame_rows n) * (6 * n + 2)) + 6 * j"

lemma frame_tables:
  assumes "1 \<le> n" and "n \<le> 8"
  shows "nsamps_packet ! (n - 1) = 2 * frame_rows n" "0 < frame_rows n"
    "frame_offset1 ! (n - 1) = 16 + frame_rows n * (6 * n + 2)" "frame_offset2 ! (n - 1) = 528 + frame_rows n * (6 * n + 2)"
    "frame_offset1 ! (n - 1) \<le> 520" "frame_offset2 ! (n - 1) \<le> 1032"
proof -
  have "n \<in> {1, 2, 3, 4, 5, 6, 7, 8}" using assms by auto
  then show "nsamps_packet ! (n - 1) = 2 * frame_rows n" "0 < frame_rows n"
    "frame_offset1 ! (n - 1) = 16 + frame_rows n * (6 * n + 2)" "frame_offset2 ! (n - 1) = 528 + frame_rows n * (6 * n + 2)"
    "frame_offset1 ! (n - 1) \<le> 520" "frame_offset2 ! (n - 1) \<le> 1032"
    by (auto simp: frame_rows_def nsamps_packet_def frame_offset1_def frame_offset2_def)
qed

lemma nsamps_bounds: "1 \<le> n \<Longrightarrow> n \<le> 8 \<Longrightarrow> 0 < nsamps_packet ! (n - 1) \<and> nsamps_packet ! (n - 1) \<le> 126"
proof -
  assume "1 \<le> n" "n \<le> 8"
  then have "n \<in> {1, 2, 3, 4, 5, 6, 7, 8}" by auto
  then show ?thesis by (auto simp: nsamps_packet_def)
qed

lemma row_before: "s < t \<Longrightarrow> j < n \<Longrightarrow> s * (6 * n + 2) + 6 * j + 6 \<le> t * (6 * n + 2 :: nat)"
proof -
  assume s: "s < t" and j: "j < n"
  then have "(s + 1) * (6 * n + 2) \<le> t * (6 * n + 2)" by (intro mult_le_mono1) simp
  then show ?thesis using j by simp
qed

lemma slot_bounds:
  assumes n: "1 \<le> n" "n \<le> 8" and s: "s < 2 * frame_rows n" and j: "j < n"
  shows "16 \<le> slot n s j" "slot n s j + 6 \<le> 520 \<or> 528 \<le> slot n s j" "slot n s j + 6 \<le> 1032"
    "s < frame_rows n \<longleftrightarrow> slot n s j + 6 \<le> 520"
proof -
  define w r where "w = 6 * n + 2" and "r = frame_rows n"
  have bef: "\<And>t. t < r \<Longrightarrow> t * w + 6 * j + 6 \<le> r * w" using row_before j by (simp add: w_def r_def)
  have tab: "16 + r * w \<le> 520" "528 + r * w \<le> 1032" using frame_tables(3,4,5,6) [OF n] by (simp_all add: w_def r_def)
  have e: "slot n s j = (if s < r then 16 + s * w else 528 + (s - r) * w) + 6 * j" by (simp add: slot_def w_def r_def)
  have *: "(s < r \<and> 16 \<le> slot n s j \<and> slot n s j + 6 \<le> 520) \<or> (\<not> s < r \<and> 528 \<le> slot n s j \<and> slot n s j + 6 \<le> 1032)"
  proof (cases "s < r")
    case True
    then show ?thesis using bef [of s] tab(1) unfolding e by simp
  next
    case False
    then have "s - r < r" using s r_def by linarith
    then show ?thesis using bef [of "s - r"] tab(2) False unfolding e by simp
  qed
  then show "16 \<le> slot n s j" "slot n s j + 6 \<le> 520 \<or> 528 \<le> slot n s j" "slot n s j + 6 \<le> 1032"
    "s < frame_rows n \<longleftrightarrow> slot n s j + 6 \<le> 520" unfolding r_def by linarith+
qed

lemma slot_separate:
  assumes n: "1 \<le> n" "n \<le> 8" and s: "s < 2 * frame_rows n" "t < 2 * frame_rows n" and j: "j < n" "k < n"
  shows "(s = t \<and> j = k) \<or> slot n s j + 6 \<le> slot n t k \<or> slot n t k + 6 \<le> slot n s j"
proof (cases "s < frame_rows n \<longleftrightarrow> t < frame_rows n")
  case True
  define w r where "w = 6 * n + 2" and "r = frame_rows n"
  have e: "slot n s j = (if s < r then 16 + s * w else 528 + (s - r) * w) + 6 * j"
    "slot n t k = (if t < r then 16 + t * w else 528 + (t - r) * w) + 6 * k" by (simp_all add: slot_def w_def r_def)
  have before: "\<And>s t j. s < t \<Longrightarrow> j < n \<Longrightarrow> s * w + 6 * j + 6 \<le> t * w" using row_before by (simp add: w_def)
  consider "s = t" | "s < t" "s - r < t - r \<or> t < r" | "t < s" "t - r < s - r \<or> s < r" using True r_def by linarith
  then show ?thesis
  proof cases
    case 1
    then show ?thesis by (cases "j = k") (auto simp: slot_def)
  next
    case 2
    then show ?thesis using True before [of s t j] before [of "s - r" "t - r" j] j unfolding e r_def [symmetric] by auto
  next
    case 3
    then show ?thesis using True before [of t s k] before [of "t - r" "s - r" k] j unfolding e r_def [symmetric] by auto
  qed
next
  case False
  then show ?thesis using slot_bounds [OF n s(1) j(1)] slot_bounds [OF n s(2) j(2)] by auto
qed

section \<open>What the packets of the client keep\<close>

definition hpsdr_ok :: "hpsdr \<Rightarrow> bool" where
  "hpsdr_ok h \<longleftrightarrow>
     1 \<le> active_num_rcvrs h \<and> active_num_rcvrs h \<le> total_num_rcvrs h \<and> total_num_rcvrs h \<le> 7 \<and>
     active_num_rcvrs h + num_copy_rcvrs h \<le> 7 \<and> (num_copy_rcvrs h = 0 \<or> active_num_rcvrs h = total_num_rcvrs h) \<and>
     packet_samples h = nsamps_packet ! (active_num_rcvrs h - 1) \<and>
     offset1 h = frame_offset1 ! (active_num_rcvrs h - 1) \<and> offset2 h = frame_offset2 ! (active_num_rcvrs h - 1) \<and>
     rcvrs_mask h = mask (active_num_rcvrs h) \<and> length (rcvr_mask h) = 7 \<and>
     (\<forall>i < total_num_rcvrs h. rcvr_mask h ! i = (if i < active_num_rcvrs h then 2 ^ i else 0)) \<and>
     length (copy_rcvr h) = 7 \<and> (\<forall>j < 7. copy_rcvr h ! j = int j \<longrightarrow> total_num_rcvrs h \<le> j) \<and>
     (\<forall>j < active_num_rcvrs h + num_copy_rcvrs h. total_num_rcvrs h \<le> j \<longrightarrow> copy_rcvr h ! j = int j) \<and>
     length (last_freq h) = 7 \<and> length (new_freq h) = 7 \<and>
     unat (last_rate h) \<le> 3 \<and> output_rate h = 48000 * 2 ^ unat (last_rate h) \<and>
     unat (drop_bit 3 (last_num_rcvrs h)) + 1 = active_num_rcvrs h + num_copy_rcvrs h"

lemma hpsdr_init_ok: "1 \<le> n \<Longrightarrow> n \<le> 7 \<Longrightarrow> hpsdr_ok (hpsdr_init n)"
  by (auto simp: hpsdr_ok_def hpsdr_init_def nth_Cons split: nat.split)

section \<open>The load\<close>

definition all_writes :: "(nat \<Rightarrow> bool) \<Rightarrow> nat \<Rightarrow> (nat \<times> nat) list" where
  "all_writes mine n = rows_writes mine n 16 0 (frame_rows n) @ rows_writes mine n 528 (2 * frame_rows n) (frame_rows n)"

lemma set_rows_writes:
  "set (rows_writes mine n b i rows) = {(b + t * (6 * n + 2) + 6 * j, i + 2 * t) | t j. t < rows \<and> j < n \<and> mine j}"
  by (auto simp: rows_writes_def row_writes_def)

lemma set_all_writes:
  "set (all_writes mine n) = {(slot n s j, 2 * s) | s j. s < 2 * frame_rows n \<and> j < n \<and> mine j}"
proof (intro set_eqI iffI)
  fix w
  assume "w \<in> set (all_writes mine n)"
  then consider t j where "t < frame_rows n" "j < n" "mine j" "w = (16 + t * (6 * n + 2) + 6 * j, 2 * t)" |
      t j where "t < frame_rows n" "j < n" "mine j" "w = (528 + t * (6 * n + 2) + 6 * j, 2 * frame_rows n + 2 * t)"
    by (auto simp: all_writes_def set_rows_writes)
  then show "w \<in> {(slot n s j, 2 * s) | s j. s < 2 * frame_rows n \<and> j < n \<and> mine j}"
  proof cases
    case 1
    then show ?thesis by (auto simp: slot_def)
  next
    case 2
    then have "w = (slot n (frame_rows n + t) j, 2 * (frame_rows n + t))" "frame_rows n + t < 2 * frame_rows n" by (simp_all add: slot_def)
    then show ?thesis using 2(2,3) by blast
  qed
next
  fix w
  assume "w \<in> {(slot n s j, 2 * s) | s j. s < 2 * frame_rows n \<and> j < n \<and> mine j}"
  then obtain s j where s: "w = (slot n s j, 2 * s)" "s < 2 * frame_rows n" "j < n" "mine j" by blast
  show "w \<in> set (all_writes mine n)"
  proof (cases "s < frame_rows n")
    case True
    then have "w = (16 + s * (6 * n + 2) + 6 * j, 0 + 2 * s)" using s by (simp add: slot_def)
    then show ?thesis using s True unfolding all_writes_def set_append set_rows_writes by blast
  next
    case False
    then have "w = (528 + (s - frame_rows n) * (6 * n + 2) + 6 * j, 2 * frame_rows n + 2 * (s - frame_rows n))" "s - frame_rows n < frame_rows n"
      using s by (simp_all add: slot_def)
    then show ?thesis using s unfolding all_writes_def set_append set_rows_writes by blast
  qed
qed

lemma separate_all_writes: "1 \<le> n \<Longrightarrow> n \<le> 8 \<Longrightarrow> separate (all_writes mine n)"
  unfolding separate_def set_all_writes using slot_separate by (auto split: prod.splits) (metis Suc_leI)+

definition own_slot :: "hpsdr \<Rightarrow> nat \<Rightarrow> nat \<Rightarrow> bool" where
  "own_slot h r j \<longleftrightarrow> j = r \<or> r = active_num_rcvrs h - 1 \<and> total_num_rcvrs h \<le> j"

lemma moves_last: "1 \<le> n \<Longrightarrow> mine (n - 1) \<Longrightarrow> moves_at mine (\<lambda>j. j = n - 1) n (n - 1)"
  unfolding moves_at_def by auto

lemma load_two_halves:
  assumes n: "1 \<le> n" "n \<le> 8" and m: "moves_at mine advance n k" and out: "4 * frame_rows n \<le> length out_buf"
    and p: "length p = 1032"
  shows "load_rows mine advance files out_buf n (frame_offset1 ! (n - 1)) (16, 0, p) =
      Some (2 * frame_rows n, apply_writes files out_buf (rows_writes mine n 16 0 (frame_rows n)) p)"
    "load_rows mine advance files out_buf n (frame_offset2 ! (n - 1))
        (528, 2 * frame_rows n, apply_writes files out_buf (rows_writes mine n 16 0 (frame_rows n)) p) =
      Some (4 * frame_rows n, apply_writes files out_buf (all_writes mine n) p)"
proof -
  note t = frame_tables [OF n]
  show "load_rows mine advance files out_buf n (frame_offset1 ! (n - 1)) (16, 0, p) =
      Some (2 * frame_rows n, apply_writes files out_buf (rows_writes mine n 16 0 (frame_rows n)) p)"
    using load_rows_writes [OF m, of 0 "frame_rows n" out_buf 16 p files] out p t(5) unfolding t(3) by simp
  have "2 * frame_rows n + 2 * frame_rows n \<le> length out_buf" using out by simp
  moreover have "528 + frame_rows n * (6 * n + 2) \<le>
      length (apply_writes files out_buf (rows_writes mine n 16 0 (frame_rows n)) p) + 2"
    using p t(6) unfolding t(4) by simp
  ultimately have "load_rows mine advance files out_buf n (528 + frame_rows n * (6 * n + 2))
        (528, 2 * frame_rows n, apply_writes files out_buf (rows_writes mine n 16 0 (frame_rows n)) p) =
      Some (2 * frame_rows n + 2 * frame_rows n, apply_writes files out_buf (rows_writes mine n 528 (2 * frame_rows n) (frame_rows n))
        (apply_writes files out_buf (rows_writes mine n 16 0 (frame_rows n)) p))"
    by (rule load_rows_writes [OF m])
  moreover have "2 * frame_rows n + 2 * frame_rows n = 4 * frame_rows n" by simp
  ultimately show "load_rows mine advance files out_buf n (frame_offset2 ! (n - 1))
        (528, 2 * frame_rows n, apply_writes files out_buf (rows_writes mine n 16 0 (frame_rows n)) p) =
      Some (4 * frame_rows n, apply_writes files out_buf (all_writes mine n) p)"
    unfolding t(4) all_writes_def apply_writes_append by (simp only:)
qed

lemma load_packet_writes:
  assumes h: "hpsdr_ok h" and r: "r < active_num_rcvrs h" and p: "length p = 1032"
    and n: "n = active_num_rcvrs h + num_copy_rcvrs h" and out: "4 * frame_rows n \<le> length out_buf"
  obtains mine where "load_packet h files r out_buf p = Some (apply_writes files out_buf (all_writes mine n) p)"
    and "\<And>j. j < n \<Longrightarrow> mine j \<longleftrightarrow> own_slot h r j"
proof -
  let ?copy = "num_copy_rcvrs h > 0 \<and> r = active_num_rcvrs h - 1"
  let ?mine = "\<lambda>j. j = r \<or> ?copy \<and> copy_rcvr h ! j = int j"
  let ?advance = "\<lambda>j. if ?copy then j = active_num_rcvrs h - 1 + num_copy_rcvrs h else True"
  have n8: "1 \<le> n" "n \<le> 8" using h n by (auto simp: hpsdr_ok_def)
  have mine: "?mine j \<longleftrightarrow> own_slot h r j" if "j < n" for j
  proof (cases "total_num_rcvrs h \<le> j")
    case True
    then have "num_copy_rcvrs h > 0" "copy_rcvr h ! j = int j" using h n that by (auto simp: hpsdr_ok_def)
    then show ?thesis using True by (auto simp: own_slot_def)
  next
    case False
    then have "copy_rcvr h ! j \<noteq> int j" using h n that by (auto simp: hpsdr_ok_def)
    then show ?thesis using False by (auto simp: own_slot_def)
  qed
  have off: "(if num_copy_rcvrs h > 0 then frame_offset1 ! (active_num_rcvrs h - 1 + num_copy_rcvrs h) else offset1 h) = frame_offset1 ! (n - 1)"
    "(if num_copy_rcvrs h > 0 then frame_offset2 ! (active_num_rcvrs h - 1 + num_copy_rcvrs h) else offset2 h) = frame_offset2 ! (n - 1)"
    using h n by (auto simp: hpsdr_ok_def)
  have "moves_at ?mine ?advance n (if ?copy then n - 1 else r)"
  proof (cases ?copy)
    case True
    then have "own_slot h r (n - 1)" using h n by (auto simp: hpsdr_ok_def own_slot_def)
    then have last: "?mine (n - 1)" using mine [of "n - 1"] n8 by simp
    have last_index: "active_num_rcvrs h - 1 + num_copy_rcvrs h = n - 1" using n r by simp
    have "moves_at ?mine (\<lambda>j. j = n - 1) n (n - 1)" using n8(1) last by (rule moves_last)
    then show ?thesis using last_index unfolding if_P [OF True] by simp
  next
    case False
    then show ?thesis using n r by (auto simp: moves_at_def)
  qed
  note two = load_two_halves [OF n8 this out p, of files]
  have "load_packet h files r out_buf p = Some (apply_writes files out_buf (all_writes ?mine n) p)"
    using two frame_tables(2) [OF n8] unfolding load_packet_def Let_def off n [symmetric] by simp
  then show thesis using mine that by blast
qed

theorem load_packet_fills:
  assumes h: "hpsdr_ok h" and r: "r < active_num_rcvrs h" and p: "length p = 1032"
    and n: "n = active_num_rcvrs h + num_copy_rcvrs h" and len: "2 * (nsamps_packet ! (n - 1)) \<le> length out_buf"
    and out: "\<forall>x \<in> set out_buf. \<bar>x\<bar> \<le> 32767"
  shows "\<exists>p'. load_packet h False r out_buf p = Some p' \<and> length p' = 1032 \<and>
    (\<forall>j < n. \<forall>s < nsamps_packet ! (n - 1). slot_value p' (slot n s j) =
       (if own_slot h r j then (out_buf ! (2 * s), out_buf ! (2 * s + 1)) else slot_value p (slot n s j))) \<and>
    (\<forall>q. (\<forall>j < n. \<forall>s < nsamps_packet ! (n - 1). own_slot h r j \<longrightarrow> q < slot n s j \<or> slot n s j + 6 \<le> q) \<longrightarrow> p' ! q = p ! q)"
proof -
  have n8: "1 \<le> n" "n \<le> 8" using h n by (auto simp: hpsdr_ok_def)
  have rows: "nsamps_packet ! (n - 1) = 2 * frame_rows n" by (rule frame_tables [OF n8])
  obtain mine where load: "load_packet h False r out_buf p = Some (apply_writes False out_buf (all_writes mine n) p)"
    and mine: "\<And>j. j < n \<Longrightarrow> mine j \<longleftrightarrow> own_slot h r j"
    using load_packet_writes [OF h r p n, of out_buf False] len rows by auto
  let ?p = "apply_writes False out_buf (all_writes mine n) p"
  have own: "slot_value ?p (slot n s j) = (out_buf ! (2 * s), out_buf ! (2 * s + 1))"
    if "j < n" "s < 2 * frame_rows n" "own_slot h r j" for j s
  proof (rule apply_writes_slot)
    show "\<And>i. i < length out_buf \<Longrightarrow> \<bar>out_buf ! i\<bar> \<le> 32767" using out nth_mem by blast
    show "separate (all_writes mine n)" using separate_all_writes n8 .
    show "list_all (\<lambda>(b, i). b + 6 \<le> length p \<and> i + 2 \<le> length out_buf) (all_writes mine n)"
      using slot_bounds(3) [OF n8] len p rows by (auto simp: list_all_iff set_all_writes)
    show "(slot n s j, 2 * s) \<in> set (all_writes mine n)" using that mine unfolding set_all_writes by blast
  qed
  have other: "slot_value ?p (slot n s j) = slot_value p (slot n s j)"
    if "j < n" "s < 2 * frame_rows n" "\<not> own_slot h r j" for j s
  proof (rule apply_writes_slot_other)
    show "list_all (\<lambda>(c, i). slot n s j + 6 \<le> c \<or> c + 6 \<le> slot n s j) (all_writes mine n)"
      using slot_separate [OF n8] that mine by (fastforce simp: list_all_iff set_all_writes)
  qed
  have rest: "?p ! q = p ! q"
    if "\<forall>j < n. \<forall>s < 2 * frame_rows n. own_slot h r j \<longrightarrow> q < slot n s j \<or> slot n s j + 6 \<le> q" for q
    using that mine by (intro apply_writes_other) (auto simp: list_all_iff set_all_writes)
  show ?thesis unfolding rows using load own other rest p by auto
qed

section \<open>What the packets of the client keep\<close>

lemma fold_set_upt:
  "b \<le> length xs \<Longrightarrow> fold (\<lambda>i ms. ms[i := f i]) [a..<b] xs = map (\<lambda>i. if a \<le> i \<and> i < b then f i else xs ! i) [0..<length xs]"
proof (induction b)
  case (Suc b)
  then show ?case by (cases "a \<le> b") (auto intro!: nth_equalityI simp: nth_list_update)
qed (auto intro!: nth_equalityI)

lemma fold_mask_upt:
  "1 \<le> b \<Longrightarrow> b \<le> length xs \<Longrightarrow>
   fold (\<lambda>i (m, ms). (m OR push_bit i 1, ms[i := push_bit i 1])) [1..<b] (1 :: nat, xs) =
     (mask b, fold (\<lambda>i ms. ms[i := push_bit i 1]) [1..<b] xs)"
proof (induction b)
  case (Suc b)
  show ?case
  proof (cases "b = 0")
    case True
    then show ?thesis by (simp add: mask_eq_exp_minus_1)
  next
    case False
    then show ?thesis using Suc by (simp add: mask_Suc_exp or.commute)
  qed
qed simp

lemma ep2_freq_ok: "hpsdr_ok h \<Longrightarrow> hpsdr_ok (ep2_freq buffer c h)"
  by (auto simp: hpsdr_ok_def ep2_freq_def Let_def)

lemma and3: "unat (C AND 3 :: u8) \<le> 3" "C AND 3 = (0 :: u8) \<or> C AND 3 = 1 \<or> C AND 3 = 2 \<or> C AND 3 = 3"
proof -
  have "C AND 3 \<le> (3 :: u8)" by (simp add: word_and_le1)
  then show "unat (C AND 3 :: u8) \<le> 3" by (simp add: word_le_nat_alt)
  then have k: "unat (C AND 3 :: u8) \<in> {0, 1, 2, 3}" by auto
  have e: "C AND 3 = of_nat k" if "unat (C AND 3) = k" for k using that by auto
  show "C AND 3 = (0 :: u8) \<or> C AND 3 = 1 \<or> C AND 3 = 2 \<or> C AND 3 = 3"
    using k e [of 0] e [of 1] e [of 2] e [of 3] by auto
qed

lemma ep2_rate_ok: "hpsdr_ok h \<Longrightarrow> hpsdr_ok (ep2_rate C1 h)"
  using and3 [of C1] by (elim disjE conjE) (auto simp: hpsdr_ok_def ep2_rate_def)

text \<open>A request for \<open>num\<close> receivers, at most seven.\<close>

lemma ep2_rcvrs_ok:
  assumes h: "hpsdr_ok h" and e: "ep2_rcvrs C4 h = Some h'"
  shows "hpsdr_ok h'" "unat (drop_bit 3 (C4 AND 0x38)) + 1 = active_num_rcvrs h' + num_copy_rcvrs h'"
proof -
  let ?num = "unat (drop_bit 3 (C4 AND 0x38)) + 1"
  have "hpsdr_ok h' \<and> ?num = active_num_rcvrs h' + num_copy_rcvrs h'"
  proof (cases "last_num_rcvrs h \<noteq> C4 AND 0x38")
    case False
    then show ?thesis using h e by (auto simp: ep2_rcvrs_def hpsdr_ok_def)
  next
    case True
    let ?t = "total_num_rcvrs h"
    define active where "active = (if ?num \<le> ?t then ?num else ?t)"
    define copies where "copies = (if ?num \<le> ?t then 0 else ?num - ?t)"
    have num: "?num \<le> 7" using True e by (auto simp: ep2_rcvrs_def split: if_splits)
    have t: "1 \<le> ?t" "?t \<le> 7" "length (rcvr_mask h) = 7" "length (copy_rcvr h) = 7" using h by (auto simp: hpsdr_ok_def)
    have a: "1 \<le> active" "active \<le> ?t" "active + copies = ?num" "copies = 0 \<or> active = ?t"
      using t by (auto simp: active_def copies_def)
    define M0 where "M0 = map (\<lambda>i. if 1 \<le> i \<and> i < ?t then 0 else rcvr_mask h ! i) [0..<7]"
    define M1 where "M1 = map (\<lambda>i. if 1 \<le> i \<and> i < active then push_bit i 1 else M0 ! i) [0..<7]"
    define CS where "CS = map (\<lambda>i. if active \<le> i \<and> i < ?num then int i else copy_rcvr h ! i) [0..<7]"
    have m0: "fold (\<lambda>i ms. ms[i := 0]) [1..<?t] (rcvr_mask h) = M0" using t by (simp add: M0_def fold_set_upt)
    have len0: "length M0 = 7" by (simp add: M0_def)
    have m1: "fold (\<lambda>i (m, ms). (m OR push_bit i 1, ms[i := push_bit i 1])) [1..<active] (1 :: nat, M0) = (mask active, M1)"
      using a t len0 fold_set_upt [of active M0] fold_mask_upt [of active M0] unfolding M1_def by simp
    have cs: "fold (\<lambda>i cs. cs[i := int i]) [active..<?num] (copy_rcvr h) = CS" using t num unfolding CS_def by (subst fold_set_upt) simp_all
    have e': "h' = h\<lparr>last_num_rcvrs := C4 AND 0x38, num_copy_rcvrs := copies, active_num_rcvrs := active,
        packet_samples := nsamps_packet ! (active - 1), offset1 := frame_offset1 ! (active - 1),
        offset2 := frame_offset2 ! (active - 1), rcvrs_mask := mask active, rcvr_mask := M1, cal_rcvr_mask := mask active,
        copy_rcvr := (if copies > 0 then CS else copy_rcvr h)\<rparr>"
      using e True num unfolding ep2_rcvrs_def Let_def copies_def [symmetric] active_def [symmetric] m0 m1 cs by simp
    have M1: "length M1 = 7" "i < ?t \<Longrightarrow> M1 ! i = (if i < active then 2 ^ i else 0)" for i
      using t h a by (auto simp: M1_def M0_def push_bit_eq_mult hpsdr_ok_def)
    have CS: "length CS = 7" "j < 7 \<Longrightarrow> CS ! j = (if active \<le> j \<and> j < ?num then int j else copy_rcvr h ! j)" for j
      by (simp_all add: CS_def)
    show ?thesis using h a num t M1 CS unfolding e' hpsdr_ok_def by (cases "copies = 0") simp_all
  qed
  then show "hpsdr_ok h'" "?num = active_num_rcvrs h' + num_copy_rcvrs h'" by auto
qed

lemma ep2_half_ok: "hpsdr_ok h \<Longrightarrow> ep2_half buffer c h = Some h' \<Longrightarrow> hpsdr_ok h'"
  by (auto simp: ep2_half_def Let_def split: if_splits intro: ep2_rcvrs_ok(1) ep2_rate_ok ep2_freq_ok)

lemma process_ep2_ok: "hpsdr_ok h \<Longrightarrow> process_ep2 buffer h = Some h' \<Longrightarrow> hpsdr_ok h'"
  by (auto simp: process_ep2_def bind_eq_Some_conv intro: ep2_half_ok)

text \<open>Where the settings are in a packet, when it has any: of both halves the first one that is addressed with 0.\<close>

definition ep2_settings :: "u8 list \<Rightarrow> nat option" where
  "ep2_settings buffer = (if buffer ! 11 AND 0xFE = 0 then Some 0 else if buffer ! 523 AND 0xFE = 0 then Some 512 else None)"

lemma ep2_freq_same [simp]:
  "total_num_rcvrs (ep2_freq b c h) = total_num_rcvrs h" "active_num_rcvrs (ep2_freq b c h) = active_num_rcvrs h"
  "num_copy_rcvrs (ep2_freq b c h) = num_copy_rcvrs h" "output_rate (ep2_freq b c h) = output_rate h"
  "last_num_rcvrs (ep2_freq b c h) = last_num_rcvrs h" "last_rate (ep2_freq b c h) = last_rate h"
  by (simp_all add: ep2_freq_def Let_def)

lemma ep2_rate_same [simp]:
  "total_num_rcvrs (ep2_rate C1 h) = total_num_rcvrs h" "active_num_rcvrs (ep2_rate C1 h) = active_num_rcvrs h"
  "num_copy_rcvrs (ep2_rate C1 h) = num_copy_rcvrs h" "last_num_rcvrs (ep2_rate C1 h) = last_num_rcvrs h"
  "last_rate (ep2_rate C1 h) = C1 AND 3"
  by (simp_all add: ep2_rate_def)

lemma ep2_rcvrs_same:
  assumes "ep2_rcvrs C4 h = Some h'"
  shows "total_num_rcvrs h' = total_num_rcvrs h" "output_rate h' = output_rate h" "last_num_rcvrs h' = C4 AND 0x38"
    "last_rate h' = last_rate h"
  using assms by (auto simp: ep2_rcvrs_def Let_def split: if_splits prod.splits)

definition rcvrs_requested :: "u8 \<Rightarrow> nat" where
  "rcvrs_requested C4 = unat (drop_bit 3 (C4 AND 0x38)) + 1"

lemma rcvrs_requested_le: "rcvrs_requested C4 \<le> 8"
proof -
  have "drop_bit 3 C4 AND 7 \<le> (7 :: u8)" by (simp add: word_and_le1)
  then show ?thesis by (simp add: rcvrs_requested_def word_le_nat_alt)
qed

lemma ep2_rcvrs_None:
  assumes "hpsdr_ok h"
  shows "ep2_rcvrs C4 h = None \<longleftrightarrow> rcvrs_requested C4 = 8"
  using assms rcvrs_requested_le [of C4] unfolding rcvrs_requested_def ep2_rcvrs_def hpsdr_ok_def
  by (auto simp: Let_def split: prod.splits)

lemma ep2_rcvrs_result:
  assumes h: "hpsdr_ok h" and e: "ep2_rcvrs C4 h = Some h'"
  shows "active_num_rcvrs h' + num_copy_rcvrs h' = rcvrs_requested C4" "active_num_rcvrs h' = min (rcvrs_requested C4) (total_num_rcvrs h)"
proof -
  have r: "active_num_rcvrs h' + num_copy_rcvrs h' = rcvrs_requested C4" and ok: "hpsdr_ok h'"
    using ep2_rcvrs_ok [OF h e] by (simp_all add: rcvrs_requested_def)
  then show "active_num_rcvrs h' + num_copy_rcvrs h' = rcvrs_requested C4" by simp
  show "active_num_rcvrs h' = min (rcvrs_requested C4) (total_num_rcvrs h)"
    using r ok ep2_rcvrs_same(1) [OF e] unfolding hpsdr_ok_def by (auto simp: min_def)
qed

lemma ep2_half_settings:
  "ep2_half buffer c h = (case ep2_settings buffer of None \<Rightarrow> Some (ep2_freq buffer c h)
     | Some offset \<Rightarrow> ep2_rcvrs (buffer ! (15 + offset)) (ep2_rate (buffer ! (12 + offset)) (ep2_freq buffer c h)))"
  by (simp add: ep2_half_def ep2_settings_def Let_def)

lemma output_rate_ok: "hpsdr_ok h \<Longrightarrow> last_rate h = C \<Longrightarrow> output_rate h = 48000 * 2 ^ unat C"
  by (auto simp: hpsdr_ok_def)

lemma ep2_half_result:
  assumes h: "hpsdr_ok h" and s: "ep2_settings buffer = Some offset" and e: "ep2_half buffer c h = Some h'"
  shows "hpsdr_ok h'" "total_num_rcvrs h' = total_num_rcvrs h"
    "active_num_rcvrs h' + num_copy_rcvrs h' = rcvrs_requested (buffer ! (15 + offset))"
    "active_num_rcvrs h' = min (rcvrs_requested (buffer ! (15 + offset))) (total_num_rcvrs h)"
    "output_rate h' = 48000 * 2 ^ unat (buffer ! (12 + offset) AND 3)"
proof -
  let ?h = "ep2_rate (buffer ! (12 + offset)) (ep2_freq buffer c h)"
  have e: "ep2_rcvrs (buffer ! (15 + offset)) ?h = Some h'" using e s by (simp add: ep2_half_settings)
  have ok: "hpsdr_ok ?h" using h by (intro ep2_rate_ok ep2_freq_ok)
  show "hpsdr_ok h'" using ep2_rcvrs_ok(1) [OF ok e] .
  show "output_rate h' = 48000 * 2 ^ unat (buffer ! (12 + offset) AND 3)"
    using output_rate_ok [OF ok] ep2_rcvrs_same(2) [OF e] by simp
  show "total_num_rcvrs h' = total_num_rcvrs h" using ep2_rcvrs_same(1) [OF e] by simp
  show "active_num_rcvrs h' + num_copy_rcvrs h' = rcvrs_requested (buffer ! (15 + offset))"
    "active_num_rcvrs h' = min (rcvrs_requested (buffer ! (15 + offset))) (total_num_rcvrs h)"
    using ep2_rcvrs_result [OF ok e] by simp_all
qed

lemma ep2_half_None:
  "hpsdr_ok h \<Longrightarrow> ep2_half buffer c h = None \<longleftrightarrow>
     (\<exists>offset. ep2_settings buffer = Some offset \<and> rcvrs_requested (buffer ! (15 + offset)) = 8)"
  by (auto simp: ep2_half_settings ep2_rcvrs_None ep2_rate_ok ep2_freq_ok split: option.splits)

lemma process_ep2_None:
  assumes h: "hpsdr_ok h" and n: "process_ep2 b h = None"
  shows "\<exists>offset. ep2_settings b = Some offset \<and> rcvrs_requested (b ! (15 + offset)) = 8"
proof (cases "ep2_half b 0 h")
  case None
  then show ?thesis using ep2_half_None [OF h] by blast
next
  case (Some h1)
  then show ?thesis using n ep2_half_None [OF ep2_half_ok [OF h Some], of b 1] by (simp add: process_ep2_def)
qed

text \<open>C18: what a control packet of the client does, whatever its bytes: the state stays consistent (tables, masks and
  copies fit the numbers of receivers), a packet with settings leaves as many real receivers as were asked for and there are dongles,
  copies for the rest, and the rate of its two bits; only a request for eight receivers ends the program.\<close>

theorem process_ep2_result:
  assumes h: "hpsdr_ok h"
  shows "case process_ep2 buffer h of
      None \<Rightarrow> \<exists>offset. ep2_settings buffer = Some offset \<and> rcvrs_requested (buffer ! (15 + offset)) = 8
    | Some h' \<Rightarrow> hpsdr_ok h' \<and> total_num_rcvrs h' = total_num_rcvrs h \<and>
        (case ep2_settings buffer of
           None \<Rightarrow> active_num_rcvrs h' = active_num_rcvrs h \<and> num_copy_rcvrs h' = num_copy_rcvrs h \<and> output_rate h' = output_rate h
         | Some offset \<Rightarrow>
             rcvrs_requested (buffer ! (15 + offset)) \<le> 7 \<and>
             active_num_rcvrs h' + num_copy_rcvrs h' = rcvrs_requested (buffer ! (15 + offset)) \<and>
             active_num_rcvrs h' = min (rcvrs_requested (buffer ! (15 + offset))) (total_num_rcvrs h) \<and>
             output_rate h' = 48000 * 2 ^ unat (buffer ! (12 + offset) AND 3))"
proof (cases "ep2_settings buffer")
  case None
  then show ?thesis using h by (simp add: process_ep2_def ep2_half_settings ep2_freq_ok)
next
  case (Some offset)
  show ?thesis
  proof (cases "ep2_half buffer 0 h")
    case None
    then show ?thesis using ep2_half_None [OF h, of buffer 0] by (simp add: process_ep2_def)
  next
    case half: (Some h1)
    note first = ep2_half_result [OF h Some half]
    show ?thesis
    proof (cases "ep2_half buffer 1 h1")
      case None
      then show ?thesis using ep2_half_None [OF first(1), of buffer 1] half by (simp add: process_ep2_def)
    next
      case (Some h2)
      note second = ep2_half_result [OF first(1) \<open>ep2_settings buffer = Some offset\<close> Some]
      have "rcvrs_requested (buffer ! (15 + offset)) \<noteq> 8"
        using ep2_half_None [OF h, of buffer 0] half \<open>ep2_settings buffer = Some offset\<close> by auto
      then have "rcvrs_requested (buffer ! (15 + offset)) \<le> 7" using rcvrs_requested_le [of "buffer ! (15 + offset)"] by linarith
      then show ?thesis using half Some second first(2) \<open>ep2_settings buffer = Some offset\<close> by (simp add: process_ep2_def)
    qed
  qed
qed

text \<open>All packets of a session.\<close>

definition process_all :: "u8 list list \<Rightarrow> hpsdr \<Rightarrow> hpsdr option" where
  "process_all buffers h = fold (\<lambda>b r. Option.bind r (process_ep2 b)) buffers (Some h)"

lemma process_all_ok: "hpsdr_ok h \<Longrightarrow> process_all buffers h = Some h' \<Longrightarrow> hpsdr_ok h'"
proof (induction buffers arbitrary: h' rule: rev_induct)
  case (snoc b bs)
  then show ?case by (auto simp: process_all_def bind_eq_Some_conv intro: process_ep2_ok)
qed (simp add: process_all_def)

section \<open>The frames\<close>

text \<open>The receivers and \<open>handler_ep6\<close>: what they share, and of each receiver whether it waits in \<open>load_packet\<close> and how
  many chunks it has loaded.\<close>

record link =
  cfg :: hpsdr
  send_flags :: nat
  payload :: "u8 list"
  waits :: "bool list"
  loaded :: "nat list"
  sent :: "u8 list list"

definition link_init :: "hpsdr \<Rightarrow> link" where
  "link_init h = \<lparr>cfg = h, send_flags = 0, payload = format_payload, waits = replicate MAX_RCVRS False,
     loaded = replicate MAX_RCVRS 0, sent = []\<rparr>"

definition sequence_bytes :: "nat \<Rightarrow> u8 list" where
  "sequence_bytes k = [word_of_nat (drop_bit 24 k), word_of_nat (drop_bit 16 k), word_of_nat (drop_bit 8 k), word_of_nat k]"

text \<open>\<open>chunk r k\<close> are the samples from \<open>iqSample_offset\<close> on when receiver \<open>r\<close> loads for the \<open>k\<close>-th time. The steps are those
  of one stretch of sending: the start and stop packets, which set \<open>send_flags\<close> and end the thread, are in \<open>Rtl_Hpsdr\<close>.\<close>

inductive link_step :: "(nat \<Rightarrow> nat \<Rightarrow> int list) \<Rightarrow> link \<Rightarrow> link \<Rightarrow> bool" for chunk where
  load: "r < active_num_rcvrs (cfg l) \<Longrightarrow> \<not> waits l ! r \<Longrightarrow>
    load_packet (cfg l) False r (chunk r (loaded l ! r)) (payload l) = Some p \<Longrightarrow>
    link_step chunk l (l\<lparr>payload := p, send_flags := send_flags l OR rcvr_mask (cfg l) ! r,
      waits := (waits l)[r := True], loaded := (loaded l)[r := loaded l ! r + 1]\<rparr>)"
| wake: "r < total_num_rcvrs (cfg l) \<Longrightarrow> waits l ! r \<Longrightarrow> send_flags l AND rcvr_mask (cfg l) ! r = 0 \<Longrightarrow>
    link_step chunk l (l\<lparr>waits := (waits l)[r := False]\<rparr>)"
| send: "send_flags l = rcvrs_mask (cfg l) \<Longrightarrow> p = store_at 4 (sequence_bytes (length (sent l))) (payload l) \<Longrightarrow>
    link_step chunk l (l\<lparr>payload := p, sent := sent l @ [p], send_flags := 0\<rparr>)"

definition num_slots :: "hpsdr \<Rightarrow> nat" where
  "num_slots h = active_num_rcvrs h + num_copy_rcvrs h"

definition chunks_ok :: "hpsdr \<Rightarrow> (nat \<Rightarrow> nat \<Rightarrow> int list) \<Rightarrow> bool" where
  "chunks_ok h chunk \<longleftrightarrow> (\<forall>r k. 2 * (nsamps_packet ! (num_slots h - 1)) \<le> length (chunk r k) \<and> (\<forall>x \<in> set (chunk r k). \<bar>x\<bar> \<le> 32767))"

definition slots_hold :: "hpsdr \<Rightarrow> (nat \<Rightarrow> nat \<Rightarrow> int list) \<Rightarrow> nat \<Rightarrow> nat \<Rightarrow> u8 list \<Rightarrow> bool" where
  "slots_hold h chunk r k p \<longleftrightarrow> (\<forall>j < num_slots h. own_slot h r j \<longrightarrow> (\<forall>s < nsamps_packet ! (num_slots h - 1).
     slot_value p (slot (num_slots h) s j) = (chunk r k ! (2 * s), chunk r k ! (2 * s + 1))))"

definition frame_holds :: "hpsdr \<Rightarrow> (nat \<Rightarrow> nat \<Rightarrow> int list) \<Rightarrow> nat \<Rightarrow> u8 list \<Rightarrow> bool" where
  "frame_holds h chunk k p \<longleftrightarrow> length p = 1032 \<and> take 4 (drop 4 p) = sequence_bytes k \<and> (\<forall>r < active_num_rcvrs h. slots_hold h chunk r k p)"

definition link_inv :: "(nat \<Rightarrow> nat \<Rightarrow> int list) \<Rightarrow> hpsdr \<Rightarrow> link \<Rightarrow> bool" where
  "link_inv chunk h l \<longleftrightarrow>
     cfg l = h \<and> length (payload l) = 1032 \<and> length (waits l) = 7 \<and> length (loaded l) = 7 \<and>
     (\<forall>r. bit (send_flags l) r \<longrightarrow> r < active_num_rcvrs h) \<and>
     (\<forall>r < active_num_rcvrs h. (bit (send_flags l) r \<longrightarrow> waits l ! r \<and> slots_hold h chunk r (length (sent l)) (payload l)) \<and>
        loaded l ! r = length (sent l) + (if bit (send_flags l) r then 1 else 0)) \<and>
     (\<forall>k < length (sent l). frame_holds h chunk k (sent l ! k))"

lemma length_format_payload [simp]: "length format_payload = 1032"
  by (simp add: format_payload_def Let_def)

lemma link_init_inv: "hpsdr_ok h \<Longrightarrow> link_inv chunk h (link_init h)"
  by (auto simp: link_inv_def link_init_def hpsdr_ok_def)

lemma and_pow_0: "(x :: nat) AND 2 ^ r = 0 \<longleftrightarrow> \<not> bit x r"
  by (simp add: and_exp_eq_0_iff_not_bit)

lemma or_pow_bit: "bit ((x :: nat) OR 2 ^ r) k \<longleftrightarrow> bit x k \<or> k = r"
  by (auto simp: bit_or_iff bit_exp_iff)

lemma flags_full: "(x :: nat) = mask n \<longleftrightarrow> (\<forall>k. bit x k \<longleftrightarrow> k < n)"
  by (auto simp: bit_eq_iff bit_mask_iff)

lemma mask_of: "hpsdr_ok h \<Longrightarrow> r < active_num_rcvrs h \<Longrightarrow> rcvr_mask h ! r = 2 ^ r"
  by (auto simp: hpsdr_ok_def)

lemma own_slot_owner:
  assumes "hpsdr_ok h" "own_slot h r j" "own_slot h r' j" "r < active_num_rcvrs h" "r' < active_num_rcvrs h"
  shows "r = r'"
  using assms by (auto simp: own_slot_def hpsdr_ok_def)

text \<open>A load puts the chunk where it belongs and leaves the others alone.\<close>

lemma load_slots:
  assumes h: "hpsdr_ok h" and c: "chunks_ok h chunk" and p: "length p = 1032" and r: "r < active_num_rcvrs h"
  shows "\<exists>p'. load_packet h False r (chunk r k) p = Some p' \<and> length p' = 1032 \<and> slots_hold h chunk r k p' \<and>
    (\<forall>r' < active_num_rcvrs h. \<forall>k'. r' \<noteq> r \<longrightarrow> slots_hold h chunk r' k' p \<longrightarrow> slots_hold h chunk r' k' p')"
proof -
  have len: "2 * (nsamps_packet ! (num_slots h - 1)) \<le> length (chunk r k)" "\<forall>x \<in> set (chunk r k). \<bar>x\<bar> \<le> 32767"
    using c by (auto simp: chunks_ok_def)
  obtain p' where l: "load_packet h False r (chunk r k) p = Some p'" "length p' = 1032"
    "\<forall>j < num_slots h. \<forall>s < nsamps_packet ! (num_slots h - 1). slot_value p' (slot (num_slots h) s j) =
       (if own_slot h r j then (chunk r k ! (2 * s), chunk r k ! (2 * s + 1)) else slot_value p (slot (num_slots h) s j))"
    using load_packet_fills [OF h r p num_slots_def len] by blast
  have "slots_hold h chunk r' k' p'" if "r' < active_num_rcvrs h" "r' \<noteq> r" "slots_hold h chunk r' k' p" for r' k'
  proof -
    have "own_slot h r' j \<Longrightarrow> \<not> own_slot h r j" for j using own_slot_owner [OF h _ _ that(1) r] that(2) by blast
    then show ?thesis using that(3) l(3) unfolding slots_hold_def by simp
  qed
  then show ?thesis using l by (auto simp: slots_hold_def)
qed

lemma slots_hold_sequence:
  assumes "hpsdr_ok h" and "length p = 1032" and "slots_hold h chunk r k p"
  shows "slots_hold h chunk r k (store_at 4 (sequence_bytes m) p)"
proof -
  have n: "1 \<le> num_slots h" "num_slots h \<le> 8" using assms(1) by (auto simp: hpsdr_ok_def num_slots_def)
  have same: "store_at 4 (sequence_bytes m) p ! q = p ! q" if "8 \<le> q" "q < 1032" for q
    using that assms(2) by (subst nth_store_at) (auto simp: sequence_bytes_def)
  show ?thesis unfolding slots_hold_def
  proof (intro allI impI)
    fix j s
    assume j: "j < num_slots h" "own_slot h r j" and s: "s < nsamps_packet ! (num_slots h - 1)"
    have "16 \<le> slot (num_slots h) s j" "slot (num_slots h) s j + 6 \<le> 1032"
      using slot_bounds(1,3) [OF n _ j(1), of s] s frame_tables(1) [OF n] by auto
    then have "slot_value (store_at 4 (sequence_bytes m) p) (slot (num_slots h) s j) = slot_value p (slot (num_slots h) s j)"
      by (simp add: slot_value_def same)
    then show "slot_value (store_at 4 (sequence_bytes m) p) (slot (num_slots h) s j) = (chunk r k ! (2 * s), chunk r k ! (2 * s + 1))"
      using assms(3) j s by (auto simp: slots_hold_def)
  qed
qed

lemma sequence_take: "length p = 1032 \<Longrightarrow> take 4 (drop 4 (store_at 4 (sequence_bytes m) p)) = sequence_bytes m"
  by (simp add: store_at_def sequence_bytes_def)

lemma length_sequence_bytes [simp]: "length (sequence_bytes k) = 4"
  by (simp add: sequence_bytes_def)

lemma load_inv:
  assumes h: "hpsdr_ok h" and c: "chunks_ok h chunk" and i: "link_inv chunk h l" and r: "r < active_num_rcvrs h" and w: "\<not> waits l ! r"
    and p: "load_packet h False r (chunk r (loaded l ! r)) (payload l) = Some p"
  shows "link_inv chunk h (l\<lparr>payload := p, send_flags := send_flags l OR rcvr_mask h ! r,
      waits := (waits l)[r := True], loaded := (loaded l)[r := loaded l ! r + 1]\<rparr>)"
proof -
  have r7: "r < 7" using h r by (auto simp: hpsdr_ok_def)
  have i': "length (payload l) = 1032" "length (waits l) = 7" "length (loaded l) = 7" "\<not> bit (send_flags l) r"
    "loaded l ! r = length (sent l)" using i r w by (auto simp: link_inv_def)
  obtain p': "length p = 1032" "slots_hold h chunk r (length (sent l)) p"
    "\<And>r'. r' < active_num_rcvrs h \<Longrightarrow> r' \<noteq> r \<Longrightarrow> slots_hold h chunk r' (length (sent l)) (payload l) \<Longrightarrow> slots_hold h chunk r' (length (sent l)) p"
    using load_slots [OF h c i'(1) r, of "length (sent l)"] p i'(5) by auto
  have bits: "bit (send_flags l OR rcvr_mask h ! r) k \<longleftrightarrow> bit (send_flags l) k \<or> k = r" for k
    unfolding mask_of [OF h r] by (rule or_pow_bit)
  show ?thesis using i i' r r7 p' unfolding link_inv_def by (simp add: bits nth_list_update)
qed

lemma send_inv:
  assumes h: "hpsdr_ok h" and i: "link_inv chunk h l" and f: "send_flags l = rcvrs_mask h"
    and p: "p = store_at 4 (sequence_bytes (length (sent l))) (payload l)"
  shows "link_inv chunk h (l\<lparr>payload := p, sent := sent l @ [p], send_flags := 0\<rparr>)"
proof -
  have "send_flags l = mask (active_num_rcvrs h)" using f h by (simp add: hpsdr_ok_def)
  then have all: "bit (send_flags l) r \<longleftrightarrow> r < active_num_rcvrs h" for r unfolding flags_full by blast
  have pl: "length (payload l) = 1032" using i by (simp add: link_inv_def)
  have "slots_hold h chunk r (length (sent l)) p" if "r < active_num_rcvrs h" for r
    unfolding p using i that all by (intro slots_hold_sequence [OF h pl]) (auto simp: link_inv_def)
  then have "frame_holds h chunk (length (sent l)) p"
    unfolding frame_holds_def using sequence_take [OF pl] pl by (simp add: p)
  then show ?thesis using i all pl unfolding link_inv_def by (auto simp: p nth_append less_Suc_eq)
qed

lemma link_step_inv:
  assumes h: "hpsdr_ok h" and c: "chunks_ok h chunk" and s: "link_step chunk l l'" and i: "link_inv chunk h l"
  shows "link_inv chunk h l'"
proof -
  have cfg: "cfg l = h" using i by (simp add: link_inv_def)
  show ?thesis using s
  proof cases
    case (load r p)
    then show ?thesis using load_inv [OF h c i, of r p] by (simp add: cfg)
  next
    case (wake r)
    have "\<not> bit (send_flags l) r"
    proof (cases "r < active_num_rcvrs h")
      case True
      then show ?thesis using wake(4) mask_of [OF h True] by (simp add: cfg and_pow_0)
    qed (use i in \<open>auto simp: link_inv_def\<close>)
    moreover have "r < length (waits l)" using wake(2) h i cfg by (simp add: hpsdr_ok_def link_inv_def)
    ultimately show ?thesis using wake(1) i unfolding link_inv_def by (auto simp: nth_list_update)
  next
    case (send p)
    then show ?thesis using send_inv [OF h i, of p] by (simp add: cfg)
  qed
qed



section \<open>Instances\<close>

definition demo_packet :: "u8 \<Rightarrow> u8 \<Rightarrow> u8 list" where
  "demo_packet C1 C4 = ([0xEF, 0xFE, 1, 2] @ replicate 1028 0)[12 := C1, 15 := C4]"

lemma demo_settings [simp]:
  "ep2_settings (demo_packet C1 C4) = Some 0" "demo_packet C1 C4 ! 12 = C1" "demo_packet C1 C4 ! 15 = C4"
  by (simp_all add: ep2_settings_def demo_packet_def nth_append)

lemma demo_requests [simp]: "rcvrs_requested 0x10 = 3" "rcvrs_requested 0x08 = 2" "rcvrs_requested 0 = 1"
  by (simp_all add: rcvrs_requested_def)

lemma demo_effect:
  assumes h: "hpsdr_ok h" and n: "rcvrs_requested C4 \<noteq> 8"
  obtains h' where "process_ep2 (demo_packet C1 C4) h = Some h'" "hpsdr_ok h'" "active_num_rcvrs h' = min (rcvrs_requested C4) (total_num_rcvrs h)"
    "total_num_rcvrs h' = total_num_rcvrs h" "active_num_rcvrs h' + num_copy_rcvrs h' = rcvrs_requested C4"
proof -
  obtain h' where e: "process_ep2 (demo_packet C1 C4) h = Some h'" using process_ep2_None [OF h, of "demo_packet C1 C4"] n by fastforce
  obtain h1 where h1: "ep2_half (demo_packet C1 C4) 0 h = Some h1" "ep2_half (demo_packet C1 C4) 1 h1 = Some h'"
    using e by (auto simp: process_ep2_def bind_eq_Some_conv)
  note one = ep2_half_result [OF h demo_settings(1) h1(1)]
  note two = ep2_half_result [OF one(1) demo_settings(1) h1(2)]
  show thesis using that [OF e two(1)] two one(2) by simp
qed

theorem process_ep2_result_witness:
  "\<exists>h'. process_ep2 (demo_packet 2 0x10) (hpsdr_init 2) = Some h' \<and> active_num_rcvrs h' = 2 \<and> num_copy_rcvrs h' = 1 \<and> output_rate h' = 192000"
proof -
  have "hpsdr_ok (hpsdr_init 2)" by (rule hpsdr_init_ok) simp_all
  from process_ep2_result [OF this, of "demo_packet 2 0x10"] show ?thesis
    by (auto simp: hpsdr_init_def split: option.splits)
qed

definition demo_chunk :: "nat \<Rightarrow> nat \<Rightarrow> int list" where
  "demo_chunk r k = replicate 252 (int (r mod 100) - int (k mod 100))"

lemma demo_chunks_ok: "hpsdr_ok h \<Longrightarrow> chunks_ok h demo_chunk"
proof -
  assume "hpsdr_ok h"
  then have "nsamps_packet ! (num_slots h - 1) \<le> 126" using nsamps_bounds [of "num_slots h"] by (auto simp: num_slots_def hpsdr_ok_def)
  moreover have "\<bar>int (r mod 100) - int (k mod 100)\<bar> \<le> 32767" for r k :: nat
    using mod_less_divisor [of 100 r] mod_less_divisor [of 100 k] by linarith
  ultimately show ?thesis by (auto simp: chunks_ok_def demo_chunk_def)
qed

text \<open>One dongle for three receivers: after one load there is a frame.\<close>

lemma one_frame:
  assumes h: "hpsdr_ok h" and one: "active_num_rcvrs h = 1"
  shows "\<exists>l. (link_step demo_chunk)\<^sup>*\<^sup>* (link_init h) l \<and> length (sent l) = 1"
proof -
  obtain p where p: "load_packet h False 0 (demo_chunk 0 0) format_payload = Some p"
    using load_slots [OF h demo_chunks_ok [OF h], of format_payload 0 0] one by auto
  let ?l = "(link_init h)\<lparr>payload := p, send_flags := 1, waits := (replicate 7 False)[0 := True], loaded := (replicate 7 0)[0 := 1]\<rparr>"
  have "link_step demo_chunk (link_init h) ?l"
    using link_step.load [of 0 "link_init h" demo_chunk p] p one mask_of [OF h, of 0] by (simp add: link_init_def)
  moreover have "rcvrs_mask h = 1" using h one by (simp add: hpsdr_ok_def mask_eq_exp_minus_1)
  then obtain l where "link_step demo_chunk ?l l" "length (sent l) = 1"
    using link_step.send [of ?l _ demo_chunk] by (force simp: link_init_def)
  ultimately show ?thesis by (meson rtranclp.rtrancl_into_rtrancl rtranclp.rtrancl_refl)
qed



end
