(* ===== verification/Hpsdr_Sender.thy ===== *)
theory Hpsdr_Sender
  imports Hpsdr_Frames
begin

unbundle bit_operations_syntax

text \<open>
  From a block of a dongle to chunks of samples: the conversion in the callback, the two decimating filters
  (src/src/downsample.c) and the loop of a receiver's sending thread (src/src/rtl_hpsdr.c). The arithmetic on
  \<open>float\<close> is a parameter; reads and writes outside a buffer are \<open>None\<close>.
\<close>

abbreviation (input) READ_COUNT :: nat where "READ_COUNT \<equiv> 16384"

section \<open>The decimating filters\<close>

text \<open>The arithmetic on \<open>float\<close> is given as \<open>add\<close> and \<open>mul\<close>: what is said here holds for any of them, rounding or not.\<close>

definition fir_sums :: "('a \<Rightarrow> 'a \<Rightarrow> 'a) \<Rightarrow> ('a \<Rightarrow> 'a \<Rightarrow> 'a) \<Rightarrow> 'a \<Rightarrow> 'a list \<Rightarrow> 'a list \<Rightarrow> nat \<Rightarrow> 'a \<times> 'a" where
  "fir_sums add mul zero pFil buf pos =
     fold (\<lambda>i (sum1, sum2). (add sum1 (mul (buf ! (pos + 2 * i)) (pFil ! i)), add sum2 (mul (buf ! (pos + 2 * i + 1)) (pFil ! i))))
       [0..<length pFil] (zero, zero)"

text \<open>One pass over \<open>count\<close> values: the output and the buffer with its front replaced; \<open>None\<close> is a read outside the buffer.\<close>

definition down_pass :: "('a \<Rightarrow> 'a \<Rightarrow> 'a) \<Rightarrow> ('a \<Rightarrow> 'a \<Rightarrow> 'a) \<Rightarrow> 'a \<Rightarrow> bool \<Rightarrow> nat \<Rightarrow> nat \<Rightarrow> 'a list \<Rightarrow> 'a list \<Rightarrow> ('a list \<times> 'a list) option" where
  "down_pass add mul zero IQ_swap dsample count pFil buf =
     (if length buf < count + 2 * length pFil - 2 \<or> length buf < count \<or> count < 2 * length pFil then None
      else Some
        (fold (\<lambda>j out. let (sum1, sum2) = fir_sums add mul zero pFil buf j in
             if ((j + 2) div 2) mod dsample = 0 then out @ (if IQ_swap then [sum2, sum1] else [sum1, sum2]) else out)
           (map ((*) 2) [0..<count div 2]) [],
         store_at 0 (take (length pFil * 2) (drop (count - length pFil * 2) buf)) buf))"

record 'a rcvr =
  iq_buf :: "'a list"
  iq_buf_final :: "'a list"
  iqSamples :: "'a list"
  iqSample_offset :: nat
  iqSamples_remaining :: nat

definition rate_dsample :: "nat \<Rightarrow> nat option" where
  "rate_dsample rate =
     (if rate = 48000 then Some 16 else if rate = 96000 then Some 8 else if rate = 192000 then Some 4
      else if rate = 384000 then Some 2 else None)"

text \<open>A write outside an array is \<open>None\<close>.\<close>

definition put_floats :: "nat \<Rightarrow> 'a list \<Rightarrow> 'a list \<Rightarrow> 'a list option" where
  "put_floats i out xs = (if i + length out \<le> length xs then Some (store_at i out xs) else None)"

definition down_loop1 :: "('a \<Rightarrow> 'a \<Rightarrow> 'a) \<Rightarrow> ('a \<Rightarrow> 'a \<Rightarrow> 'a) \<Rightarrow> 'a \<Rightarrow> 'a list \<Rightarrow> 'a rcvr \<Rightarrow> 'a rcvr option" where
  "down_loop1 add mul zero coeff_768 rcb =
     Option.bind (down_pass add mul zero True 2 READ_COUNT coeff_768 (iq_buf rcb)) (\<lambda>(out, buf).
     Option.bind (put_floats 64 out (iq_buf_final rcb)) (\<lambda>final.
     Some (rcb\<lparr>iq_buf := buf, iq_buf_final := final\<rparr>)))"

definition down_loop2 :: "('a \<Rightarrow> 'a \<Rightarrow> 'a) \<Rightarrow> ('a \<Rightarrow> 'a \<Rightarrow> 'a) \<Rightarrow> 'a \<Rightarrow> (nat \<Rightarrow> 'a list) \<Rightarrow> nat \<Rightarrow> 'a rcvr \<Rightarrow> 'a rcvr option" where
  "down_loop2 add mul zero coeff rate rcb =
     Option.bind (rate_dsample rate) (\<lambda>dsample.
     Option.bind (down_pass add mul zero False dsample (READ_COUNT div 2) (coeff rate) (iq_buf_final rcb)) (\<lambda>(out, buf).
     Option.bind (put_floats (iqSamples_remaining rcb * 2) out (iqSamples rcb)) (\<lambda>samples.
     Some (rcb\<lparr>iq_buf_final := buf, iqSamples := samples\<rparr>))))"

definition downsample :: "('a \<Rightarrow> 'a \<Rightarrow> 'a) \<Rightarrow> ('a \<Rightarrow> 'a \<Rightarrow> 'a) \<Rightarrow> 'a \<Rightarrow> 'a list \<Rightarrow> (nat \<Rightarrow> 'a list) \<Rightarrow> nat \<Rightarrow> 'a rcvr \<Rightarrow> 'a rcvr option" where
  "downsample add mul zero coeff_768 coeff rate rcb =
     Option.bind (down_loop1 add mul zero coeff_768 rcb) (down_loop2 add mul zero coeff rate)"

text \<open>Every \<open>d\<close>-th window gives a sample.\<close>

lemma every_dth:
  assumes "0 < d"
  shows "fold (\<lambda>j out. if (Suc j) mod d = 0 then out @ f j else out) [0..<m] [] = concat (map (\<lambda>k. f ((k + 1) * d - 1)) [0..<m div d])"
proof (induction m)
  case (Suc m)
  show ?case
  proof (cases "Suc m mod d = 0")
    case True
    then obtain q where q: "Suc m = q * d" by (metis mod_eq_0_iff_dvd dvdE mult.commute)
    then have "0 < q" by (cases q) auto
    then obtain p where p: "q = p + 1" by (metis Suc_eq_plus1 gr0_conv_Suc)
    have m: "m = (p + 1) * d - 1" using q p by simp
    have "m div d = p" using q p assms by (intro div_nat_eqI) (auto simp: algebra_simps)
    moreover have "Suc m div d = p + 1" using q p assms by simp
    ultimately show ?thesis using Suc True m by simp
  next
    case False
    then have "Suc m div d = m div d" by (simp add: div_Suc)
    then show ?thesis using Suc False by simp
  qed
qed simp

definition decimated :: "('a \<Rightarrow> 'a \<Rightarrow> 'a) \<Rightarrow> ('a \<Rightarrow> 'a \<Rightarrow> 'a) \<Rightarrow> 'a \<Rightarrow> bool \<Rightarrow> nat \<Rightarrow> 'a list \<Rightarrow> 'a list \<Rightarrow> nat \<Rightarrow> 'a list" where
  "decimated add mul zero IQ_swap dsample pFil buf n =
     concat (map (\<lambda>k. let (s1, s2) = fir_sums add mul zero pFil buf (2 * ((k + 1) * dsample - 1)) in
       if IQ_swap then [s2, s1] else [s1, s2]) [0..<n])"

lemma length_decimated [simp]: "length (decimated add mul zero IQ_swap dsample pFil buf n) = 2 * n"
  by (induction n) (simp_all add: decimated_def Let_def split_def)

lemma nth_pairs:
  assumes "\<And>k. length (f k) = 2"
  shows "k < n \<Longrightarrow> i < 2 \<Longrightarrow> concat (map f [0..<n]) ! (2 * k + i) = f k ! i"
proof (induction n)
  case (Suc n)
  have "length (concat (map f [0..<n])) = 2 * n" using assms by (induction n) simp_all
  then show ?case using Suc by (cases "k = n") (auto simp: nth_append less_Suc_eq)
qed simp

lemma nth_decimated:
  assumes "k < n"
  shows "decimated add mul zero IQ_swap dsample pFil buf n ! (2 * k) =
      (if IQ_swap then snd else fst) (fir_sums add mul zero pFil buf (2 * ((k + 1) * dsample - 1)))"
    "decimated add mul zero IQ_swap dsample pFil buf n ! (2 * k + 1) =
      (if IQ_swap then fst else snd) (fir_sums add mul zero pFil buf (2 * ((k + 1) * dsample - 1)))"
proof -
  let ?f = "\<lambda>k. let (s1, s2) = fir_sums add mul zero pFil buf (2 * ((k + 1) * dsample - 1)) in if IQ_swap then [s2, s1] else [s1, s2]"
  have "length (?f k) = 2" for k by (simp add: Let_def split_def)
  note p = nth_pairs [of ?f, OF this assms]
  show "decimated add mul zero IQ_swap dsample pFil buf n ! (2 * k) =
      (if IQ_swap then snd else fst) (fir_sums add mul zero pFil buf (2 * ((k + 1) * dsample - 1)))"
    "decimated add mul zero IQ_swap dsample pFil buf n ! (2 * k + 1) =
      (if IQ_swap then fst else snd) (fir_sums add mul zero pFil buf (2 * ((k + 1) * dsample - 1)))"
    using p [of 0] p [of 1] by (simp_all add: decimated_def Let_def split_def)
qed

lemma down_pass_spec:
  assumes d: "0 < dsample" and len: "count + 2 * length pFil \<le> length buf" "2 * length pFil \<le> count"
  shows "down_pass add mul zero IQ_swap dsample count pFil buf = Some
    (decimated add mul zero IQ_swap dsample pFil buf (count div 2 div dsample),
     take (2 * length pFil) (drop (count - 2 * length pFil) buf) @ drop (2 * length pFil) buf)"
proof -
  have "(\<lambda>j out. let (sum1, sum2) = fir_sums add mul zero pFil buf j in
       if ((j + 2) div 2) mod dsample = 0 then out @ (if IQ_swap then [sum2, sum1] else [sum1, sum2]) else out) \<circ> (*) 2 =
    (\<lambda>j out. if (Suc j) mod dsample = 0 then out @ (let (sum1, sum2) = fir_sums add mul zero pFil buf (2 * j) in
       if IQ_swap then [sum2, sum1] else [sum1, sum2]) else out)"
    by (intro ext) (simp add: Let_def split_def)
  then show ?thesis using len unfolding down_pass_def fold_map
    by (simp add: every_dth [OF d] store_at_def mult.commute decimated_def)
qed

text \<open>The whole of \<open>downsample\<close>: \<open>e\<close> is the rate over 48000 as a power of two.\<close>

definition rcvr_ok :: "'a rcvr \<Rightarrow> bool" where
  "rcvr_ok rcb \<longleftrightarrow> length (iq_buf rcb) = READ_COUNT + 32 \<and> length (iq_buf_final rcb) = READ_COUNT div 2 + 64 \<and>
     length (iqSamples rcb) = READ_COUNT + 126"

lemma rate_dsample_pow: "e \<le> 3 \<Longrightarrow> rate_dsample (48000 * 2 ^ e) = Some (16 div 2 ^ e)"
proof -
  assume "e \<le> 3"
  then have "e \<in> {0, 1, 2, 3}" by auto
  then show ?thesis by (auto simp: rate_dsample_def)
qed

lemma rate_counts: "e \<le> 3 \<Longrightarrow> 8192 div 2 div (16 div 2 ^ e) = (256 * 2 ^ e :: nat)" "e \<le> 3 \<Longrightarrow> 0 < (16 div 2 ^ e :: nat)"
  "e \<le> 3 \<Longrightarrow> (2 ^ e :: nat) \<le> 8"
proof -
  assume "e \<le> 3"
  then have "e \<in> {0, 1, 2, 3}" by auto
  then show "8192 div 2 div (16 div 2 ^ e) = (256 * 2 ^ e :: nat)" "0 < (16 div 2 ^ e :: nat)" "(2 ^ e :: nat) \<le> 8" by auto
qed

lemma downsample_result:
  assumes ok: "rcvr_ok rcb" and c: "length coeff_768 = 16" "length (coeff rate) = 32" and e: "rate = 48000 * 2 ^ e" "e \<le> 3"
    and room: "2 * iqSamples_remaining rcb + 4096 \<le> READ_COUNT + 126"
    and final: "final = take 64 (iq_buf_final rcb) @ decimated add mul zero True 2 coeff_768 (iq_buf rcb) 4096"
  shows "downsample add mul zero coeff_768 coeff rate rcb = Some (rcb\<lparr>
      iq_buf := take 32 (drop (READ_COUNT - 32) (iq_buf rcb)) @ drop 32 (iq_buf rcb),
      iq_buf_final := take 64 (drop (READ_COUNT div 2 - 64) final) @ drop 64 final,
      iqSamples := store_at (2 * iqSamples_remaining rcb)
        (decimated add mul zero False (16 div 2 ^ e) (coeff rate) final (256 * 2 ^ e)) (iqSamples rcb)\<rparr>)"
proof -
  have l: "length (iq_buf rcb) = 16416" "length (iq_buf_final rcb) = 8256" "length (iqSamples rcb) = 16510"
    using ok by (simp_all add: rcvr_ok_def)
  have f: "store_at 64 (decimated add mul zero True 2 coeff_768 (iq_buf rcb) 4096) (iq_buf_final rcb) = final"
    using l by (simp add: final store_at_def)
  have lf: "length final = 8256" using l by (simp add: final)
  have one: "down_loop1 add mul zero coeff_768 rcb = Some (rcb\<lparr>
      iq_buf := take 32 (drop (READ_COUNT - 32) (iq_buf rcb)) @ drop 32 (iq_buf rcb), iq_buf_final := final\<rparr>)"
    using l c(1) f by (simp add: down_loop1_def down_pass_spec put_floats_def)
  have two: "down_pass add mul zero False (16 div 2 ^ e) 8192 (coeff rate) final = Some
    (decimated add mul zero False (16 div 2 ^ e) (coeff rate) final (256 * 2 ^ e),
     take 64 (drop (READ_COUNT div 2 - 64) final) @ drop 64 final)"
    using down_pass_spec [OF rate_counts(2) [OF e(2)], of 8192 "coeff rate" final add mul zero False] c(2) lf
    unfolding rate_counts(1) [OF e(2)] by simp
  have rd: "rate_dsample rate = Some (16 div 2 ^ e)" unfolding e(1) using e(2) by (rule rate_dsample_pow)
  show ?thesis using two one room l rd rate_counts(3) [OF e(2)]
    by (simp add: downsample_def down_loop2_def put_floats_def mult.commute)
qed

section \<open>The threads of a receiver\<close>

text \<open>The conversion in \<open>rtlsdr_callback\<close>; \<open>dc\<close> is the state of the filter against the DC component,
  \<open>lut\<close> the row of \<open>rtl_lut\<close> for the rate and \<open>c\<close> the constant 0.9999.
  The part of the callback that is for the calibration does not touch the samples and is left out.\<close>

definition dc_step :: "('a \<Rightarrow> 'a \<Rightarrow> 'a) \<Rightarrow> ('a \<Rightarrow> 'a \<Rightarrow> 'a) \<Rightarrow> ('a \<Rightarrow> 'a \<Rightarrow> 'a) \<Rightarrow> 'a \<Rightarrow> (u8 \<Rightarrow> 'a) \<Rightarrow> u8 list \<Rightarrow> nat \<Rightarrow>
    ('a \<times> 'a) \<times> 'a list \<Rightarrow> ('a \<times> 'a) \<times> 'a list" where
  "dc_step add sub mul c lut buf i st =
     (let ((dcIlast, dcQlast), iq) = st;
          dcI = add (lut (buf ! i)) (mul dcIlast c); dcQ = add (lut (buf ! (i + 1))) (mul dcQlast c)
      in ((dcI, dcQ), iq[i := sub dcI dcIlast, i + 1 := sub dcQ dcQlast]))"

definition callback_iq :: "('a \<Rightarrow> 'a \<Rightarrow> 'a) \<Rightarrow> ('a \<Rightarrow> 'a \<Rightarrow> 'a) \<Rightarrow> ('a \<Rightarrow> 'a \<Rightarrow> 'a) \<Rightarrow> 'a \<Rightarrow> (u8 \<Rightarrow> 'a) \<Rightarrow> u8 list \<Rightarrow> 'a \<times> 'a \<Rightarrow> 'a list \<Rightarrow>
    ('a \<times> 'a) \<times> 'a list" where
  "callback_iq add sub mul c lut buf dc iq =
     fold (dc_step add sub mul c lut buf) (map ((*) 2) [0..<READ_COUNT div 2]) (dc, iq)"

definition hpsdr_callback :: "('a \<Rightarrow> 'a \<Rightarrow> 'a) \<Rightarrow> ('a \<Rightarrow> 'a \<Rightarrow> 'a) \<Rightarrow> ('a \<Rightarrow> 'a \<Rightarrow> 'a) \<Rightarrow> 'a \<Rightarrow> (u8 \<Rightarrow> 'a) \<Rightarrow> bool \<Rightarrow> u8 list \<Rightarrow>
    ('a \<times> 'a) \<times> 'a rcvr \<Rightarrow> ('a \<times> 'a) \<times> 'a rcvr" where
  "hpsdr_callback add sub mul c lut running buf st =
     (if \<not> running \<or> length buf \<noteq> READ_COUNT then st
      else let (dc, iq) = callback_iq add sub mul c lut buf (fst st) (iq_buf (snd st)) in (dc, (snd st)\<lparr>iq_buf := iq\<rparr>))"

function drain :: "nat \<Rightarrow> nat \<Rightarrow> nat \<Rightarrow> nat list \<times> nat \<times> nat" where
  "drain samps_packet off rem =
     (if samps_packet < rem \<and> 0 < samps_packet
      then let (offs, st) = drain samps_packet (off + samps_packet) (rem - samps_packet) in (off # offs, st)
      else ([], off, rem))"
  by pat_completeness auto
termination by (relation "measure (\<lambda>(sp, off, rem). rem)") auto

declare drain.simps [simp del]

text \<open>What is left moves to the front with \<open>memcpy\<close>, which may not overlap.\<close>

definition move_front :: "'a rcvr \<Rightarrow> 'a rcvr option" where
  "move_front rcb =
     (if iqSample_offset rcb > 0 \<and> iqSamples_remaining rcb > 0
      then if iqSamples_remaining rcb * 2 > iqSample_offset rcb * 2 then None
           else Some (rcb\<lparr>iqSamples := store_at 0 (take (iqSamples_remaining rcb * 2) (drop (iqSample_offset rcb * 2) (iqSamples rcb))) (iqSamples rcb),
                          iqSample_offset := 0\<rparr>)
      else Some rcb)"

definition samps_packet :: "hpsdr \<Rightarrow> nat" where
  "samps_packet h = (if num_copy_rcvrs h > 0 then nsamps_packet ! (active_num_rcvrs h - 1 + num_copy_rcvrs h) else packet_samples h)"

definition rate_samples :: "nat \<Rightarrow> nat" where
  "rate_samples rate =
     (if rate = 48000 then READ_COUNT div (8 * 8) else if rate = 96000 then READ_COUNT div (8 * 4)
      else if rate = 192000 then READ_COUNT div (8 * 2) else if rate = 384000 then READ_COUNT div 8 else 0)"

text \<open>One turn of the thread that sends, with the samples it hands to \<open>load_packet\<close>; \<open>produce\<close> is \<open>downsample\<close>.
  \<open>iqSamples_remaining\<close> is never negative, so the repair of that case is not there.\<close>

definition sendiq_turn :: "hpsdr \<Rightarrow> bool \<Rightarrow> bool \<Rightarrow> ('a rcvr \<Rightarrow> 'a rcvr option) \<Rightarrow> 'a rcvr \<Rightarrow> ('a list list \<times> 'a rcvr) option" where
  "sendiq_turn h running using_IQfiles produce rcb =
     (let rcb = (if running then rcb else rcb\<lparr>iqSample_offset := 0, iqSamples_remaining := 0\<rparr>) in
      Option.bind
        (if using_IQfiles
         then map_option (\<lambda>samples. rcb\<lparr>iqSamples := samples, iqSamples_remaining := iqSamples_remaining rcb + 9600\<rparr>)
                (put_floats (iqSamples_remaining rcb * 2) (take (9600 * 2) (iq_buf rcb)) (iqSamples rcb))
         else map_option (\<lambda>rcb. rcb\<lparr>iqSamples_remaining := iqSamples_remaining rcb + rate_samples (output_rate h)\<rparr>) (produce rcb))
        (\<lambda>rcb. let (offs, off, rem) = drain (samps_packet h) (iqSample_offset rcb) (iqSamples_remaining rcb) in
           map_option (Pair (map (\<lambda>i. drop (2 * i) (iqSamples rcb)) offs))
             (move_front (rcb\<lparr>iqSample_offset := off, iqSamples_remaining := rem\<rparr>))))"

section \<open>No sample is lost or repeated by the sender\<close>

lemma drain_step:
  assumes "0 < sp" and "drain sp off rem = (offs, st)"
  obtains "rem \<le> sp" "offs = []" "st = (off, rem)"
    | offs1 where "sp < rem" "offs = off # offs1" "drain sp (off + sp) (rem - sp) = (offs1, st)"
  using assms by (subst (asm) drain.simps) (auto split: if_splits prod.splits)

lemma drain_counts:
  assumes "0 < sp" and "drain sp off rem = (offs, off', rem')"
  shows "off' = off + sp * length offs \<and> rem = rem' + sp * length offs \<and> rem' \<le> sp \<and> (0 < rem \<longrightarrow> 0 < rem') \<and>
    (\<forall>i \<in> set offs. off \<le> i \<and> i + sp < off + rem)"
  using assms
proof (induction sp off rem arbitrary: offs rule: drain.induct)
  case (1 sp off rem)
  show ?case
  proof (rule drain_step [OF 1(2,3)], goal_cases)
    case 1
    then show ?case by simp
  next
    case (2 offs1)
    note IH = 1(1) [OF conjI [OF 2(1) 1(2)] 1(2) 2(3)]
    then show ?case using 2 by auto
  qed
qed

lemma drain_contents:
  assumes "0 < sp" and "drain sp off rem = (offs, off', rem')"
  shows "concat (map (\<lambda>i. take (2 * sp) (drop (2 * i) xs)) offs) @ take (2 * rem') (drop (2 * off') xs) = take (2 * rem) (drop (2 * off) xs)"
  using assms
proof (induction sp off rem arbitrary: offs rule: drain.induct)
  case (1 sp off rem)
  show ?case
  proof (rule drain_step [OF 1(2,3)], goal_cases)
    case 1
    then show ?case by simp
  next
    case (2 offs1)
    note IH = 1(1) [OF conjI [OF 2(1) 1(2)] 1(2) 2(3)]
    have "2 * rem = 2 * sp + 2 * (rem - sp)" "2 * (off + sp) = 2 * sp + 2 * off" using 2(1) by simp_all
    then have "take (2 * rem) (drop (2 * off) xs) = take (2 * sp) (drop (2 * off) xs) @ take (2 * (rem - sp)) (drop (2 * (off + sp)) xs)"
      by (simp only: take_add drop_drop)
    then show ?case using IH 2(2) by simp
  qed
qed

definition buffered :: "'a rcvr \<Rightarrow> 'a list" where
  "buffered rcb = take (2 * iqSamples_remaining rcb) (drop (2 * iqSample_offset rcb) (iqSamples rcb))"

definition sender_ok :: "'a rcvr \<Rightarrow> bool" where
  "sender_ok rcb \<longleftrightarrow> rcvr_ok rcb \<and> iqSample_offset rcb = 0 \<and> iqSamples_remaining rcb \<le> 126"

lemma samps_packet_ok: "hpsdr_ok h \<Longrightarrow> samps_packet h = nsamps_packet ! (active_num_rcvrs h + num_copy_rcvrs h - 1)"
  by (auto simp: samps_packet_def hpsdr_ok_def)

lemma samps_packet_bounds: "hpsdr_ok h \<Longrightarrow> 0 < samps_packet h \<and> samps_packet h \<le> 126"
  unfolding samps_packet_ok by (rule nsamps_bounds) (auto simp: hpsdr_ok_def)

lemma move_front_spec:
  assumes "length (iqSamples rcb) = 16510" "iqSample_offset rcb + iqSamples_remaining rcb \<le> 8000" and "0 < iqSamples_remaining rcb"
    and "iqSample_offset rcb = 0 \<or> iqSamples_remaining rcb \<le> iqSample_offset rcb"
  shows "\<exists>rcb'. move_front rcb = Some rcb' \<and> buffered rcb' = buffered rcb \<and> iqSample_offset rcb' = 0 \<and>
    iqSamples_remaining rcb' = iqSamples_remaining rcb \<and> length (iqSamples rcb') = 16510 \<and>
    iq_buf rcb' = iq_buf rcb \<and> iq_buf_final rcb' = iq_buf_final rcb"
  using assms by (cases "iqSample_offset rcb = 0") (auto simp: move_front_def buffered_def store_at_def mult.commute)

text \<open>The samples of one block: what the two filters make of \<open>iq_buf\<close>, with what the first left in \<open>iq_buf_final\<close>.\<close>

definition half_rate :: "('a \<Rightarrow> 'a \<Rightarrow> 'a) \<Rightarrow> ('a \<Rightarrow> 'a \<Rightarrow> 'a) \<Rightarrow> 'a \<Rightarrow> 'a list \<Rightarrow> 'a rcvr \<Rightarrow> 'a list" where
  "half_rate add mul zero coeff_768 rcb = take 64 (iq_buf_final rcb) @ decimated add mul zero True 2 coeff_768 (iq_buf rcb) 4096"

definition block_samples :: "('a \<Rightarrow> 'a \<Rightarrow> 'a) \<Rightarrow> ('a \<Rightarrow> 'a \<Rightarrow> 'a) \<Rightarrow> 'a \<Rightarrow> 'a list \<Rightarrow> (nat \<Rightarrow> 'a list) \<Rightarrow> nat \<Rightarrow> 'a rcvr \<Rightarrow> 'a list" where
  "block_samples add mul zero coeff_768 coeff rate rcb =
     decimated add mul zero False (768000 div rate) (coeff rate) (half_rate add mul zero coeff_768 rcb) (rate_samples rate)"

definition coeffs_ok :: "'a list \<Rightarrow> (nat \<Rightarrow> 'a list) \<Rightarrow> bool" where
  "coeffs_ok coeff_768 coeff \<longleftrightarrow> length coeff_768 = 16 \<and> (\<forall>rate \<in> {48000, 96000, 192000, 384000}. length (coeff rate) = 32)"

lemma rate_cases:
  assumes "hpsdr_ok h"
  obtains e where "e \<le> 3" "output_rate h = 48000 * 2 ^ e" "768000 div output_rate h = 16 div 2 ^ e" "rate_samples (output_rate h) = 256 * 2 ^ e"
    "output_rate h \<in> {48000, 96000, 192000, 384000}"
proof -
  have r: "output_rate h = 48000 * 2 ^ unat (last_rate h)" "unat (last_rate h) \<le> 3" using assms by (auto simp: hpsdr_ok_def)
  then have "unat (last_rate h) \<in> {0, 1, 2, 3}" by auto
  then show thesis using r by (intro that [of "unat (last_rate h)"]) (auto simp: rate_samples_def)
qed

lemma store_extends:
  "2 * rem + length out \<le> length xs \<Longrightarrow> length out = 2 * m \<Longrightarrow> take (2 * (rem + m)) (store_at (2 * rem) out xs) = take (2 * rem) xs @ out"
  by (simp add: store_at_def algebra_simps)

lemma downsample_turn:
  assumes h: "hpsdr_ok h" and s: "sender_ok rcb" and c: "coeffs_ok coeff_768 coeff"
  shows "\<exists>rcb'. downsample add mul zero coeff_768 coeff (output_rate h) rcb = Some rcb' \<and>
    length (iqSamples rcb') = 16510 \<and> iqSample_offset rcb' = 0 \<and> iqSamples_remaining rcb' = iqSamples_remaining rcb \<and>
    take (2 * (iqSamples_remaining rcb + rate_samples (output_rate h))) (iqSamples rcb') =
      buffered rcb @ block_samples add mul zero coeff_768 coeff (output_rate h) rcb \<and>
    length (iq_buf rcb') = READ_COUNT + 32 \<and> drop READ_COUNT (iq_buf rcb') = drop READ_COUNT (iq_buf rcb) \<and>
    length (iq_buf_final rcb') = READ_COUNT div 2 + 64 \<and>
    take 64 (iq_buf_final rcb') = take 64 (drop (READ_COUNT div 2 - 64) (half_rate add mul zero coeff_768 rcb))"
proof -
  obtain e where e: "e \<le> 3" "output_rate h = 48000 * 2 ^ e" "768000 div output_rate h = 16 div 2 ^ e" "rate_samples (output_rate h) = 256 * 2 ^ e"
    "output_rate h \<in> {48000, 96000, 192000, 384000}" using rate_cases [OF h] .
  have l: "length (iq_buf rcb) = 16416" "length (iq_buf_final rcb) = 8256" "length (iqSamples rcb) = 16510"
    "iqSample_offset rcb = 0" "iqSamples_remaining rcb \<le> 126" "rcvr_ok rcb"
    using s by (simp_all add: sender_ok_def rcvr_ok_def)
  have cl: "length coeff_768 = 16" "length (coeff (output_rate h)) = 32" using c e(5) unfolding coeffs_ok_def by blast+
  have room: "2 * iqSamples_remaining rcb + 4096 \<le> READ_COUNT + 126" using l by simp
  note d = downsample_result [of rcb coeff_768 coeff "output_rate h" e "half_rate add mul zero coeff_768 rcb" add mul zero, OF l(6) cl e(2,1) room half_rate_def]
  have b: "block_samples add mul zero coeff_768 coeff (output_rate h) rcb =
      decimated add mul zero False (16 div 2 ^ e) (coeff (output_rate h)) (half_rate add mul zero coeff_768 rcb) (256 * 2 ^ e)"
    unfolding block_samples_def e(3,4) ..
  have len: "length (block_samples add mul zero coeff_768 coeff (output_rate h) rcb) = 2 * rate_samples (output_rate h)"
    "rate_samples (output_rate h) \<le> 2048" using rate_counts(3) [OF e(1)] unfolding e(4) b by simp_all
  have hl: "length (half_rate add mul zero coeff_768 rcb) = 8256" using l by (simp add: half_rate_def)
  have ext: "take (2 * (iqSamples_remaining rcb + rate_samples (output_rate h)))
      (store_at (2 * iqSamples_remaining rcb) (block_samples add mul zero coeff_768 coeff (output_rate h) rcb) (iqSamples rcb)) =
      buffered rcb @ block_samples add mul zero coeff_768 coeff (output_rate h) rcb"
    using len l by (subst store_extends) (simp_all add: buffered_def)
  have ls: "length (store_at (2 * iqSamples_remaining rcb) (block_samples add mul zero coeff_768 coeff (output_rate h) rcb) (iqSamples rcb)) = 16510"
    using len l by simp
  show ?thesis using d ext ls l hl unfolding b [symmetric]
    by (auto simp: min_def)
qed

theorem sender_turn:
  assumes h: "hpsdr_ok h" and s: "sender_ok rcb" and c: "coeffs_ok coeff_768 coeff"
  shows "\<exists>chunks rcb'. sendiq_turn h True False (downsample add mul zero coeff_768 coeff (output_rate h)) rcb = Some (chunks, rcb') \<and>
    sender_ok rcb' \<and> 0 < iqSamples_remaining rcb' \<and> iqSamples_remaining rcb' \<le> samps_packet h \<and>
    (\<forall>chunk \<in> set chunks. 2 * samps_packet h \<le> length chunk) \<and>
    concat (map (take (2 * samps_packet h)) chunks) @ buffered rcb' =
      buffered rcb @ block_samples add mul zero coeff_768 coeff (output_rate h) rcb \<and>
    drop READ_COUNT (iq_buf rcb') = drop READ_COUNT (iq_buf rcb) \<and>
    take 64 (iq_buf_final rcb') = take 64 (drop (READ_COUNT div 2 - 64) (half_rate add mul zero coeff_768 rcb))"
proof -
  let ?r = "rate_samples (output_rate h)" and ?sp = "samps_packet h"
  obtain d where d: "downsample add mul zero coeff_768 coeff (output_rate h) rcb = Some d"
    "length (iqSamples d) = 16510" "iqSample_offset d = 0" "iqSamples_remaining d = iqSamples_remaining rcb"
    and smp: "take (2 * (iqSamples_remaining rcb + ?r)) (iqSamples d) = buffered rcb @ block_samples add mul zero coeff_768 coeff (output_rate h) rcb"
    and bufs: "length (iq_buf d) = READ_COUNT + 32" "drop READ_COUNT (iq_buf d) = drop READ_COUNT (iq_buf rcb)"
    "length (iq_buf_final d) = READ_COUNT div 2 + 64"
    "take 64 (iq_buf_final d) = take 64 (drop (READ_COUNT div 2 - 64) (half_rate add mul zero coeff_768 rcb))"
    using downsample_turn [OF h s c, of add mul zero] by blast
  obtain e where e: "e \<le> 3" "?r = 256 * 2 ^ e" using rate_cases [OF h] by metis
  have r: "0 < ?r" "?r \<le> 2048" using rate_counts(3) [OF e(1)] unfolding e(2) by simp_all
  have rem: "iqSamples_remaining rcb \<le> 126" using s by (simp add: sender_ok_def)
  have sp: "0 < ?sp" "?sp \<le> 126" using samps_packet_bounds [OF h] by auto
  obtain offs off' rem' where dr: "drain ?sp 0 (iqSamples_remaining rcb + ?r) = (offs, off', rem')" by (metis prod_cases3)
  note cnt = drain_counts [OF sp(1) dr] and cont = drain_contents [OF sp(1) dr, of "iqSamples d"]
  have off: "off' = 0 \<or> rem' \<le> off'" using cnt by (cases offs) auto
  let ?m = "d\<lparr>iqSample_offset := off', iqSamples_remaining := rem'\<rparr>"
  have sum: "off' + rem' \<le> 8000" "0 < rem'" "rem' \<le> ?sp" using cnt r rem by simp_all
  obtain rcb' where m: "move_front ?m = Some rcb'" "buffered rcb' = buffered ?m" "iqSample_offset rcb' = 0"
    "iqSamples_remaining rcb' = rem'" "length (iqSamples rcb') = 16510" "iq_buf rcb' = iq_buf d" "iq_buf_final rcb' = iq_buf_final d"
    using move_front_spec [of ?m] d(2) sum(1,2) off by auto
  let ?chunks = "map (\<lambda>i. drop (2 * i) (iqSamples d)) offs"
  have "sendiq_turn h True False (downsample add mul zero coeff_768 coeff (output_rate h)) rcb = Some (?chunks, rcb')"
    using m(1) dr d by (simp add: sendiq_turn_def)
  moreover have "sender_ok rcb'" using m bufs sum sp by (simp add: sender_ok_def rcvr_ok_def)
  moreover have "\<forall>chunk \<in> set ?chunks. 2 * ?sp \<le> length chunk" using cnt d(2) r rem by fastforce
  moreover have "concat (map (take (2 * ?sp)) ?chunks) @ buffered rcb' = buffered rcb @ block_samples add mul zero coeff_768 coeff (output_rate h) rcb"
    using cont smp m(2) by (simp add: comp_def buffered_def)
  ultimately show ?thesis using m sum bufs by auto
qed

lemma dc_steps_tail:
  "\<forall>i \<in> set is. i + 1 < n \<Longrightarrow> length (snd (fold (dc_step add sub mul c lut buf) is st)) = length (snd st) \<and>
     drop n (snd (fold (dc_step add sub mul c lut buf) is st)) = drop n (snd st)"
  by (induction "is" arbitrary: st) (auto simp: dc_step_def Let_def split_def)

lemma callback_tail:
  "length (iq_buf (snd (hpsdr_callback add sub mul c lut running buf st))) = length (iq_buf (snd st)) \<and>
   drop READ_COUNT (iq_buf (snd (hpsdr_callback add sub mul c lut running buf st))) = drop READ_COUNT (iq_buf (snd st))"
proof -
  have "\<forall>i \<in> set (map ((*) 2) [0..<READ_COUNT div 2]). i + 1 < READ_COUNT" by auto
  note t = dc_steps_tail [OF this, of add sub mul c lut buf "(fst st, iq_buf (snd st))"]
  show ?thesis using t by (simp add: hpsdr_callback_def callback_iq_def split_def Let_def del: set_map)
qed

lemma callback_same:
  "iq_buf_final (snd (hpsdr_callback add sub mul c lut running buf st)) = iq_buf_final (snd st)"
  "buffered (snd (hpsdr_callback add sub mul c lut running buf st)) = buffered (snd st)"
  "sender_ok (snd st) \<Longrightarrow> sender_ok (snd (hpsdr_callback add sub mul c lut running buf st))"
proof -
  show "iq_buf_final (snd (hpsdr_callback add sub mul c lut running buf st)) = iq_buf_final (snd st)"
    "buffered (snd (hpsdr_callback add sub mul c lut running buf st)) = buffered (snd st)"
    by (simp_all add: hpsdr_callback_def buffered_def split_def Let_def)
  assume "sender_ok (snd st)"
  then show "sender_ok (snd (hpsdr_callback add sub mul c lut running buf st))"
    using callback_tail [of add sub mul c lut running buf st] unfolding sender_ok_def rcvr_ok_def
    by (simp add: hpsdr_callback_def split_def Let_def split: if_splits)
qed

text \<open>The blocks of a session, each converted, filtered and sent.\<close>

fun session :: "('a \<Rightarrow> 'a \<Rightarrow> 'a) \<Rightarrow> ('a \<Rightarrow> 'a \<Rightarrow> 'a) \<Rightarrow> ('a \<Rightarrow> 'a \<Rightarrow> 'a) \<Rightarrow> 'a \<Rightarrow> 'a \<Rightarrow> (u8 \<Rightarrow> 'a) \<Rightarrow> 'a list \<Rightarrow> (nat \<Rightarrow> 'a list) \<Rightarrow> hpsdr \<Rightarrow>
    u8 list list \<Rightarrow> ('a \<times> 'a) \<times> 'a rcvr \<Rightarrow> ('a list list \<times> 'a list list \<times> ('a \<times> 'a) \<times> 'a rcvr) option" where
  "session add sub mul zero c lut coeff_768 coeff h [] st = Some ([], [], st)"
| "session add sub mul zero c lut coeff_768 coeff h (buf # bufs) st =
     (if length buf \<noteq> READ_COUNT then session add sub mul zero c lut coeff_768 coeff h bufs st
      else let st = hpsdr_callback add sub mul c lut True buf st in
        Option.bind (sendiq_turn h True False (downsample add mul zero coeff_768 coeff (output_rate h)) (snd st)) (\<lambda>(chunks, rcb).
        Option.bind (session add sub mul zero c lut coeff_768 coeff h bufs (fst st, rcb)) (\<lambda>(more, blocks, st').
          Some (chunks @ more, block_samples add mul zero coeff_768 coeff (output_rate h) (snd st) # blocks, st'))))"


text \<open>A file: 9600 samples do not fit.\<close>

theorem file_turn_overflows:
  assumes "length (iqSamples rcb) = READ_COUNT + 126" and "9600 * 2 \<le> length (iq_buf rcb)"
  shows "sendiq_turn h running True produce rcb = None"
  using assms by (simp add: sendiq_turn_def put_floats_def)

definition zero_rcvr :: "int rcvr" where
  "zero_rcvr = \<lparr>iq_buf = replicate (READ_COUNT + 32) 0, iq_buf_final = replicate (READ_COUNT div 2 + 64) 0,
     iqSamples = replicate (READ_COUNT + 126) 0, iqSample_offset = 0, iqSamples_remaining = 0\<rparr>"

lemma zero_rcvr_ok: "sender_ok zero_rcvr"
  by (simp add: sender_ok_def rcvr_ok_def zero_rcvr_def)


theorem file_turn_overflows_witness:
  "sendiq_turn (hpsdr_init 1) True True Some (zero_rcvr\<lparr>iq_buf := replicate 192000 0\<rparr>) = None"
  by (rule file_turn_overflows) (simp_all add: zero_rcvr_def)

end
