(* ===== verification/Rtl_Hpsdr.thy ===== *)
theory Rtl_Hpsdr
  imports Hpsdr_Sender Double_Fp Convenience
begin

unbundle bit_operations_syntax

text \<open>
  The rest of the HPSDR server (src/src/rtl_hpsdr.c): the calibration, the options, what the program asks of
  the dongles, and the datagrams \<open>main\<close> reacts to.
\<close>

section \<open>Calibration\<close>

text \<open>The arithmetic on \<open>float\<close>: as \<open>fl\<close>, to 24 bits.\<close>

definition fl32 :: "rat \<Rightarrow> rat" where
  "fl32 x = (if x = 0 then 0
             else let u = pow2i (dbl_exp x - 23) in of_int (round_even (x / u)) * u)"

lemma fl32_rel_error: "\<bar>fl32 x - x\<bar> \<le> \<bar>x\<bar> / 2 ^ 24"
proof (cases "x = 0")
  case True
  then show ?thesis by (simp add: fl32_def)
next
  case False
  define u where "u = pow2i (dbl_exp x - 23)"
  have u: "0 < u" by (simp add: u_def)
  have "fl32 x - x = (of_int (round_even (x / u)) - x / u) * u"
    using False u by (simp add: fl32_def Let_def u_def [symmetric] field_simps)
  then have "\<bar>fl32 x - x\<bar> = \<bar>of_int (round_even (x / u)) - x / u\<bar> * u" using u by (simp add: abs_mult)
  also have "\<dots> \<le> 1 / 2 * u" using u by (intro mult_right_mono round_even_error) simp
  also have "1 / 2 * u = pow2i (dbl_exp x) * pow2i (- 24)"
    by (simp add: u_def pow2i_def power_int_diff power_int_minus field_simps)
  also have "\<dots> \<le> \<bar>x\<bar> * pow2i (- 24)" using dbl_exp_bounds(1) [OF False] by (intro mult_right_mono) simp_all
  finally show ?thesis by (simp add: pow2i_def power_int_minus field_simps)
qed

abbreviation (input) FFT_SIZE :: nat where "FFT_SIZE \<equiv> 65536"

text \<open>The state of \<open>do_cal_thr_func\<close>, with the parts of \<open>mcb\<close> it works on.\<close>

record cal =
  fft_averaged :: "rat list"
  freq_offset :: "int list"
  min_offset :: int
  max_offset :: int
  first_pass :: bool
  first_pass_mask :: nat
  flip :: "nat list"
  flip_offset0 :: "int list"
  flip_offset1 :: "int list"
  no_signal :: nat
  cal_mask :: nat

definition cal_init :: "int list \<Rightarrow> nat \<Rightarrow> cal" where
  "cal_init offsets active =
     \<lparr>fft_averaged = replicate FFT_SIZE 0, freq_offset = offsets, min_offset = 0, max_offset = 3000, first_pass = True,
      first_pass_mask = 0, flip = replicate MAX_RCVRS 0, flip_offset0 = replicate MAX_RCVRS 0,
      flip_offset1 = replicate MAX_RCVRS 0, no_signal = 0, cal_mask = active\<rparr>"

definition find_peak :: "rat list \<Rightarrow> nat \<Rightarrow> rat \<times> nat" where
  "find_peak averaged n =
     fold (\<lambda>i (last, n). let current = averaged ! ((i + FFT_SIZE div 2) mod FFT_SIZE) in if current > last then (current, i) else (last, n))
       [FFT_SIZE div 2 - 128..<FFT_SIZE div 2 + 128] (0, n)"

text \<open>One round for receiver \<open>r\<close> after its samples have come: \<open>fft n\<close> are the magnitudes FFTW gives for block \<open>n\<close>.
  The result has the new offset when there is one.\<close>

definition cal_round :: "(nat \<Rightarrow> rat list) \<Rightarrow> nat \<Rightarrow> int \<Rightarrow> nat \<Rightarrow> cal \<Rightarrow> int option \<times> cal" where
  "cal_round fft active calibrate r cal =
     (let bin = 375 / 16;
          averaged = fold (\<lambda>n _. fft n) [0..<(READ_COUNT div 2) div FFT_SIZE] (fft_averaged cal);
          (last, n) = find_peak averaged ((READ_COUNT div 2) div FFT_SIZE);
          current = fl32 (fl32 (of_int calibrate) + fl32 (of_int (int n - 32768) * bin));
          i = dbl_trunc current - calibrate;
          signal = (if n = FFT_SIZE div 2 \<and> current = fl32 (of_int calibrate) then no_signal cal + 1 else 0);
          cal = cal\<lparr>fft_averaged := averaged, cal_mask := cal_mask cal XOR push_bit r 1, no_signal := (if signal = 10 then 0 else signal)\<rparr>;
          d = \<bar>freq_offset cal ! r - i\<bar>
      in if i \<noteq> 0 \<and> d < max_offset cal \<and> d > min_offset cal \<and> i \<noteq> flip_offset1 cal ! r \<and> i \<noteq> flip_offset0 cal ! r
         then let cal = (if flip cal ! r = 2
                         then cal\<lparr>flip_offset0 := (flip_offset0 cal)[r := flip_offset1 cal ! r], flip_offset1 := (flip_offset1 cal)[r := i]\<rparr>
                         else (if flip cal ! r = 0 then cal\<lparr>flip_offset0 := (flip_offset0 cal)[r := i]\<rparr>
                               else cal\<lparr>flip_offset1 := (flip_offset1 cal)[r := i]\<rparr>)\<lparr>flip := (flip cal)[r := flip cal ! r + 1]\<rparr>);
                  cal = cal\<lparr>freq_offset := (freq_offset cal)[r := i]\<rparr>
              in (Some i, if first_pass cal
                  then let passed = first_pass_mask cal OR push_bit r 1 in
                    if passed = active then cal\<lparr>first_pass_mask := passed, first_pass := False, min_offset := 22, max_offset := 200\<rparr>
                    else cal\<lparr>first_pass_mask := passed\<rparr>
                  else cal)
         else (None, cal))"

lemma find_peak_silent: "find_peak (replicate FFT_SIZE 0) n = (0, n)"
proof -
  have "fold (\<lambda>i (last, n). let current = replicate FFT_SIZE 0 ! ((i + FFT_SIZE div 2) mod FFT_SIZE) in
       if current > last then (current, i) else (last, n)) xs (0 :: rat, n) = (0, n)" for xs
    by (induction xs) (simp_all add: nth_replicate Let_def)
  then show ?thesis unfolding find_peak_def .
qed

lemma measured_offset:
  assumes "\<bar>c\<bar> < 2 ^ 31"
  shows "\<bar>dbl_trunc (fl32 (fl32 (of_int c) + fl32 (of_int (int 0 - 32768) * (375 / 16)))) - c + 768000\<bar> \<le> 400"
proof -
  define x where "x = fl32 (of_int c)"
  define y where "y = fl32 (of_int (int 0 - 32768) * (375 / 16))"
  have "\<bar>c\<bar> < 2147483648" using assms by simp
  then have "of_int \<bar>c\<bar> < (of_int 2147483648 :: rat)" by (simp only: of_int_less_iff)
  then have c: "\<bar>of_int c :: rat\<bar> < 2147483648" by simp
  have x: "\<bar>x - of_int c\<bar> \<le> 128" using fl32_rel_error [of "of_int c"] c by (simp add: x_def)
  have y: "\<bar>y + 768000\<bar> \<le> 1" using fl32_rel_error [of "- 768000"] by (simp add: y_def)
  have z: "\<bar>fl32 (x + y) - (x + y)\<bar> \<le> 200"
  proof -
    have "\<bar>x + y\<bar> \<le> 2149000000" using c x y by linarith
    then show ?thesis using fl32_rel_error [of "x + y"] by simp
  qed
  have "\<bar>of_int (dbl_trunc (fl32 (x + y))) - of_int c + 768000 :: rat\<bar> < 331" using x y z dbl_trunc_error [of "fl32 (x + y)"] by linarith
  then have "\<bar>of_int (dbl_trunc (fl32 (x + y)) - c + 768000) :: rat\<bar> < of_int 331" by simp
  then show ?thesis unfolding x_def y_def by linarith
qed

text \<open>Nothing is measured and no offset is ever changed.\<close>

definition cal_idle :: "cal \<Rightarrow> bool" where
  "cal_idle cal \<longleftrightarrow> fft_averaged cal = replicate FFT_SIZE 0 \<and> max_offset cal = 3000"

lemma cal_round_idle:
  assumes "cal_idle cal" and "\<bar>calibrate\<bar> < 2 ^ 31" and "\<bar>freq_offset cal ! r\<bar> \<le> 700000"
  shows "cal_round fft m calibrate r cal = (None, cal\<lparr>cal_mask := cal_mask cal XOR push_bit r 1, no_signal := 0\<rparr>)"
proof -
  let ?i = "dbl_trunc (fl32 (fl32 (of_int calibrate) + fl32 (of_int (int 0 - 32768) * (375 / 16)))) - calibrate"
  have "\<bar>freq_offset cal ! r - ?i\<bar> \<ge> 3000" using measured_offset [OF assms(2)] assms(3) by linarith
  then show ?thesis using assms(1) unfolding cal_round_def cal_idle_def
    by (simp add: Let_def find_peak_silent)
qed

text \<open>C38: the calibration never changes an offset, whatever the spectrum is: a block of samples is shorter than the FFT, so that the loop
  around the FFT runs zero times.\<close>

theorem calibration_idle:
  assumes "list_all (\<lambda>x. \<bar>x\<bar> \<le> 700000) offsets" and "\<bar>calibrate\<bar> < 2 ^ 31" and "list_all (\<lambda>r. r < length offsets) rs"
  shows "freq_offset (fold (\<lambda>r c. snd (cal_round fft m calibrate r c)) rs (cal_init offsets m)) = offsets"
proof -
  have "cal_idle (fold (\<lambda>r c. snd (cal_round fft m calibrate r c)) rs c) \<and>
      freq_offset (fold (\<lambda>r c. snd (cal_round fft m calibrate r c)) rs c) = offsets"
    if "cal_idle c" "freq_offset c = offsets" for c using that assms(3)
  proof (induction rs arbitrary: c)
    case (Cons r rs)
    have "\<bar>freq_offset c ! r\<bar> \<le> 700000" using assms(1) Cons.prems by (auto simp: list_all_length)
    note step = cal_round_idle [OF Cons.prems(1) assms(2) this, of fft m]
    show ?case using Cons.IH [of "snd (cal_round fft m calibrate r c)"] Cons.prems unfolding fold_simps comp_apply step
      by (simp add: cal_idle_def)
  qed simp
  then show ?thesis by (simp add: cal_init_def cal_idle_def)
qed

text \<open>The hand-over between the callbacks and the calibrating thread. \<open>phase\<close> is where the thread is: waiting for a receiver, or waiting
  for the samples of one that is tuned. \<open>fft_from\<close> is the receiver whose buffer \<open>fft_buf\<close> is, \<open>measured\<close> the rounds made: the receiver
  and whose samples they used.\<close>

datatype phase = Waiting | Tuned nat

record calibrator =
  cal_state :: int
  cal_rcvr :: int
  rcvr_bits :: nat
  cal_count :: "nat list"
  do_cal_time :: nat
  fft_from :: nat
  phase :: phase
  measured :: "(nat \<times> nat) list"

definition calibrator_init :: "nat \<Rightarrow> calibrator" where
  "calibrator_init active = \<lparr>cal_state = - 1, cal_rcvr = - 1, rcvr_bits = active, cal_count = replicate MAX_RCVRS 0, do_cal_time = 5,
     fft_from = 0, phase = Waiting, measured = []\<rparr>"

text \<open>The part of the callback of receiver \<open>r\<close>; whether the samples go to the calibration.\<close>

definition cal_callback :: "nat \<Rightarrow> nat \<Rightarrow> calibrator \<Rightarrow> bool \<times> calibrator" where
  "cal_callback active r s =
     (let s = s\<lparr>cal_count := (cal_count s)[r := cal_count s ! r + 1]\<rparr> in
      if cal_rcvr s < 0 \<or> cal_rcvr s = int r
      then if cal_state s = - 2 then (True, s\<lparr>fft_from := r, cal_state := - 3\<rparr>)
           else let s = (if cal_state s = - 1
                         then if bit (rcvr_bits s) r \<and> cal_count s ! r > do_cal_time s * 20
                              then s\<lparr>cal_rcvr := int r, cal_state := int r\<rparr> else s
                         else if cal_state s = - 4
                         then s\<lparr>cal_state := - 1, cal_rcvr := - 1,
                                cal_count := (if \<not> bit (rcvr_bits s) r then (cal_count s)[r := 0] else cal_count s)\<rparr>
                         else s)
                in (False, if rcvr_bits s = 0
                           then s\<lparr>rcvr_bits := active, do_cal_time := (if do_cal_time s \<ge> 1800 then 1800 else do_cal_time s + 180)\<rparr> else s)
      else (False, s))"

inductive cal_step :: "nat \<Rightarrow> calibrator \<Rightarrow> calibrator \<Rightarrow> bool" for active where
  callback: "r < MAX_RCVRS \<Longrightarrow> cal_step active s (snd (cal_callback active r s))"
| tune: "phase s = Waiting \<Longrightarrow> 0 \<le> cal_state s \<Longrightarrow> cal_state s \<noteq> int MAX_RCVRS \<Longrightarrow>
    cal_step active s (s\<lparr>phase := Tuned (nat (cal_state s)), cal_state := - 2\<rparr>)"
| measure: "phase s = Tuned r \<Longrightarrow> cal_state s \<noteq> - 2 \<Longrightarrow>
    cal_step active s (s\<lparr>phase := Waiting, cal_state := - 4, rcvr_bits := rcvr_bits s XOR push_bit r 1,
      measured := measured s @ [(r, fft_from s)]\<rparr>)"

inductive_cases cal_stepE: "cal_step active s s'"

definition calibrator_ok :: "calibrator \<Rightarrow> bool" where
  "calibrator_ok s \<longleftrightarrow> (\<forall>(r, q) \<in> set (measured s). q = r) \<and>
     (case phase s of
        Waiting \<Rightarrow> cal_state s = - 1 \<and> cal_rcvr s = - 1 \<or> cal_state s = - 4 \<and> 0 \<le> cal_rcvr s \<and> cal_rcvr s < 7 \<or>
          0 \<le> cal_state s \<and> cal_state s < 7 \<and> cal_rcvr s = cal_state s
      | Tuned r \<Rightarrow> r < 7 \<and> cal_rcvr s = int r \<and> (cal_state s = - 2 \<or> cal_state s = - 3 \<and> fft_from s = r))"

lemma cal_callback_ok: "calibrator_ok s \<Longrightarrow> r < 7 \<Longrightarrow> calibrator_ok (snd (cal_callback active r s))"
  by (auto simp: calibrator_ok_def cal_callback_def Let_def split: phase.splits)

lemma cal_step_ok: "cal_step active s s' \<Longrightarrow> calibrator_ok s \<Longrightarrow> calibrator_ok s'"
  by (erule cal_stepE) (auto simp: cal_callback_ok, auto simp: calibrator_ok_def)

text \<open>The samples a round works on are those of the receiver that was tuned to the calibration frequency, and the thread is never
  told to exit by a receiver number.\<close>

theorem calibration_own_samples:
  assumes "(cal_step active)\<^sup>*\<^sup>* (calibrator_init active) s"
  shows "(\<forall>(r, q) \<in> set (measured s). q = r) \<and> cal_state s < 7 \<and>
    (\<forall>r. phase s = Tuned r \<longrightarrow> cal_rcvr s = int r)"
proof -
  have "calibrator_ok s" using assms
    by (induction rule: rtranclp_induct) (auto simp: cal_step_ok, simp add: calibrator_ok_def calibrator_init_def)
  then show ?thesis by (auto simp: calibrator_ok_def split: phase.splits)
qed

section \<open>Options\<close>

text \<open>\<open>strtok\<close> with a comma.\<close>

function tokens :: "string \<Rightarrow> string list" where
  "tokens [] = []"
| "tokens (c # s) = (if c = CHR 0x2C then tokens s
     else takeWhile (\<lambda>d. d \<noteq> CHR 0x2C) (c # s) # tokens (dropWhile (\<lambda>d. d \<noteq> CHR 0x2C) s))"
  by pat_completeness auto
termination by (relation "measure length") (auto simp: less_Suc_eq_le length_dropWhile_le)

text \<open>The eighth value of an option is the last one given, which the receivers without one get. \<open>None\<close>: a parameter of more than
  127 characters is copied over its end.\<close>

definition set_option_with :: "(string \<Rightarrow> int) \<Rightarrow> int list \<Rightarrow> string \<Rightarrow> (nat \<times> int list) option" where
  "set_option_with val option value =
     (let params = take MAX_RCVRS (tokens value) in
      if \<exists>p \<in> set params. 128 \<le> length p then None
      else Some (length params,
        fold (\<lambda>i option. if i < length params then option[i := val (params ! i), MAX_RCVRS := val (params ! i)]
                          else option[i := option ! MAX_RCVRS])
          [0..<MAX_RCVRS] option))"

definition set_option :: "int list \<Rightarrow> string \<Rightarrow> (nat \<times> int list) option" where
  "set_option = set_option_with atoi"

definition set_gain_option :: "int list \<Rightarrow> string \<Rightarrow> (nat \<times> int list) option" where
  "set_gain_option = set_option_with (\<lambda>p. dbl_trunc (fl (atof p * 10)))"

lemma set_option_fold:
  assumes "length option = 8" and "length vals \<le> 7"
  shows "m \<le> 7 \<Longrightarrow> fold (\<lambda>i option. if i < length vals then option[i := vals ! i, 7 := vals ! i] else option[i := option ! 7]) [0..<m] option =
    map (\<lambda>i. if i < m then (if i < length vals then vals ! i else last (option ! 7 # vals))
        else if i = 7 then (if m < length vals then last (option ! 7 # take m vals) else last (option ! 7 # vals)) else option ! i) [0..<8]"
proof (induction m)
  case 0
  then show ?case using assms by (intro nth_equalityI) (auto simp: less_Suc_eq)
next
  case (Suc m)
  show ?case
  proof (cases "m < length vals")
    case True
    then have "take (Suc m) vals = take m vals @ [vals ! m]" by (simp add: take_Suc_conv_app_nth)
    moreover have "length vals = Suc m \<Longrightarrow> last vals = vals ! m" using last_conv_nth [of vals] True by (cases "vals = []") auto
    ultimately show ?thesis using Suc True by (intro nth_equalityI) (auto simp: nth_list_update less_Suc_eq)
  next
    case False
    then show ?thesis using Suc by (intro nth_equalityI) (auto simp: nth_list_update less_Suc_eq)
  qed
qed

text \<open>Receiver \<open>i\<close> gets its own value, or the last one given.\<close>

lemma set_option_values:
  assumes "length option = 8" and "set_option_with val option value = Some (count, option')" and "i \<le> 7"
  shows "count = min 7 (length (tokens value))"
    "option' ! i = (if i < count then val (tokens value ! i) else if count = 0 then option ! 7 else val (tokens value ! (count - 1)))"
proof -
  let ?vals = "map val (take 7 (tokens value))"
  show c: "count = min 7 (length (tokens value))" using assms(2) by (auto simp: set_option_with_def Let_def min.commute split: if_splits)
  have "option' = fold (\<lambda>i option. if i < length ?vals then option[i := ?vals ! i, 7 := ?vals ! i] else option[i := option ! 7]) [0..<7] option"
    using assms(2) by (auto simp: set_option_with_def Let_def split: if_splits intro!: fold_cong)
  also have "\<dots> = map (\<lambda>i. if i < 7 then (if i < length ?vals then ?vals ! i else last (option ! 7 # ?vals))
        else if i = 7 then last (option ! 7 # ?vals) else option ! i) [0..<8]"
    using assms(1) by (subst set_option_fold) auto
  finally show "option' ! i = (if i < count then val (tokens value ! i) else if count = 0 then option ! 7 else val (tokens value ! (count - 1)))"
    using assms(3) c by (auto simp: last_conv_nth min_def)
qed

section \<open>The dongles\<close>

text \<open>Calls of which the first that fails ends the function with -1.\<close>

primrec stop_at :: "('s, int) prog list \<Rightarrow> ('s, int) prog" where
  "stop_at [] = ret 0"
| "stop_at (m # ms) = do { r \<leftarrow> m; if r < 0 then ret (- 1) else stop_at ms }"

text \<open>The settings of a receiver, and the ones \<open>update_config\<close> has remembered.\<close>

record settings =
  if_bw :: int
  gain :: int
  gain_mode :: int
  freq_offs :: int
  agc_mode :: int
  bias_t :: int
  direct_mode :: int
  center_freq :: int

record conf =
  now :: settings
  before :: settings
  use_up :: bool
  new_freqs :: int
  curr_freq :: int

definition u32_arg :: "int \<Rightarrow> nat" where
  "u32_arg x = nat (x mod 2 ^ 32)"

definition set_rcvr_gain :: "'h usb_ops \<Rightarrow> settings \<Rightarrow> ('h rtlsdr, int) prog" where
  "set_rcvr_gain U c = (if gain_mode c > 0 then verbose_auto_gain U else verbose_gain_set U (gain c))"

text \<open>After \<open>rtlsdr_open\<close>; the result of the first tuning is not looked at.\<close>

definition init_rtl :: "'h usb_ops \<Rightarrow> int \<Rightarrow> settings \<Rightarrow> ('h rtlsdr, int \<times> settings) prog" where
  "init_rtl U up_xtal c = do {
     let bw = (if if_bw c = 0 then 300000 else if_bw c);
     r \<leftarrow> rtlsdr_set_tuner_bandwidth U (u32_arg bw);
     if r < 0 then ret (- 1, c)
     else do {
       r \<leftarrow> stop_at
         [rtlsdr_set_sample_rate U 1536000, set_rcvr_gain U c,
          do { _ \<leftarrow> rtlsdr_set_center_freq U (u32_arg (110000000 + up_xtal)); ret 0 },
          rtlsdr_set_direct_sampling U (direct_mode c), rtlsdr_set_agc_mode U (agc_mode c \<noteq> 0),
          rtlsdr_set_bias_tee U (bias_t c \<noteq> 0), rtlsdr_reset_buffer U];
       ret (r, c\<lparr>if_bw := bw\<rparr>) } }"

definition update_config :: "conf \<Rightarrow> conf" where
  "update_config c = c\<lparr>before := now c\<rparr>"

definition update_dongle :: "'h usb_ops \<Rightarrow> conf \<Rightarrow> ('h rtlsdr, int \<times> conf) prog" where
  "update_dongle U c = do {
     r \<leftarrow> set_rcvr_gain U (now c);
     if r < 0 then ret (- 1, c)
     else do {
       f \<leftarrow> rtlsdr_get_center_freq;
       let last = to_int32 (int f);
       let freq = to_int32 (last - freq_offs (before c) + freq_offs (now c));
       r \<leftarrow> stop_at
         [rtlsdr_set_center_freq U (u32_arg freq), rtlsdr_set_direct_sampling U (direct_mode (now c)),
          rtlsdr_set_agc_mode U (agc_mode (now c) \<noteq> 0), rtlsdr_set_bias_tee U (bias_t (now c) \<noteq> 0)];
       ret (r, c\<lparr>now := (now c)\<lparr>center_freq := freq\<rparr>, before := (before c)\<lparr>center_freq := last\<rparr>\<rparr>) } }"

text \<open>The pending frequency at the end of a turn of the sender.\<close>

definition set_pending :: "'h usb_ops \<Rightarrow> int \<Rightarrow> conf \<Rightarrow> ('h rtlsdr, conf) prog" where
  "set_pending U up_xtal c =
     (if new_freqs c \<noteq> 0 \<and> new_freqs c \<noteq> 110000000
      then do {
        _ \<leftarrow> rtlsdr_set_center_freq U (u32_arg (new_freqs c + freq_offs (now c) + (if use_up c then up_xtal else 0)));
        ret (c\<lparr>curr_freq := new_freqs c, new_freqs := 0\<rparr>) }
      else ret c)"

lemma u32_arg_less [simp]: "u32_arg x < 4294967296"
  by (simp add: u32_arg_def nat_less_iff)

lemma always_stop_at [always_rules]: "(\<And>m. m \<in> set ms \<Longrightarrow> always I m) \<Longrightarrow> always I (stop_at ms)"
  by (induction ms) (auto intro!: always_rules)

lemma set_rcvr_gain_keeps [lib_rules]: "always (lib_inv True t) (set_rcvr_gain U c)"
  unfolding set_rcvr_gain_def verbose_auto_gain_def verbose_gain_set_def by (intro always_rules lib_rules)

lemma init_rtl_keeps: "always (lib_inv True t) (init_rtl U up_xtal c)"
  unfolding init_rtl_def rtlsdr_set_bias_tee_def rtlsdr_reset_buffer_def rtlsdr_set_agc_mode_def
  by (intro always_rules lib_rules) (auto intro!: always_rules lib_rules)

lemma update_dongle_keeps: "always (lib_inv True t) (update_dongle U c)"
  unfolding update_dongle_def rtlsdr_set_bias_tee_def rtlsdr_set_agc_mode_def rtlsdr_get_center_freq_def
  by (intro always_rules lib_rules) (auto intro!: always_rules lib_rules)

lemma set_pending_keeps: "always (lib_inv True t) (set_pending U up_xtal c)"
  unfolding set_pending_def by (intro always_rules lib_rules) simp

text \<open>What the program asks of a dongle after it was set up.\<close>

datatype request = Pending int bool | Calibrate int | Update

definition request_run :: "'h usb_ops \<Rightarrow> int \<Rightarrow> request \<Rightarrow> conf \<Rightarrow> ('h rtlsdr, conf) prog" where
  "request_run U up_xtal q c =
     (case q of
        Pending freq up \<Rightarrow> set_pending U up_xtal (c\<lparr>new_freqs := freq, use_up := up\<rparr>)
      | Calibrate freq \<Rightarrow> do { _ \<leftarrow> rtlsdr_set_center_freq U (u32_arg freq); ret c }
      | Update \<Rightarrow> do { (_, c) \<leftarrow> update_dongle U c; ret (update_config c) })"

fun requests :: "'h usb_ops \<Rightarrow> int \<Rightarrow> request list \<Rightarrow> conf \<Rightarrow> ('h rtlsdr, conf) prog" where
  "requests U up_xtal [] c = ret c"
| "requests U up_xtal (q # qs) c = do { c \<leftarrow> request_run U up_xtal q c; requests U up_xtal qs c }"

lemma requests_keep: "always (lib_inv True t) (requests U up_xtal qs c)"
proof (induction qs arbitrary: c)
  case (Cons q qs)
  have "always (lib_inv True t) (request_run U up_xtal q c)"
    unfolding request_run_def by (cases q) (auto intro!: always_rules lib_rules set_pending_keeps update_dongle_keeps)
  then show ?case using Cons.IH by (auto intro!: always_rules)
qed (auto intro!: always_rules)

theorem dongle_requests_safe:
  assumes "rtlsdr_open U H h index = (r, Some s)"
  shows "\<not> d_fault (snd (run_state (do { (_, c') \<leftarrow> init_rtl U up_xtal (now c); requests U up_xtal qs (c\<lparr>now := c'\<rparr>) }) s))"
proof -
  obtain t where "lib_inv True t s" using rtlsdr_open_inv [OF assms(1)] by blast
  moreover have "always (lib_inv True t) (do { (_, c') \<leftarrow> init_rtl U up_xtal (now c); requests U up_xtal qs (c\<lparr>now := c'\<rparr>) })"
    by (auto intro!: always_rules init_rtl_keeps requests_keep)
  ultimately have "lib_inv True t (snd (run_state (do { (_, c') \<leftarrow> init_rtl U up_xtal (now c); requests U up_xtal qs (c\<lparr>now := c'\<rparr>) }) s))"
    unfolding always_def by blast
  then show ?thesis by (simp add: lib_inv_def)
qed

section \<open>The configuration file\<close>

record config =
  direct_modes :: "int list"
  gains :: "int list"
  freq_offsets :: "int list"
  agc_modes :: "int list"
  bias_ts :: "int list"
  rcvr_order :: "int list"
  use_ups :: "int list"
  if_bws :: "int list"
  gain_modes :: "int list"
  sound_dev :: string
  total_rcvrs :: int
  up_xtal_freq :: int
  calibrate_freq :: int

text \<open>\<open>sscanf\<close> with two words.\<close>

definition next_word :: "string \<Rightarrow> string \<times> string" where
  "next_word s = (let t = dropWhile isspace s in (takeWhile (\<lambda>c. \<not> isspace c) t, dropWhile (\<lambda>c. \<not> isspace c) t))"

text \<open>One line as \<open>fgets\<close> gives it, of at most 127 characters; \<open>None\<close>: a parameter does not fit.\<close>

definition config_line :: "string \<Rightarrow> config \<Rightarrow> config option" where
  "config_line line c =
     (if CHR ''#'' \<in> set line then Some c
      else let (option, rest) = next_word line; value = fst (next_word rest); list = (\<lambda>old. map_option snd (set_option old value)) in
        if option = ''direct_mode'' then map_option (\<lambda>v. c\<lparr>direct_modes := v\<rparr>) (list (direct_modes c))
        else if option = ''tuner_gain'' then map_option (\<lambda>(_, v). c\<lparr>gains := v\<rparr>) (set_gain_option (gains c) value)
        else if option = ''freq_offset'' then map_option (\<lambda>v. c\<lparr>freq_offsets := v\<rparr>) (list (freq_offsets c))
        else if option = ''agc_mode'' then map_option (\<lambda>v. c\<lparr>agc_modes := v\<rparr>) (list (agc_modes c))
        else if option = ''bias_t'' then map_option (\<lambda>v. c\<lparr>bias_ts := v\<rparr>) (list (bias_ts c))
        else if option = ''rcvr_order'' then map_option (\<lambda>v. c\<lparr>rcvr_order := v\<rparr>) (list (rcvr_order c))
        else if option = ''sound_dev'' then Some (c\<lparr>sound_dev := value\<rparr>)
        else if option = ''total_num_rcvrs'' then Some (c\<lparr>total_rcvrs := atoi value\<rparr>)
        else if option = ''up_xtal'' then Some (c\<lparr>up_xtal_freq := atoi value\<rparr>)
        else if option = ''use_up'' then map_option (\<lambda>v. c\<lparr>use_ups := v\<rparr>) (list (use_ups c))
        else if option = ''calibrate'' then Some (c\<lparr>calibrate_freq := atoi value\<rparr>)
        else if option = ''if_bw'' then map_option (\<lambda>v. c\<lparr>if_bws := v\<rparr>) (list (if_bws c))
        else if option = ''gain_mode'' then map_option (\<lambda>v. c\<lparr>gain_modes := v\<rparr>) (list (gain_modes c))
        else Some c)"

definition parse_config :: "string list \<Rightarrow> config \<Rightarrow> config option" where
  "parse_config lines c = fold (\<lambda>line r. Option.bind r (config_line line)) lines (Some c)"

definition config_ok :: "config \<Rightarrow> bool" where
  "config_ok c \<longleftrightarrow> list_all (\<lambda>xs. length xs = 8) [direct_modes c, gains c, freq_offsets c, agc_modes c, bias_ts c, rcvr_order c, use_ups c,
     if_bws c, gain_modes c]"

lemma tokens_length: "p \<in> set (tokens s) \<Longrightarrow> length p \<le> length s"
proof (induction s rule: tokens.induct)
  case (2 c s)
  have "length (takeWhile (\<lambda>d. d \<noteq> CHR 0x2C) s) \<le> length s" "length (dropWhile (\<lambda>d. d \<noteq> CHR 0x2C) s) \<le> length s"
    by (simp_all add: length_takeWhile_le length_dropWhile_le)
  then show ?case using 2 by (auto split: if_splits)
qed simp

lemma set_option_fits:
  assumes "length value < 128" and "length old = 8"
  shows "\<exists>n new. set_option_with val old value = Some (n, new) \<and> length new = 8"
proof -
  have "\<not> (\<exists>p \<in> set (take 7 (tokens value)). 128 \<le> length p)" using assms(1) tokens_length set_take_subset by fastforce
  moreover have "length (fold (\<lambda>i option. if P i then option[i := f i, 7 := f i] else option[i := option ! 7]) xs old) = 8" for P f xs
    using assms(2) by (induction xs arbitrary: old) simp_all
  ultimately show ?thesis by (simp add: set_option_with_def Let_def)
qed

lemma next_word_length: "length (fst (next_word s)) \<le> length s" "length (snd (next_word s)) \<le> length s"
  using length_takeWhile_le [of "\<lambda>c. \<not> isspace c" "dropWhile isspace s"] length_dropWhile_le [of "\<lambda>c. \<not> isspace c" "dropWhile isspace s"]
    length_dropWhile_le [of isspace s] by (simp_all add: next_word_def Let_def)

lemma config_line_ok:
  assumes "length line < 128" and "config_ok c"
  shows "\<exists>c'. config_line line c = Some c' \<and> config_ok c'"
proof -
  let ?arg = "fst (next_word (snd (next_word line)))"
  have "length ?arg < 128" using assms(1) next_word_length(1) [of "snd (next_word line)"] next_word_length(2) [of line] by linarith
  note fits = set_option_fits [OF this]
  have l: "\<exists>new. set_option old ?arg = Some new \<and> length (snd new) = 8" "\<exists>new. set_gain_option old ?arg = Some new \<and> length (snd new) = 8"
    if "length old = 8" for old using fits [OF that] unfolding set_option_def set_gain_option_def by fastforce+
  show ?thesis using assms(2) l [of "direct_modes c"] l [of "gains c"] l [of "freq_offsets c"] l [of "agc_modes c"] l [of "bias_ts c"]
    l [of "rcvr_order c"] l [of "use_ups c"] l [of "if_bws c"] l [of "gain_modes c"]
    unfolding config_ok_def by (simp add: config_line_def Let_def split_def) (elim conjE exE, auto)
qed

text \<open>A configuration file never writes past its buffers, whatever it contains: \<open>fgets\<close> keeps its lines short.\<close>

theorem parse_config_safe:
  assumes "list_all (\<lambda>line. length line < 128) lines" and "config_ok c"
  shows "\<exists>c'. parse_config lines c = Some c' \<and> config_ok c'"
  using assms
proof (induction lines rule: rev_induct)
  case (snoc line lines)
  then obtain c1 where "parse_config lines c = Some c1" "config_ok c1" by auto
  then show ?case using config_line_ok [of line c1] snoc.prems by (simp add: parse_config_def)
qed (simp add: parse_config_def)

section \<open>Datagrams\<close>

text \<open>\<open>to_addr\<close> is the client the frames go to. The thread of \<open>handler_ep6\<close> is taken to end when it is told to, which
  \<open>main\<close> waits for.\<close>

record server =
  datagram :: "u8 list"
  control :: hpsdr
  enable_thread :: bool
  active_thread :: bool
  to_addr :: nat
  ep6_flags :: nat
  last_seqnum :: nat

definition server_init :: "nat \<Rightarrow> server" where
  "server_init n = \<lparr>datagram = replicate 2048 0, control = hpsdr_init n, enable_thread = False, active_thread = False, to_addr = 0,
     ep6_flags = 0, last_seqnum = 2 ^ 32 - 1\<rparr>"

definition discovery_reply :: "u8 list" where
  "discovery_reply = [0xEF, 0xFE, 2, 0x00, 0x1C, 0xC0, 0xA2, 0x10, 0xDD, 32, 5] @ replicate 49 0"

definition be_seqnum :: "u8 list \<Rightarrow> nat" where
  "be_seqnum b = unat (b ! 4) * 2 ^ 24 + unat (b ! 5) * 2 ^ 16 + unat (b ! 6) * 2 ^ 8 + unat (b ! 7)"

text \<open>One datagram of \<open>bytes_read = length bs > 0\<close> bytes: the answer and the new state; \<open>None\<close>, the program exits.
  The variable \<open>oldnew\<close> is 1 and \<open>new_protocol_running\<close> returns 0, so that packets of the new protocol are only reported, like invalid ones.\<close>

definition handle_packet :: "nat \<Rightarrow> u8 list \<Rightarrow> server \<Rightarrow> (u8 list option \<times> server) option" where
  "handle_packet addr_from bs s =
     (let buffer = overlay (overlay (datagram s) [0xEF, 0xFE, 1, 6]) bs; s = s\<lparr>datagram := buffer\<rparr>; code = take 4 buffer in
      if code = [0xEF, 0xFE, 1, 2]
      then if length bs \<noteq> 1032 then Some (None, s)
           else map_option (\<lambda>h. (None, s\<lparr>last_seqnum := be_seqnum buffer, control := h\<rparr>)) (process_ep2 buffer (control s))
      else if code = [0xEF, 0xFE, 2, 0]
      then if length bs \<noteq> 63 then Some (None, s)
           else Some (Some discovery_reply, s\<lparr>datagram := overlay buffer discovery_reply\<rparr>)
      else if code = [0xEF, 0xFE, 4, 0]
      then if length bs \<noteq> 64 then Some (None, s) else Some (None, s\<lparr>enable_thread := False, active_thread := False\<rparr>)
      else if code \<in> {[0xEF, 0xFE, 4, 1], [0xEF, 0xFE, 4, 2], [0xEF, 0xFE, 4, 3]}
      then if length bs \<noteq> 64 then Some (None, s)
           else Some (None, s\<lparr>ep6_flags := rcvrs_mask (control s), to_addr := addr_from, enable_thread := True, active_thread := True\<rparr>)
      else Some (None, s))"

definition session_state :: "server \<Rightarrow> hpsdr \<times> bool \<times> bool \<times> nat \<times> nat \<times> nat" where
  "session_state s = (control s, enable_thread s, active_thread s, to_addr s, ep6_flags s, last_seqnum s)"

lemma take_overlay: "n \<le> length bs \<Longrightarrow> take n (overlay buf bs) = take n bs"
  by (simp add: overlay_def)

lemma short_code:
  assumes "length bs < 4" and "bs \<noteq> []"
  shows "take 4 (overlay (overlay buf [0xEF, 0xFE, 1, 6]) bs) ! 3 = (6 :: u8)"
proof -
  have "0 < length bs" using assms(2) by simp
  then have "length bs = 1 \<or> length bs = 2 \<or> length bs = 3" using assms(1) by linarith
  then show ?thesis by (auto simp: overlay_def nth_append)
qed

lemma process_ep2_cong:
  assumes "\<And>i. i < 528 \<Longrightarrow> b ! i = b' ! i"
  shows "process_ep2 b h = process_ep2 b' h" "ep2_settings b = ep2_settings b'"
    "ep2_settings b = Some offset \<Longrightarrow> b ! (15 + offset) = b' ! (15 + offset)"
proof -
  have be: "be32 b (12 + (if c = 0 then 0 else 512)) = be32 b' (12 + (if c = 0 then 0 else 512))" for c :: nat
    by (cases "c = 0") (simp_all add: be32_def assms)
  have freq: "ep2_freq b c = ep2_freq b' c" for c
    unfolding ep2_freq_def be by (simp only: assms rel_simps)
  have half: "ep2_half b c = ep2_half b' c" for c
    by (intro ext) (simp add: ep2_half_def freq Let_def assms)
  show "process_ep2 b h = process_ep2 b' h" by (simp add: process_ep2_def half)
  show "ep2_settings b = ep2_settings b'" by (simp add: ep2_settings_def assms)
  show "ep2_settings b = Some offset \<Longrightarrow> b ! (15 + offset) = b' ! (15 + offset)"
    by (rule assms) (auto simp: ep2_settings_def split: if_splits)
qed

text \<open>C27: what \<open>main\<close> does with a datagram of any length and contents: a control packet of the right length goes to
  \<open>process_ep2\<close>, a discovery request of 63 bytes is answered, start and stop packets of 64 bytes switch the sending thread, and
  everything else changes nothing.\<close>

theorem datagram_effects:
  assumes ok: "hpsdr_ok (control s)" and bs: "bs \<noteq> []" "length bs \<le> 1032" and buf: "length (datagram s) = 2048"
  shows "case handle_packet addr bs s of
      None \<Rightarrow> length bs = 1032 \<and> take 4 bs = [0xEF, 0xFE, 1, 2] \<and>
        (\<exists>offset. ep2_settings bs = Some offset \<and> rcvrs_requested (bs ! (15 + offset)) = 8)
    | Some (reply, s') \<Rightarrow> hpsdr_ok (control s') \<and> length (datagram s') = 2048 \<and>
        (if length bs = 1032 \<and> take 4 bs = [0xEF, 0xFE, 1, 2]
         then reply = None \<and> Some (control s') = process_ep2 bs (control s) \<and> to_addr s' = to_addr s \<and> enable_thread s' = enable_thread s
         else if length bs = 63 \<and> take 4 bs = [0xEF, 0xFE, 2, 0] then reply = Some discovery_reply \<and> session_state s' = session_state s
         else reply = None \<and> control s' = control s \<and>
           (if length bs = 64 \<and> take 4 bs = [0xEF, 0xFE, 4, 0] then \<not> enable_thread s' \<and> \<not> active_thread s'
            else if length bs = 64 \<and> take 4 bs \<in> {[0xEF, 0xFE, 4, 1], [0xEF, 0xFE, 4, 2], [0xEF, 0xFE, 4, 3]}
            then enable_thread s' \<and> active_thread s' \<and> to_addr s' = addr
            else session_state s' = session_state s))"
proof (cases "length bs < 4")
  case True
  let ?code = "take 4 (overlay (overlay (datagram s) [0xEF, 0xFE, 1, 6]) bs)"
  have three: "?code ! 3 = 6" by (rule short_code [OF True bs(1)])
  have "?code \<noteq> [0xEF, 0xFE, x, y]" if "y \<noteq> 6" for x y
  proof
    assume "?code = [0xEF, 0xFE, x, y]"
    then have "?code ! 3 = y" by simp
    then show False using three that by simp
  qed
  then have "handle_packet addr bs s = Some (None, s\<lparr>datagram := overlay (overlay (datagram s) [0xEF, 0xFE, 1, 6]) bs\<rparr>)"
    by (simp add: handle_packet_def Let_def)
  then show ?thesis using True ok buf by (simp add: session_state_def)
next
  case False
  let ?buf = "overlay (overlay (datagram s) [0xEF, 0xFE, 1, 6]) bs"
  have code: "take 4 ?buf = take 4 bs" using False by (intro take_overlay) simp
  have len: "length ?buf = 2048" using bs(2) buf by simp
  show ?thesis
  proof (cases "take 4 bs = [0xEF, 0xFE, 1, 2]")
    case ep2: True
    show ?thesis
    proof (cases "length bs = 1032")
      case True
      have same: "\<And>i. i < 528 \<Longrightarrow> ?buf ! i = bs ! i" using True by (simp add: overlay_def nth_append)
      note cong = process_ep2_cong [OF same]
      have e: "handle_packet addr bs s =
          map_option (\<lambda>h. (None, s\<lparr>datagram := ?buf, last_seqnum := be_seqnum ?buf, control := h\<rparr>)) (process_ep2 bs (control s))"
        using code ep2 True by (simp add: handle_packet_def Let_def cong(1))
      show ?thesis
      proof (cases "process_ep2 bs (control s)")
        case None
        then show ?thesis using process_ep2_None [OF ok None] True ep2 unfolding e by simp
      next
        case (Some h)
        then show ?thesis using process_ep2_ok [OF ok Some] True ep2 len unfolding e by simp
      qed
    next
      case False
      then show ?thesis using code ep2 ok len by (simp add: handle_packet_def Let_def session_state_def)
    qed
  next
    case False
    consider "take 4 bs = [0xEF, 0xFE, 2, 0]" | "take 4 bs = [0xEF, 0xFE, 4, 0]" |
        "take 4 bs \<in> {[0xEF, 0xFE, 4, 1], [0xEF, 0xFE, 4, 2], [0xEF, 0xFE, 4, 3]}" |
        "take 4 bs \<notin> {[0xEF, 0xFE, 1, 2], [0xEF, 0xFE, 2, 0], [0xEF, 0xFE, 4, 0], [0xEF, 0xFE, 4, 1], [0xEF, 0xFE, 4, 2], [0xEF, 0xFE, 4, 3]}"
      using False by blast
    then show ?thesis
    proof cases
      case 1
      then show ?thesis using code ok len by (simp add: handle_packet_def Let_def session_state_def discovery_reply_def)
    next
      case 2
      then show ?thesis using code ok len by (simp add: handle_packet_def Let_def session_state_def)
    next
      case 3
      then show ?thesis using code ok len by (elim insertE emptyE) (simp_all add: handle_packet_def Let_def session_state_def)
    next
      case 4
      then show ?thesis using code ok len by (simp add: handle_packet_def Let_def session_state_def)
    qed
  qed
qed

theorem calibration_idle_witness:
  "freq_offset (fold (\<lambda>r c. snd (cal_round (\<lambda>_. replicate 65536 5) 3 144390000 r c)) [0, 1, 0] (cal_init [0, - 250] 3)) = [0, - 250]"
  by (rule calibration_idle) simp_all

theorem datagram_effects_witness:
  "\<exists>s'. handle_packet 9 ([0xEF, 0xFE, 2] @ replicate 60 0) (server_init 2) = Some (Some discovery_reply, s') \<and>
    session_state s' = session_state (server_init 2)"
proof -
  have "hpsdr_ok (hpsdr_init 2)" by (rule hpsdr_init_ok) simp_all
  then have "hpsdr_ok (control (server_init 2))" by (simp add: server_init_def)
  from datagram_effects [OF this, of "[0xEF, 0xFE, 2] @ replicate 60 0" 9] show ?thesis
    by (auto simp: server_init_def split: option.splits)
qed

end
