(* ===== verification/Rtl_Fm_Control.thy ===== *)
theory Rtl_Fm_Control
  imports Rtl_Fm Convenience
begin

unbundle bit_operations_syntax

text \<open>
  The control of rtl_fm (src/src/rtl_fm.c): the list of frequencies on the command line, the squelch, and the
  controller that hops from one frequency to the next.
\<close>

section \<open>The list of frequencies\<close>

text \<open>\<open>freqs\<close> has 1000 entries; a write after them is \<open>None\<close>, and so is a conversion of a number out of range.\<close>

definition push_freq :: "nat \<Rightarrow> nat list \<Rightarrow> nat list option" where
  "push_freq freq freqs = (if length freqs < 1000 then Some (freqs @ [freq]) else None)"

definition to_u32 :: "rat \<Rightarrow> nat option" where
  "to_u32 x = (let v = dbl_trunc x in if 0 \<le> v \<and> v < 2 ^ 32 then Some (nat v) else None)"

definition to_i32 :: "rat \<Rightarrow> int option" where
  "to_i32 x = (let v = dbl_trunc x in if - (2 ^ 31) \<le> v \<and> v < 2 ^ 31 then Some v else None)"

function range_loop :: "int \<Rightarrow> int \<Rightarrow> int \<Rightarrow> nat list \<Rightarrow> nat list option" where
  "range_loop i stop step freqs =
     (if i \<le> stop
      then if 1000 \<le> length freqs then None
           else let freqs = freqs @ [nat (i mod 2 ^ 32)] in
             if 1000 \<le> length freqs then Some freqs
             else if i + step < 2 ^ 31 \<and> - (2 ^ 31) \<le> i + step then range_loop (i + step) stop step freqs else None
      else Some freqs)"
  by pat_completeness auto
termination by (relation "measure (\<lambda>(i, stop, step, freqs). 1000 - length freqs)") auto

declare range_loop.simps [simp del]

definition upto_colon :: "string \<Rightarrow> string" where
  "upto_colon s = takeWhile (\<lambda>c. c \<noteq> CHR 0x3A) s"

definition after_colon :: "string \<Rightarrow> string option" where
  "after_colon s = (case dropWhile (\<lambda>c. c \<noteq> CHR 0x3A) s of [] \<Rightarrow> None | _ # t \<Rightarrow> Some t)"

definition fm_frequency_range :: "string \<Rightarrow> nat list \<Rightarrow> nat list option" where
  "fm_frequency_range arg freqs =
     (case after_colon arg of
        None \<Rightarrow> Option.bind (Option.bind (atofs arg) to_u32) (\<lambda>f. push_freq f freqs)
      | Some rest \<Rightarrow>
          (case after_colon rest of
             None \<Rightarrow> Option.bind (Option.bind (atofs (upto_colon arg)) to_u32) (\<lambda>f.
               Option.bind (push_freq f freqs) (\<lambda>freqs.
               Option.bind (Option.bind (atofs rest) to_u32) (\<lambda>g. push_freq g freqs)))
           | Some step \<Rightarrow> Option.bind (Option.bind (atofs (upto_colon arg)) to_i32) (\<lambda>i.
               Option.bind (Option.bind (atofs (upto_colon rest)) to_i32) (\<lambda>stop.
               Option.bind (Option.bind (atofs step) to_i32) (\<lambda>step. range_loop i stop step freqs)))))"

lemma range_loop_freqs:
  "0 < step \<Longrightarrow> 0 \<le> i \<Longrightarrow> stop + step < 2 ^ 31 \<Longrightarrow> length freqs < 1000 \<Longrightarrow>
    range_loop i stop step freqs = Some (freqs @ map (\<lambda>k. nat (i + int k * step))
      [0..<min (1000 - length freqs) (if i \<le> stop then nat ((stop - i) div step + 1) else 0)])"
proof (induction i stop step freqs rule: range_loop.induct)
  case (1 i stop step freqs)
  note step = 1(2)
  show ?case
  proof (cases "i \<le> stop")
    case False
    then show ?thesis by (simp add: range_loop.simps)
  next
    case True
    then have i: "i < 2 ^ 31" using 1(4) step by (simp, linarith?)
    let ?f = "freqs @ [nat i]"
    have m: "nat (i mod 2 ^ 32) = nat i" using 1(3) i by simp
    have d: "(stop - i) div step = (if i + step \<le> stop then (stop - (i + step)) div step + 1 else 0)"
      using True step div_add_self2 [of step "stop - (i + step)"] by (auto simp: div_pos_pos_trivial algebra_simps)
    show ?thesis
    proof (cases "length freqs = 999")
      case l: True
      have "0 \<le> (stop - i) div step" using True step by (simp add: pos_imp_zdiv_nonneg_iff)
      then have "min (1000 - length freqs) (nat ((stop - i) div step + 1)) = 1" using l by simp
      then show ?thesis using True l m by (simp add: range_loop.simps)
    next
      case l: False
      then have l': "length ?f < 1000" using 1(5) by simp
      have fits: "i + step < 2 ^ 31 \<and> - (2 ^ 31) \<le> i + step" using True 1(3,4) step by (simp, linarith?)
      let ?n = "min (1000 - length ?f) (if i + step \<le> stop then nat ((stop - (i + step)) div step + 1) else 0)"
      let ?N = "min (1000 - length freqs) (nat ((stop - i) div step + 1))"
      have N: "?N = Suc ?n"
      proof -
        have "0 \<le> (stop - (i + step)) div step" if "i + step \<le> stop" using that step by (simp add: pos_imp_zdiv_nonneg_iff)
        then show ?thesis using d 1(5) by (auto simp: nat_add_distrib)
      qed
      have "range_loop (i + step) stop step ?f = Some (?f @ map (\<lambda>k. nat (i + step + int k * step)) [0..<?n])"
      proof (rule 1(1))
        show "?f = freqs @ [nat (i mod 2 ^ 32)]" unfolding m ..
      qed (use True 1(3,4,5) l' fits step in simp_all)
      moreover have "range_loop i stop step freqs = range_loop (i + step) stop step ?f"
        using True 1(5) l' m fits by (subst range_loop.simps) (simp add: Let_def)
      moreover have "map (\<lambda>k. nat (i + int k * step)) [0..<Suc ?n] = nat i # map (\<lambda>k. nat (i + step + int k * step)) [0..<?n]"
        unfolding upt_conv_Cons [OF zero_less_Suc] map_Suc_upt [symmetric] by (simp add: comp_def algebra_simps)
      ultimately show ?thesis using True unfolding if_P [OF True] N by simp
    qed
  qed
qed

text \<open>A range gives the frequencies from its start on, as many as fit into the list; a pair given when one entry is left is written
  past its end.\<close>

theorem frequency_lists:
  assumes "after_colon arg = Some rest" and "Option.bind (atofs (upto_colon arg)) to_i32 = Some i" and "0 \<le> i"
    and "Option.bind (atofs (upto_colon rest)) to_i32 = Some stop" and "length freqs < 1000"
  shows "after_colon rest = Some st \<Longrightarrow> Option.bind (atofs st) to_i32 = Some step \<Longrightarrow> 0 < step \<Longrightarrow> stop + step < 2 ^ 31 \<Longrightarrow>
      fm_frequency_range arg freqs = Some (freqs @ map (\<lambda>k. nat (i + int k * step))
        [0..<min (1000 - length freqs) (if i \<le> stop then nat ((stop - i) div step + 1) else 0)])"
    and "after_colon rest = None \<Longrightarrow> length freqs = 999 \<Longrightarrow> fm_frequency_range arg freqs = None"
proof -
  show "after_colon rest = Some st \<Longrightarrow> Option.bind (atofs st) to_i32 = Some step \<Longrightarrow> 0 < step \<Longrightarrow> stop + step < 2 ^ 31 \<Longrightarrow>
      fm_frequency_range arg freqs = Some (freqs @ map (\<lambda>k. nat (i + int k * step))
        [0..<min (1000 - length freqs) (if i \<le> stop then nat ((stop - i) div step + 1) else 0)])"
    using assms range_loop_freqs [of step i stop freqs] by (simp add: fm_frequency_range_def)
  show "after_colon rest = None \<Longrightarrow> length freqs = 999 \<Longrightarrow> fm_frequency_range arg freqs = None"
    using assms(1) by (auto simp: fm_frequency_range_def push_freq_def bind_eq_None_conv)
qed

section \<open>Squelch and hopping\<close>

text \<open>\<open>sr\<close> is the level of the block (\<open>rms\<close>, which is computed in floating point).\<close>

definition power_squelch :: "int \<Rightarrow> int \<Rightarrow> int list \<Rightarrow> int \<Rightarrow> int list \<times> int" where
  "power_squelch squelch_level sr lowpassed squelch_hits =
     (if squelch_level \<noteq> 0
      then if sr < squelch_level then (replicate (length lowpassed) 0, squelch_hits + 1) else (lowpassed, 0)
      else (lowpassed, squelch_hits))"

text \<open>After the demodulation: whether the controller is told to hop (then the block is dropped), and the new count.\<close>

definition hop_decision :: "int \<Rightarrow> int \<Rightarrow> int \<Rightarrow> bool \<times> int" where
  "hop_decision squelch_level conseq_squelch squelch_hits =
     (if squelch_level \<noteq> 0 \<and> squelch_hits > conseq_squelch then (True, conseq_squelch + 1) else (False, squelch_hits))"

definition demod_turn :: "int \<Rightarrow> int \<Rightarrow> int \<Rightarrow> int \<Rightarrow> bool \<times> int" where
  "demod_turn squelch_level conseq_squelch sr squelch_hits =
     hop_decision squelch_level conseq_squelch (snd (power_squelch squelch_level sr [] squelch_hits))"

record controller =
  freqs :: "nat list"
  freq_now :: nat
  wb_mode :: bool

definition controller_start :: "controller \<Rightarrow> controller" where
  "controller_start s = (if wb_mode s then s\<lparr>freqs := map (\<lambda>f. (f + 16000) mod 2 ^ 32) (freqs s)\<rparr> else s)"

text \<open>One signal to the controller: the frequency tuned to, if there is another one.\<close>

definition controller_hop :: "controller \<Rightarrow> nat option \<times> controller" where
  "controller_hop s =
     (if length (freqs s) \<le> 1 then (None, s)
      else let now = (freq_now s + 1) mod length (freqs s) in (Some (freqs s ! now), s\<lparr>freq_now := now\<rparr>))"

text \<open>A scan: the channel each block is taken on and whether it is passed on.\<close>

fun scan_blocks :: "int \<Rightarrow> int \<Rightarrow> int list \<Rightarrow> int \<Rightarrow> controller \<Rightarrow> (nat \<times> bool) list \<times> int \<times> controller" where
  "scan_blocks level conseq [] hits s = ([], hits, s)"
| "scan_blocks level conseq (sr # srs) hits s =
     (let (hop, hits') = demod_turn level conseq sr hits; s' = (if hop then snd (controller_hop s) else s);
          (tr, st) = scan_blocks level conseq srs hits' s'
      in ((freq_now s, \<not> hop) # tr, st))"

definition quiet_tail :: "int \<Rightarrow> int list \<Rightarrow> nat" where
  "quiet_tail level srs = length (takeWhile (\<lambda>sr. sr < level) (rev srs))"

lemma quiet_tail_snoc: "quiet_tail level (srs @ [sr]) = (if sr < level then Suc (quiet_tail level srs) else 0)"
  by (simp add: quiet_tail_def)

lemma quiet_tail_le: "quiet_tail level srs \<le> length srs"
  by (simp add: quiet_tail_def) (metis length_rev length_takeWhile_le)

lemma scan_snoc:
  "scan_blocks level conseq (srs @ [sr]) hits s =
     (let (tr, h, s') = scan_blocks level conseq srs hits s; (hop, h') = demod_turn level conseq sr h
      in (tr @ [(freq_now s', \<not> hop)], h', if hop then snd (controller_hop s') else s'))"
  by (induction srs arbitrary: hits s) (simp_all add: Let_def split_def)

definition hops :: "(nat \<times> bool) list \<Rightarrow> nat" where
  "hops tr = length (filter (\<lambda>(_, passed). \<not> passed) tr)"

lemma controller_hop_index:
  assumes "1 < length (freqs s)"
  shows "freqs (snd (controller_hop s)) = freqs s" "freq_now (snd (controller_hop s)) = (freq_now s + 1) mod length (freqs s)"
  using assms by (auto simp: controller_hop_def Let_def)



text \<open>The mean average deviation, which nothing calls; \<open>None\<close> is a division by zero.\<close>

definition mad :: "int list \<Rightarrow> nat \<Rightarrow> int option" where
  "mad samples step =
     (if samples = [] then Some 0
      else if step = 0 \<or> length samples < step then None
      else let xs = map (\<lambda>k. samples ! (k * step)) [0..<(length samples + step - 1) div step];
               ave = sum_list xs sdiv int (length samples * step)
        in Some (sum_list (map (\<lambda>x. \<bar>x - ave\<bar>) xs) sdiv int (length samples div step)))"

end
