(* ===== verification/Rtl_Tools.thy ===== *)
theory Rtl_Tools
  imports Convenience
begin

unbundle bit_operations_syntax

text \<open>
  The small tools: the callback and the loop of rtl_sdr that write samples (src/src/rtl_sdr.c), the test for lost
  bytes, the measurement of the clock and the benchmark of rtl_test (src/src/rtl_test.c), and rtl_biast
  (src/src/rtl_biast.c). What they ask of the library keeps its invariant.
\<close>

section \<open>rtl_sdr\<close>

text \<open>\<open>fwrite\<close> is given as the number of bytes it accepts; \<open>cancelled\<close>: \<open>rtlsdr_cancel_async\<close> was called.\<close>

record sdr =
  bytes_to_read :: nat
  do_exit :: bool
  cancelled :: bool
  written :: "u8 list"

definition sdr_init :: "nat \<Rightarrow> sdr" where
  "sdr_init n = \<lparr>bytes_to_read = n, do_exit = False, cancelled = False, written = []\<rparr>"

definition sdr_write :: "(u8 list \<Rightarrow> nat) \<Rightarrow> u8 list \<Rightarrow> sdr \<Rightarrow> sdr" where
  "sdr_write fwrite bs s = s\<lparr>written := written s @ take (fwrite bs) bs\<rparr>"

definition sdr_callback :: "(u8 list \<Rightarrow> nat) \<Rightarrow> u8 list \<Rightarrow> sdr \<Rightarrow> sdr" where
  "sdr_callback fwrite buf s =
     (if do_exit s then s
      else let (bs, s) = (if 0 < bytes_to_read s \<and> bytes_to_read s < length buf
                          then (take (bytes_to_read s) buf, s\<lparr>do_exit := True, cancelled := True\<rparr>) else (buf, s));
               s = sdr_write fwrite bs s;
               s = (if fwrite bs \<noteq> length bs then s\<lparr>cancelled := True\<rparr> else s)
           in if 0 < bytes_to_read s then s\<lparr>bytes_to_read := bytes_to_read s - length bs\<rparr> else s)"

text \<open>Reading without the callback: the answers of \<open>rtlsdr_read_sync\<close> until the loop ends.\<close>

fun sync_loop :: "(u8 list \<Rightarrow> nat) \<Rightarrow> nat \<Rightarrow> (int \<times> u8 list) list \<Rightarrow> sdr \<Rightarrow> sdr" where
  "sync_loop fwrite out_block_size [] s = s"
| "sync_loop fwrite out_block_size ((r, buf) # reads) s =
     (if do_exit s \<or> r < 0 then s
      else let (bs, s) = (if 0 < bytes_to_read s \<and> bytes_to_read s < length buf
                          then (take (bytes_to_read s) buf, s\<lparr>do_exit := True\<rparr>) else (buf, s));
               s = sdr_write fwrite bs s
           in if fwrite bs \<noteq> length bs \<or> length bs < out_block_size then s
              else sync_loop fwrite out_block_size reads
                     (if 0 < bytes_to_read s then s\<lparr>bytes_to_read := bytes_to_read s - length bs\<rparr> else s))"

text \<open>The request of option \<open>-n\<close>, in samples of two bytes.\<close>

definition request_bytes :: "nat \<Rightarrow> nat" where
  "request_bytes samples = samples * 2 mod 2 ^ 32"

lemma callback_full:
  assumes "\<not> do_exit s" and "bytes_to_read s = 0 \<or> length buf \<le> bytes_to_read s"
  shows "sdr_callback length buf s = s\<lparr>written := written s @ buf, bytes_to_read := bytes_to_read s - length buf\<rparr>"
  using assms by (cases s) (auto simp: sdr_callback_def sdr_write_def Let_def)

lemma callback_last:
  assumes "\<not> do_exit s" and "0 < bytes_to_read s" and "bytes_to_read s < length buf"
  shows "sdr_callback length buf s = s\<lparr>written := written s @ take (bytes_to_read s) buf, bytes_to_read := 0, do_exit := True, cancelled := True\<rparr>"
  using assms by (cases s) (auto simp: sdr_callback_def sdr_write_def Let_def)

lemma callbacks_after_exit: "do_exit s \<Longrightarrow> fold (sdr_callback fwrite) bufs s = s"
  by (induction bufs) (simp_all add: sdr_callback_def)

lemma callbacks_unlimited:
  "\<not> do_exit s \<Longrightarrow> bytes_to_read s = 0 \<Longrightarrow> fold (sdr_callback length) bufs s = s\<lparr>written := written s @ concat bufs\<rparr>"
  by (induction bufs arbitrary: s) (simp_all add: callback_full)

definition hits :: "nat \<Rightarrow> 'a list list \<Rightarrow> bool" where
  "hits n bufs \<longleftrightarrow> (\<exists>k \<le> length bufs. length (concat (take k bufs)) = n)"

lemma hits_Cons: "0 < n \<Longrightarrow> hits n (b # bs) \<longleftrightarrow> length b \<le> n \<and> hits (n - length b) bs"
  unfolding hits_def
proof (intro iffI)
  assume n: "0 < n" and "\<exists>k \<le> length (b # bs). length (concat (take k (b # bs))) = n"
  then obtain k where k: "k \<le> length (b # bs)" "length (concat (take k (b # bs))) = n" by blast
  then obtain j where "k = Suc j" using n by (cases k) auto
  then show "length b \<le> n \<and> (\<exists>k \<le> length bs. length (concat (take k bs)) = n - length b)" using k by auto
next
  assume "length b \<le> n \<and> (\<exists>k \<le> length bs. length (concat (take k bs)) = n - length b)"
  then obtain k where "length b \<le> n" "k \<le> length bs" "length (concat (take k bs)) = n - length b" by blast
  then show "\<exists>k \<le> length (b # bs). length (concat (take k (b # bs))) = n" by (intro exI [of _ "Suc k"]) simp
qed

lemma callbacks_written:
  assumes "\<not> do_exit s" and "0 < bytes_to_read s"
  shows "fold (sdr_callback length) bufs s =
    (if hits (bytes_to_read s) bufs then s\<lparr>written := written s @ concat bufs, bytes_to_read := 0\<rparr>
     else if bytes_to_read s < length (concat bufs)
     then s\<lparr>written := written s @ take (bytes_to_read s) (concat bufs), bytes_to_read := 0, do_exit := True, cancelled := True\<rparr>
     else s\<lparr>written := written s @ concat bufs, bytes_to_read := bytes_to_read s - length (concat bufs)\<rparr>)"
  using assms
proof (induction bufs arbitrary: s)
  case Nil
  then show ?case by (simp add: hits_def)
next
  case (Cons b bs)
  consider "bytes_to_read s < length b" | "bytes_to_read s = length b" | "length b < bytes_to_read s" by linarith
  then show ?case
  proof cases
    case 1
    then show ?thesis using Cons.prems by (simp add: callback_last callbacks_after_exit hits_Cons)
  next
    case 2
    then have "hits (bytes_to_read s) (b # bs)" using Cons.prems unfolding hits_Cons [OF Cons.prems(2)] by (auto simp: hits_def)
    then show ?thesis using 2 Cons.prems by (simp add: callback_full callbacks_unlimited)
  next
    case 3
    let ?s = "s\<lparr>written := written s @ b, bytes_to_read := bytes_to_read s - length b\<rparr>"
    have "fold (sdr_callback length) (b # bs) s = fold (sdr_callback length) bs ?s" using 3 Cons.prems by (simp add: callback_full)
    moreover have "\<not> do_exit ?s" "0 < bytes_to_read ?s" using 3 Cons.prems by simp_all
    moreover have "hits (bytes_to_read s) (b # bs) \<longleftrightarrow> hits (bytes_to_read ?s) bs" using 3 by (simp add: hits_Cons [OF Cons.prems(2)])
    ultimately show ?thesis using Cons.IH [of ?s] 3 by auto
  qed
qed

text \<open>C28: rtl_sdr writes exactly the bytes asked for and then stops, unless the request is met exactly at the end of a buffer: then it
  counts as no request at all, and everything is written without an end.\<close>

theorem sdr_request:
  assumes "0 < n"
  shows "(\<not> hits n bufs \<longrightarrow> written (fold (sdr_callback length) bufs (sdr_init n)) = take n (concat bufs) \<and>
      (cancelled (fold (sdr_callback length) bufs (sdr_init n)) \<longleftrightarrow> n < length (concat bufs))) \<and>
    (hits n bufs \<longrightarrow> written (fold (sdr_callback length) bufs (sdr_init n)) = concat bufs \<and>
      \<not> cancelled (fold (sdr_callback length) bufs (sdr_init n)))"
  using callbacks_written [of "sdr_init n" bufs] assms by (simp add: sdr_init_def)

theorem sdr_request_witness:
  "written (fold (sdr_callback length) [[1, 2, 3, 4], [5, 6, 7, 8], [9, 10, 11, 12]] (sdr_init 6)) = [1, 2, 3, 4, 5, 6] \<and>
   written (fold (sdr_callback length) [[1, 2, 3, 4], [5, 6, 7, 8], [9, 10, 11, 12]] (sdr_init 8)) = [1, 2, 3, 4, 5, 6, 7, 8, 9, 10, 11, 12]"
proof -
  let ?b = "[[1, 2, 3, 4], [5, 6, 7, 8], [9, 10, 11, 12]] :: u8 list list"
  have "hits 8 ?b" by (auto simp: hits_def intro!: exI [of _ 2])
  moreover have "\<not> hits 6 ?b"
    by (simp add: hits_Cons)
  ultimately show ?thesis using sdr_request [of 6 ?b] sdr_request [of 8 ?b] by simp
qed

text \<open>Both ways of reading write the same bytes as long as every read is a full block.\<close>

lemma sync_written:
  assumes "\<forall>(r, buf) \<in> set reads. 0 \<le> r \<and> length buf = out_block_size"
  shows "written (sync_loop length out_block_size reads s) = written (fold (sdr_callback length) (map snd reads) s)"
  using assms
proof (induction reads arbitrary: s)
  case (Cons rb reads)
  obtain r buf where rb: "rb = (r, buf)" by fastforce
  then have r: "0 \<le> r" "length buf = out_block_size" using Cons.prems by auto
  show ?case
  proof (cases "do_exit s")
    case True
    then show ?thesis using rb callbacks_after_exit [OF True, of length "map snd (rb # reads)"] by simp
  next
    case False
    show ?thesis
    proof (cases "0 < bytes_to_read s \<and> bytes_to_read s < length buf")
      case True
      then have "sync_loop length out_block_size (rb # reads) s = s\<lparr>do_exit := True, written := written s @ take (bytes_to_read s) buf\<rparr>"
        using False r rb by (simp add: sdr_write_def min_def)
      then show ?thesis using True False rb by (simp add: callback_last callbacks_after_exit)
    next
      case full: False
      then have f: "bytes_to_read s = 0 \<or> length buf \<le> bytes_to_read s" by auto
      have "sync_loop length out_block_size (rb # reads) s = sync_loop length out_block_size reads (sdr_callback length buf s)"
        using False r rb full f by (cases s) (auto simp: sdr_write_def callback_full Let_def)
      then show ?thesis using Cons.IH [of "sdr_callback length buf s"] Cons.prems rb by simp
    qed
  qed
qed simp

text \<open>What is set before the samples are read.\<close>

definition sdr_setup :: "'h usb_ops \<Rightarrow> bool \<Rightarrow> nat \<Rightarrow> nat \<Rightarrow> int \<Rightarrow> int \<Rightarrow> ('h rtlsdr, unit) prog" where
  "sdr_setup U direct_sampling samp_rate frequency gain ppm_error = do {
     _ \<leftarrow> (if direct_sampling then verbose_direct_sampling U 2 else ret 0);
     _ \<leftarrow> verbose_set_sample_rate U samp_rate;
     _ \<leftarrow> verbose_set_frequency U frequency;
     _ \<leftarrow> (if gain = 0 then verbose_auto_gain U else do { gain \<leftarrow> nearest_gain U gain; verbose_gain_set U gain });
     _ \<leftarrow> verbose_ppm_set U ppm_error;
     _ \<leftarrow> verbose_reset_buffer U;
     ret () }"

section \<open>rtl_biast\<close>

definition biast_main :: "'h usb_ops \<Rightarrow> int \<Rightarrow> bool \<Rightarrow> ('h rtlsdr, int) prog" where
  "biast_main U gpio_pin bias_on = do { _ \<leftarrow> rtlsdr_set_bias_tee_gpio U gpio_pin bias_on; rtlsdr_close U }"

section \<open>rtl_test\<close>

text \<open>The test mode of the RTL2832 counts in bytes. \<open>None\<close>: the first buffer is empty.\<close>

record counting =
  bcnt :: u8
  uninit :: bool
  total_samples :: nat
  dropped_samples :: nat

definition counting_init :: counting where
  "counting_init = \<lparr>bcnt = 0, uninit = True, total_samples = 0, dropped_samples = 0\<rparr>"

definition count_step :: "u8 \<Rightarrow> u8 \<times> nat \<Rightarrow> u8 \<times> nat" where
  "count_step x st = (let (bcnt, lost) = st in
     if bcnt \<noteq> x then (x + 1, lost + (if x > bcnt then unat x - unat bcnt else unat bcnt - unat x)) else (bcnt + 1, lost))"

definition underrun_test :: "u8 list \<Rightarrow> counting \<Rightarrow> counting option" where
  "underrun_test buf s =
     (if uninit s \<and> buf = [] then None
      else let first = (if uninit s then buf ! 0 else bcnt s); (b, lost) = fold count_step buf (first, 0)
           in Some (s\<lparr>bcnt := b, uninit := False, total_samples := (total_samples s + length buf) mod 2 ^ 32,
                      dropped_samples := (dropped_samples s + lost) mod 2 ^ 32\<rparr>))"

fun counts_up :: "u8 \<Rightarrow> u8 list \<Rightarrow> bool" where
  "counts_up b [] \<longleftrightarrow> True"
| "counts_up b (x # xs) \<longleftrightarrow> x = b \<and> counts_up (b + 1) xs"

lemma count_step_loses: "snd (count_step x st) = snd st \<longleftrightarrow> x = fst st" "fst (count_step x st) = x + 1" "snd st \<le> snd (count_step x st)"
proof -
  obtain b l where st: "st = (b, l)" by fastforce
  show "fst (count_step x st) = x + 1" "snd st \<le> snd (count_step x st)" by (auto simp: st count_step_def)
  show "snd (count_step x st) = snd st \<longleftrightarrow> x = fst st"
    by (auto simp: st count_step_def word_less_nat_alt word_unat_eq_iff)
qed

lemma count_steps_mono: "snd st \<le> snd (fold count_step xs st)"
proof (induction xs arbitrary: st)
  case (Cons x xs)
  then show ?case using order_trans [OF count_step_loses(3) Cons.IH [of "count_step x st"]] by simp
qed simp

lemma count_steps_none: "snd (fold count_step xs st) = snd st \<longleftrightarrow> counts_up (fst st) xs"
proof (induction xs arbitrary: st)
  case (Cons x xs)
  have m: "snd st \<le> snd (count_step x st)" "snd (count_step x st) \<le> snd (fold count_step xs (count_step x st))"
    using count_step_loses(3) count_steps_mono by blast+
  show ?case
  proof
    assume "snd (fold count_step (x # xs) st) = snd st"
    then have "snd (count_step x st) = snd st" "snd (fold count_step xs (count_step x st)) = snd (count_step x st)" using m by simp_all
    then show "counts_up (fst st) (x # xs)" using Cons.IH count_step_loses(1,2) by auto
  next
    assume "counts_up (fst st) (x # xs)"
    then have "snd (count_step x st) = snd st" "counts_up (fst (count_step x st)) xs" using count_step_loses(1,2) by auto
    then show "snd (fold count_step (x # xs) st) = snd st" using Cons.IH [of "count_step x st"] by simp
  qed
qed simp

text \<open>What one gap is counted as.\<close>

lemma one_gap:
  assumes "0 < g" and "g < 256"
  shows "snd (count_step (b + word_of_nat g) (b, 0)) = (if unat b + g < 256 then g else 256 - g)"
proof -
  have "unat b < 2 ^ LENGTH(8)" by (rule unsigned_less)
  then have b: "unat b < 256" by simp
  have x: "unat (b + word_of_nat g) = (unat b + g) mod 256" using assms by (simp add: unat_word_ariths unat_of_nat)
  have m: "(unat b + g) mod 256 = (if unat b + g < 256 then unat b + g else unat b + g - 256)" using b assms by (auto simp: mod_if)
  have "b + word_of_nat g \<noteq> b" using b assms by (auto simp: word_unat_eq_iff x m)
  then show ?thesis using b assms by (auto simp: count_step_def word_less_nat_alt x m)
qed

definition run_underrun :: "u8 list list \<Rightarrow> counting \<Rightarrow> counting option" where
  "run_underrun bufs s = fold (\<lambda>buf r. Option.bind r (underrun_test buf)) bufs (Some s)"

lemma count_steps_shift:
  "fold count_step xs (b, l) = (fst (fold count_step xs (b, 0)), l + snd (fold count_step xs (b, 0)))"
proof (induction xs arbitrary: b l)
  case (Cons x xs)
  have "count_step x (b, l) = (x + 1, l + snd (count_step x (b, 0)))" "count_step x (b, 0) = (x + 1, snd (count_step x (b, 0)))"
    by (auto simp: count_step_def)
  then show ?case using Cons.IH [of "x + 1" "l + snd (count_step x (b, 0))"] Cons.IH [of "x + 1" "snd (count_step x (b, 0))"]
    by (metis (no_types, lifting) add.assoc fold_simps(2) fst_conv snd_conv)
qed simp

lemma run_underrun_started:
  assumes "\<not> uninit s"
  shows "run_underrun bufs s = Some (s\<lparr>bcnt := fst (fold count_step (concat bufs) (bcnt s, 0)),
    total_samples := (if bufs = [] then total_samples s else (total_samples s + length (concat bufs)) mod 2 ^ 32),
    dropped_samples := (if bufs = [] then dropped_samples s else (dropped_samples s + snd (fold count_step (concat bufs) (bcnt s, 0))) mod 2 ^ 32)\<rparr>)"
  using assms
proof (induction bufs rule: rev_induct)
  case Nil
  then show ?case by (simp add: run_underrun_def)
next
  case (snoc b bs)
  obtain c l where f: "fold count_step (concat bs) (bcnt s, 0) = (c, l)" by fastforce
  have "run_underrun (bs @ [b]) s = Option.bind (run_underrun bs s) (underrun_test b)" by (simp add: run_underrun_def)
  then show ?case using snoc f count_steps_shift [of b c l]
    by (cases "bs = []") (auto simp: underrun_test_def Let_def split_def mod_simps add.assoc)
qed

text \<open>C29: what rtl_test reports as lost does not depend on where the buffers end, and is nothing exactly when the bytes count up without a
  gap. A single gap of \<open>g\<close> bytes is counted as \<open>g\<close>, or as \<open>256 - g\<close> when the counter wraps in it.\<close>

theorem underrun_counts:
  assumes "buf \<noteq> []"
  shows "\<exists>s. run_underrun (buf # bufs) counting_init = Some s \<and>
    total_samples s = length (concat (buf # bufs)) mod 2 ^ 32 \<and>
    dropped_samples s = snd (fold count_step (concat (buf # bufs)) (hd buf, 0)) mod 2 ^ 32 \<and>
    (snd (fold count_step (concat (buf # bufs)) (hd buf, 0)) = 0 \<longleftrightarrow> counts_up (hd buf) (concat (buf # bufs))) \<and>
    (\<forall>b g. 0 < g \<and> g < 256 \<longrightarrow> snd (count_step (b + word_of_nat g) (b, 0)) = (if unat b + g < 256 then g else 256 - g))"
proof -
  let ?s = "counting_init\<lparr>bcnt := hd buf, uninit := False\<rparr>"
  have "underrun_test buf counting_init = underrun_test buf ?s"
    using assms by (simp add: underrun_test_def counting_init_def hd_conv_nth Let_def)
  then have "run_underrun (buf # bufs) counting_init = run_underrun (buf # bufs) ?s" by (simp add: run_underrun_def)
  also have "\<dots> = Some (?s\<lparr>bcnt := fst (fold count_step (concat (buf # bufs)) (bcnt ?s, 0)),
    total_samples := (total_samples ?s + length (concat (buf # bufs))) mod 2 ^ 32,
    dropped_samples := (dropped_samples ?s + snd (fold count_step (concat (buf # bufs)) (bcnt ?s, 0))) mod 2 ^ 32\<rparr>)"
    by (subst run_underrun_started) simp_all
  finally show ?thesis using count_steps_none [of "concat (buf # bufs)" "(hd buf, 0)"] one_gap
    by (auto simp: counting_init_def)
qed

theorem underrun_counts_witness:
  "\<exists>s. run_underrun [[253, 254, 255], [0, 1]] counting_init = Some s \<and> total_samples s = 5 \<and> dropped_samples s = 0 \<and>
    snd (count_step (255 + word_of_nat 1) (255, 0)) = 255"
  using underrun_counts [of "[253, 254, 255]" "[[0, 1]]"] by (auto simp: count_step_def)

text \<open>The measurement of the clock; the times are seconds and nanoseconds. A report is the rate and the two errors in ppm.\<close>

datatype ppm_init = PPM_INIT_NO | PPM_INIT_DUMP | PPM_INIT_RUN

record ppm =
  nsamples :: nat
  nsamples_total :: nat
  interval_total :: nat
  recent :: "int \<times> int"
  init_state :: ppm_init

definition ppm_start :: ppm where
  "ppm_start = \<lparr>nsamples = 0, nsamples_total = 0, interval_total = 0, recent = (0, 0), init_state = PPM_INIT_NO\<rparr>"

text \<open>\<open>round\<close> of the C library, away from zero in ties.\<close>

definition c_round :: "rat \<Rightarrow> int" where
  "c_round x = (if 0 \<le> x then \<lfloor>x + 1 / 2\<rfloor> else - \<lfloor>1 / 2 - x\<rfloor>)"

definition ppm_report :: "nat \<Rightarrow> nat \<Rightarrow> nat \<Rightarrow> int" where
  "ppm_report samp_rate samples interval =
     (let real_rate = fl (fl (fl (of_nat samples) * 1000000000) / fl (of_nat interval))
      in to_int32 (c_round (fl (1000000 * fl (fl (real_rate / of_nat samp_rate) - 1)))))"

text \<open>\<open>None\<close>: the interval is zero and the rate is divided by it.\<close>

definition ppm_test :: "nat \<Rightarrow> nat \<Rightarrow> nat \<Rightarrow> int \<times> int \<Rightarrow> ppm \<Rightarrow> ((int \<times> int \<times> int) option \<times> ppm) option" where
  "ppm_test samp_rate ppm_duration len ppm_now s =
     (case init_state s of
        PPM_INIT_NO \<Rightarrow> Some (None, s\<lparr>recent := (fst ppm_now + 5, snd (recent s)), init_state := PPM_INIT_DUMP\<rparr>)
      | PPM_INIT_DUMP \<Rightarrow>
          Some (None, if fst (recent s) < fst ppm_now then s else s\<lparr>recent := ppm_now, init_state := PPM_INIT_RUN\<rparr>)
      | PPM_INIT_RUN \<Rightarrow>
          (let n = (nsamples s + len div 2) mod 2 ^ 64; seconds = nat ((fst ppm_now - fst (recent s)) mod 2 ^ 64) in
           if seconds < ppm_duration then Some (None, s\<lparr>nsamples := n\<rparr>)
           else let interval = nat ((int seconds * 1000000000 + (snd ppm_now - snd (recent s))) mod 2 ^ 64);
                    nt = (nsamples_total s + n) mod 2 ^ 64; it = (interval_total s + interval) mod 2 ^ 64
             in if interval = 0 then None
                else Some (Some (to_int32 (int (1000000000 * n mod 2 ^ 64 div interval)), ppm_report samp_rate n interval, ppm_report samp_rate nt it),
                  s\<lparr>nsamples := 0, nsamples_total := nt, interval_total := it, recent := ppm_now\<rparr>)))"

fun ppm_run :: "nat \<Rightarrow> nat \<Rightarrow> (nat \<times> int \<times> int) list \<Rightarrow> ppm \<Rightarrow> ((int \<times> int \<times> int) list \<times> ppm) option" where
  "ppm_run rate dur [] s = Some ([], s)"
| "ppm_run rate dur ((len, now) # calls) s = Option.bind (ppm_test rate dur len now s) (\<lambda>(r, s).
     map_option (apfst (\<lambda>rs. (case r of None \<Rightarrow> rs | Some x \<Rightarrow> x # rs))) (ppm_run rate dur calls s))"

lemma ppm_dump_stuck:
  assumes "init_state s = PPM_INIT_DUMP" and "list_all (\<lambda>(len, now). fst (recent s) < fst now) calls"
  shows "ppm_run rate dur calls s = Some ([], s)"
  using assms(2) by (induction calls) (auto simp: ppm_test_def assms(1))

text \<open>The first seconds of the measurement are not thrown away: it runs from the second call on when that comes within five seconds
  of the first, and never when every later call comes after them.\<close>

theorem ppm_dump_inverted:
  assumes "list_all (\<lambda>(len, now). fst t0 + 5 < fst now) calls"
  shows "ppm_run rate dur ((len0, t0) # calls) ppm_start = Some ([], ppm_start\<lparr>recent := (fst t0 + 5, 0), init_state := PPM_INIT_DUMP\<rparr>) \<and>
    (fst t1 \<le> fst t0 + 5 \<longrightarrow> ppm_run rate dur [(len0, t0), (len1, t1)] ppm_start = Some ([], ppm_start\<lparr>recent := t1, init_state := PPM_INIT_RUN\<rparr>))"
  using ppm_dump_stuck [of "ppm_start\<lparr>recent := (fst t0 + 5, 0), init_state := PPM_INIT_DUMP\<rparr>" calls rate dur] assms
  by (auto simp: ppm_test_def ppm_start_def)

theorem ppm_dump_inverted_witness:
  "ppm_run 2048000 10 [(262144, (100, 0)), (262144, (106, 0)), (262144, (200, 0))] ppm_start =
     Some ([], ppm_start\<lparr>recent := (105, 0), init_state := PPM_INIT_DUMP\<rparr>)"
  using ppm_dump_inverted [of "(100, 0)" "[(262144, (106, 0)), (262144, (200, 0))]" 2048000 10 262144 "(101, 0)" 262144] by simp

text \<open>The benchmark of the E4000: the first frequency of a list that cannot be tuned.\<close>

fun first_failing :: "'h usb_ops \<Rightarrow> nat list \<Rightarrow> ('h rtlsdr, nat) prog" where
  "first_failing U [] = ret 0"
| "first_failing U (freq # freqs) = do {
     r \<leftarrow> rtlsdr_set_center_freq U freq;
     if r < 0 then ret freq else first_failing U freqs }"

definition mhz :: "nat list \<Rightarrow> nat list" where
  "mhz ns = map (\<lambda>n. n * 1000000) ns"

definition e4k_benchmark :: "'h usb_ops \<Rightarrow> ('h rtlsdr, nat list) prog" where
  "e4k_benchmark U = do {
     range_start \<leftarrow> first_failing U (mhz (rev [2..<71]));
     range_end \<leftarrow> first_failing U (mhz [2000..<2300]);
     gap_start \<leftarrow> first_failing U (mhz [1000..<1300]);
     gap_end \<leftarrow> first_failing U (mhz (rev [1001..<1301]));
     ret [range_start div 1000000 + 1, range_end div 1000000 - 1, gap_start div 1000000, gap_end div 1000000] }"

lemma first_failing_keeps: "list_all (\<lambda>f. f < 2 ^ 32) fs \<Longrightarrow> always (lib_inv True t) (first_failing U fs)"
  by (induction fs) (auto intro!: always_rules lib_rules)

lemma mhz_less: "\<forall>n \<in> set ns. n < 4000 \<Longrightarrow> list_all (\<lambda>f. f < 2 ^ 32) (mhz ns)"
  by (auto simp: mhz_def list_all_iff)

lemma e4k_benchmark_keeps: "always (lib_inv True t) (e4k_benchmark U)"
  unfolding e4k_benchmark_def by (intro always_rules first_failing_keeps mhz_less) (simp_all del: upt_rec_numeral)

lemma sdr_setup_keeps:
  assumes "\<bar>ppm\<bar> \<le> 1000" and "frequency < 2 ^ 32"
  shows "always (lib_inv True t) (sdr_setup U ds rate frequency gain ppm)"
  unfolding sdr_setup_def verbose_direct_sampling_def verbose_set_sample_rate_def verbose_set_frequency_def verbose_auto_gain_def
    nearest_gain_def rtlsdr_get_tuner_gains_def verbose_gain_set_def verbose_ppm_set_def verbose_reset_buffer_def rtlsdr_reset_buffer_def
  using assms by (intro always_rules lib_rules)

text \<open>None of the three tools brings the library to undefined behaviour.\<close>

theorem tools_safe:
  assumes "rtlsdr_open U H h index = (r, Some s)" and "\<bar>ppm\<bar> \<le> 1000" and "frequency < 2 ^ 32"
  shows "\<not> d_fault (snd (run_state (sdr_setup U ds rate frequency gain ppm) s)) \<and> \<not> d_fault (snd (run_state (e4k_benchmark U) s)) \<and>
    \<not> d_fault (snd (run_state (rtlsdr_set_bias_tee_gpio U gpio_pin on) s))"
proof -
  obtain t where I: "lib_inv True t s" using rtlsdr_open_inv [OF assms(1)] by blast
  have "always (lib_inv True t) (rtlsdr_set_bias_tee_gpio U gpio_pin on)" by (rule lib_bias_tee)
  then show ?thesis using I e4k_benchmark_keeps [of t U] sdr_setup_keeps [OF assms(2,3), of t U ds rate gain]
    unfolding always_def lib_inv_def by blast
qed

end
