(* ===== verification/Spec2Isabelle.thy ===== *)
theory Spec2Isabelle
  imports R82xx_Correct E4k_Correct Fc_Correct Librtlsdr_Correct Librtlsdr_Async Convenience
    Rtl_Eeprom Rtl_Adsb Rtl_Fm Rtl_Power Rtl_Tcp Rtl_Hpsdr
    Rtl_Fm_Control Rtl_Tools
begin

text \<open>
  \<^bold>\<open>librtlsdr\<close>: a library that turns DVB-T dongles with the RTL2832U demodulator into software-defined
  radios, and the tools built on it. This development models the library, its five tuner drivers and the
  logic of several tools, and proves what makes them correct.

  \<^bold>\<open>Parts and layers.\<close> A program calls the library (src/src/librtlsdr.c). The library talks to the RTL2832U through
  control transfers of libusb and to the tuner chip behind it through an I2C bridge; a table of
  functions selects the tuner driver (src/src/tuner_r82xx.c, tuner_e4k.c, tuner_fc0012.c, tuner_fc0013.c,
  tuner_fc2580.c). Samples come back through asynchronous bulk transfers and a callback.
  The tools (src/src/rtl_tcp.c, rtl_adsb.c, rtl_fm.c, rtl_power.c, rtl_eeprom.c, rtl_sdr.c, rtl_test.c,
  rtl_biast.c, rtl_hpsdr.c) share the helper functions of
  src/src/convenience/convenience.c.

  \<^bold>\<open>How the code is modelled.\<close> Stateful code is written in the state monad (\<open>('s, 'a) prog\<close>), with the result
  codes of the C functions as integers. The USB device is a parameter: \<open>'h usb_ops\<close> gives the answer to every
  transfer as a function of an arbitrary state \<open>'h\<close>, so that a theorem without a hypothesis on
  it holds for every device, faulty ones included; where a device has to answer as its data
  sheet says, this is a named predicate (\<open>usb_ok\<close>, \<open>chip_bus\<close>, \<open>bus_at\<close>, \<open>eeprom_bus\<close>), which simulated devices satisfy in the
  witnesses. libusb's list of devices is a second parameter (\<open>usb_host\<close>). Undefined
  behaviour of C (division by zero, conversions out of range, accesses outside an array) is recorded in a flag of
  the state (\<open>d_fault\<close>, \<open>r_fault\<close>) or is the value \<open>None\<close>. Integers are words or integers with the wrap-around
  written out; \<open>double\<close> arithmetic is exact rational arithmetic with rounding to 53 bits after each operation.

  \<^bold>\<open>Theories.\<close>
  \<^item> \<open>Prelude\<close>: types, buffers, the state monad and its rules: \<open>always\<close> (an invariant of every run), \<open>on_success\<close> and
    \<open>hoare\<close> (of every successful run), \<open>succeeds\<close> and \<open>yields\<close> (total correctness), with the
    collections \<open>always_rules\<close>, \<open>success_rules\<close>, \<open>total_rules\<close>.
  \<^item> \<open>Usb\<close>: register, I2C and GPIO access of librtlsdr.c.
  \<^item> \<open>Tuner_r82xx\<close> (the driver), \<open>R82xx_Regs\<close> (shadow registers; the locale \<open>r82xx_regs\<close> carries an invariant through
    all entry points), \<open>R82xx_Pll\<close> (PLL and gain arithmetic), \<open>R82xx_Total\<close> (success on a device that answers),
    \<open>R82xx_Correct\<close> (properties).
  \<^item> \<open>Tuner_e4k\<close>, \<open>E4k_Chip\<close>, \<open>E4k_Correct\<close>: the E4000 driver, its registers, its properties.
  \<^item> \<open>Tuner_fc001x\<close>, \<open>Tuner_fc2580\<close>, \<open>Fc_Chip\<close>, \<open>Fc_Correct\<close>: the FC0012, FC0013 and FC2580 drivers over the interface
    \<open>reg_chip\<close>, which is interpreted for the access functions of each driver. \<open>I2c_Chip\<close> is the chip behind the bridge.
  \<^item> \<open>Double_Fp\<close>: the floating-point numbers and when a truncated quotient is the integer quotient.
  \<^item> \<open>Librtlsdr\<close>: the library core; \<open>Librtlsdr_Num\<close> its arithmetic; \<open>Librtlsdr_State\<close> what each operation can change, and that
    tuning and direct sampling, which call each other, end; \<open>Librtlsdr_Inv\<close> the invariant \<open>lib_inv\<close> of an opened device, every
    call that keeps it, and that opening establishes it; \<open>Librtlsdr_Xtal\<close> what no call undoes; \<open>Device_List\<close> device selection;
    \<open>Eeprom_Chip\<close> the EEPROM (interface \<open>storage\<close>); \<open>Librtlsdr_Correct\<close> the properties.
  \<^item> \<open>Librtlsdr_Async\<close>: \<open>rtlsdr_read_async\<close>, the callback of libusb and cancelling, as a step relation over all
    interleavings of completions and calls, with its invariant.
  \<^item> \<open>Convenience\<close>: numbers with suffixes, the search for a device, the nearest gain.
  \<^item> \<open>Rtl_Eeprom\<close>: image parser and generator and the main program, over the interface \<open>storage\<close>.
  \<^item> \<open>Rtl_Adsb\<close>: from samples to printed frames.
  \<^item> \<open>Rtl_Fm\<close>: the fixed-point signal path; the interface \<open>stream_filter\<close> (a filter does not depend on where buffers end), its
    chain, and the filters that satisfy it. \<open>Rtl_Fm_Control\<close>: the list of frequencies, squelch and hopping.
  \<^item> \<open>Rtl_Tcp\<close>: the list of buffers between callback and worker (a step relation), and the command thread over the
    invariant of the library.
  \<^item> \<open>Fix_Fft\<close>: the in-place integer FFT of rtl_power.c against the discrete Fourier transform over the complex numbers;
    \<open>Rtl_Power\<close>: the plan of a scan, the scanner and the report.
  \<^item> \<open>Hpsdr_Frames\<close>: control packets, the samples of several receivers in a frame and the hand-over between the threads of
    rtl_hpsdr.c (a step relation); \<open>Hpsdr_Sender\<close>: conversion, decimation (downsample.c) and the sending thread;
    \<open>Rtl_Hpsdr\<close>: calibration and its hand-over (a step relation), options and configuration file, the use of the dongles over the invariant of the library, and the datagrams of the client.
  \<^item> \<open>Rtl_Tools\<close>: what rtl_sdr writes, the measurements of rtl_test, and rtl_biast.

  \<^bold>\<open>What is shown.\<close> Safety: no call sequence reaches undefined behaviour in the R82xx driver or the
  library, from opening to arbitrary commands of a network client, within stated ranges of the arguments.
  Consistency: the shadow registers of the R82xx driver equal the chip's; masked writes change only the masked bits; transfers
  are freed only when libusb has finished with them; the list of the server keeps order and bound; the frames of rtl_hpsdr
  hold the same chunk of every receiver in its slots. Accuracy: the divider
  registers of all five tuners describe the frequency asked for, with a proved error; the sampling rate is exact; the integer FFT never wraps and is
  near the Fourier transform. Round
  trips: EEPROM contents and images, FIR coefficients, filter bandwidths, transmitted frames. Refinement: in-place
  filters against sums over the whole stream, the chunks sent against the filtered blocks, device search against its description. Termination: mutual recursion of tuning,
  the decoder of rtl_adsb. Errors: the properties of kind error are concrete inputs or runs on which the code
  goes wrong; each belongs to a finding.

  \<^bold>\<open>Fuel and bounds.\<close> Three nested calls are enough for \<open>center_freq_fuel\<close> (\<open>center_freq_terminates\<close>: more change nothing); the
  sigma-delta loop has 16 rounds, one for each bit; \<open>manchester_loop\<close> needs at most as many rounds as there are
  magnitudes (\<open>adsb_terminates\<close>). The blocks and buffers of rtl_hpsdr have the sizes of its header file. All other loops are total recursive functions.

  \<^bold>\<open>Not modelled.\<close> Threads and locks beyond the interleavings of \<open>Rtl_Tcp\<close>, \<open>Librtlsdr_Async\<close> and \<open>Hpsdr_Frames\<close>; sockets, files,
  option parsing and messages; zero-copy buffers, Windows code; the floating-point demodulators and levels of rtl_fm; the window
  functions and the main loop of rtl_power; of rtl_hpsdr the reader of IQ files, the set-up in
  \<open>main\<close>, the tables of filter coefficients (a parameter), the vector variants of the filters, which are not compiled, and the sound output;
  the vendored getopt.
\<close>

end
